(* ===== verification/Head_Tail_Buffer.thy ===== *)
theory Head_Tail_Buffer
  imports Prelude
begin

text \<open>
  The capped output buffer of unified exec (core/src/unified\_exec/head\_tail\_buffer.rs):
  a process's output is pushed chunk by chunk, a stable prefix and a sliding suffix are
  kept, the middle is dropped and counted.  The state is the struct's fields; every method
  that changes it is a definition.  The refinement relation \<open>ht_refines\<close> says which bytes of
  the whole stream the buffer holds.
\<close>

section \<open>State and operations\<close>

record head_tail_buffer =
  max_bytes :: nat
  head_budget :: nat
  tail_budget :: nat
  head :: "char list list"
  tail :: "char list list"
  head_bytes :: nat
  tail_bytes :: nat
  omitted_bytes :: nat

definition htb_new :: "nat \<Rightarrow> head_tail_buffer" where
  "htb_new m =
    \<lparr> max_bytes = m, head_budget = m div 2, tail_budget = m - m div 2,
      head = [], tail = [], head_bytes = 0, tail_bytes = 0, omitted_bytes = 0 \<rparr>"

definition retained_bytes :: "head_tail_buffer \<Rightarrow> nat" where
  "retained_bytes b = saturating_add (head_bytes b) (tail_bytes b)"

text \<open>The \<open>while excess > 0\<close> loop of \<open>trim_tail_to_budget\<close>; each turn pops a chunk or stops.\<close>

fun trim_loop :: "nat \<Rightarrow> char list list \<Rightarrow> nat \<Rightarrow> nat \<Rightarrow> char list list \<times> nat \<times> nat" where
  "trim_loop excess [] tb om = ([], tb, om)"
| "trim_loop excess (front # rest) tb om =
    (if excess = 0 then (front # rest, tb, om)
     else if length front \<le> excess
     then trim_loop (excess - length front) rest (tb - length front) (saturating_add om (length front))
     else (drop excess front # rest, tb - excess, saturating_add om excess))"

definition trim_tail_to_budget :: "head_tail_buffer \<Rightarrow> head_tail_buffer" where
  "trim_tail_to_budget b =
    (let (tl', tb, om) = trim_loop (tail_bytes b - tail_budget b) (tail b) (tail_bytes b) (omitted_bytes b)
     in b\<lparr>tail := tl', tail_bytes := tb, omitted_bytes := om\<rparr>)"

definition push_to_tail :: "head_tail_buffer \<Rightarrow> char list \<Rightarrow> head_tail_buffer" where
  "push_to_tail b chunk =
    (if tail_budget b = 0
     then b\<lparr>omitted_bytes := saturating_add (omitted_bytes b) (length chunk)\<rparr>
     else if tail_budget b \<le> length chunk
     then (let start = length chunk - tail_budget b;
               kept = drop start chunk;
               dropped = length chunk - length kept
           in b\<lparr>omitted_bytes := saturating_add (saturating_add (omitted_bytes b) (tail_bytes b)) dropped,
                tail := [kept],
                tail_bytes := length kept\<rparr>)
     else trim_tail_to_budget
            (b\<lparr>tail_bytes := saturating_add (tail_bytes b) (length chunk), tail := tail b @ [chunk]\<rparr>))"

definition push_chunk :: "head_tail_buffer \<Rightarrow> char list \<Rightarrow> head_tail_buffer" where
  "push_chunk b chunk =
    (if max_bytes b = 0
     then b\<lparr>omitted_bytes := saturating_add (omitted_bytes b) (length chunk)\<rparr>
     else if head_bytes b < head_budget b
     then (let remaining_head = head_budget b - head_bytes b
           in if length chunk \<le> remaining_head
              then b\<lparr>head_bytes := saturating_add (head_bytes b) (length chunk), head := head b @ [chunk]\<rparr>
              else (let head_part = take remaining_head chunk;
                        tail_part = drop remaining_head chunk;
                        b' = (if head_part \<noteq> []
                              then b\<lparr>head_bytes := saturating_add (head_bytes b) (length head_part),
                                     head := head b @ [head_part]\<rparr>
                              else b)
                    in push_to_tail b' tail_part))
     else push_to_tail b chunk)"

definition snapshot_chunks :: "head_tail_buffer \<Rightarrow> char list list" where
  "snapshot_chunks b = head b @ tail b"

definition to_bytes :: "head_tail_buffer \<Rightarrow> char list" where
  "to_bytes b = concat (head b) @ concat (tail b)"

definition drain_chunks :: "head_tail_buffer \<Rightarrow> char list list \<times> head_tail_buffer" where
  "drain_chunks b =
    (head b @ tail b,
     b\<lparr>head := [], tail := [], head_bytes := 0, tail_bytes := 0, omitted_bytes := 0\<rparr>)"

definition push_chunks :: "head_tail_buffer \<Rightarrow> char list list \<Rightarrow> head_tail_buffer" where
  "push_chunks b cs = foldl push_chunk b cs"

section \<open>What the buffer holds of the stream\<close>

text \<open>
  \<open>last_n n s\<close> is the suffix of length at most \<open>n\<close>.  A buffer with limit \<open>m\<close> that has
  seen the stream \<open>s\<close> holds the first \<open>m div 2\<close> bytes and the last \<open>m - m div 2\<close> bytes
  of what follows them.
\<close>

definition last_n :: "nat \<Rightarrow> 'a list \<Rightarrow> 'a list" where
  "last_n n s = drop (length s - n) s"

definition retained :: "nat \<Rightarrow> char list \<Rightarrow> char list" where
  "retained m s = take (m div 2) s @ last_n (m - m div 2) (drop (m div 2) s)"

definition ht_refines :: "nat \<Rightarrow> nat \<Rightarrow> head_tail_buffer \<Rightarrow> char list \<Rightarrow> bool" where
  "ht_refines h t b s \<longleftrightarrow>
    max_bytes b = h + t \<and> head_budget b = h \<and> tail_budget b = t \<and>
    concat (head b) = take h s \<and>
    concat (tail b) = last_n t (drop h s) \<and>
    head_bytes b = min h (length s) \<and>
    tail_bytes b = min t (length s - h) \<and>
    omitted_bytes b = length s - (h + t)"

lemma length_last_n [simp]: "length (last_n n s) = min n (length s)"
  by (simp add: last_n_def)

lemma last_n_all: "length s \<le> n \<Longrightarrow> last_n n s = s"
  by (simp add: last_n_def)

lemma last_n_append_long: "n \<le> length t \<Longrightarrow> last_n n (s @ t) = drop (length t - n) t"
  by (simp add: last_n_def)

lemma last_n_0 [simp]: "last_n 0 s = []"
  by (simp add: last_n_def)

lemma last_n_last_n_append: "last_n n (last_n n s @ t) = last_n n (s @ t)"
  by (cases "n \<le> length t"; cases "length s \<le> n") (auto simp: last_n_def add.commute)

lemma trim_loop_spec:
  assumes "excess \<le> length (concat chunks)" "length (concat chunks) \<le> tb" "om + excess \<le> usize_max"
    and "trim_loop excess chunks tb om = (tl', tb', om')"
  shows "concat tl' = drop excess (concat chunks) \<and> tb' = tb - excess \<and> om' = om + excess"
  using assms
proof (induction excess chunks tb om arbitrary: tl' tb' om' rule: trim_loop.induct)
  case (1 excess tb om)
  then show ?case by simp
next
  case (2 excess front rest tb om)
  show ?case
  proof (cases "excess = 0 \<or> \<not> length front \<le> excess")
    case True
    with "2.prems" show ?thesis by (auto split: if_splits)
  next
    case False
    with "2.prems" have
      "concat tl' = drop (excess - length front) (concat rest) \<and>
       tb' = tb - length front - (excess - length front) \<and>
       om' = om + length front + (excess - length front)"
      using "2.IH" [of tl' tb' om'] by simp
    with False show ?thesis by simp
  qed
qed

lemma trim_tail_to_budget_spec:
  assumes "tail_bytes b = length (concat (tail b))"
    and "omitted_bytes b + (tail_bytes b - tail_budget b) \<le> usize_max"
  shows "\<exists>tl'. concat tl' = last_n (tail_budget b) (concat (tail b)) \<and>
    trim_tail_to_budget b =
      b\<lparr>tail := tl', tail_bytes := min (tail_bytes b) (tail_budget b),
        omitted_bytes := omitted_bytes b + (tail_bytes b - tail_budget b)\<rparr>"
proof -
  obtain tl' tb om where eq:
    "trim_loop (tail_bytes b - tail_budget b) (tail b) (tail_bytes b) (omitted_bytes b) = (tl', tb, om)"
    by (metis prod_cases3)
  have "concat tl' = drop (tail_bytes b - tail_budget b) (concat (tail b)) \<and>
      tb = tail_bytes b - (tail_bytes b - tail_budget b) \<and>
      om = omitted_bytes b + (tail_bytes b - tail_budget b)"
    using assms by (intro trim_loop_spec [OF _ _ _ eq]) simp_all
  with eq assms(1) show ?thesis
    by (auto simp: trim_tail_to_budget_def last_n_def min_def intro!: exI [of _ tl'])
qed

text \<open>
  A full head: \<open>push_to_tail\<close> slides the tail over the rest of the stream.
\<close>

lemma push_to_tail_refines:
  assumes "ht_refines h t b s" "h \<le> length s" "length (s @ c) \<le> usize_max"
  shows "ht_refines h t (push_to_tail b c) (s @ c)"
proof -
  note R = assms(1) [unfolded ht_refines_def]
  have eqs: "take h (s @ c) = take h s" "drop h (s @ c) = drop h s @ c"
    using assms(2) by simp_all
  consider (zero) "t = 0" | (big) "t \<noteq> 0" "t \<le> length c" | (small) "t \<noteq> 0" "length c < t"
    by linarith
  then show ?thesis
  proof cases
    case zero
    with R assms eqs show ?thesis
      by (simp add: ht_refines_def push_to_tail_def del: concat_eq_Nil_conv)
  next
    case big
    then have "last_n t (drop h s @ c) = drop (length c - t) c"
      by (rule_tac last_n_append_long)
    moreover have "saturating_add (saturating_add (length s - (h + t)) (min t (length s - h))) (length c - t) =
        length s + length c - (h + t)"
      using big assms(2,3) by (simp add: min_def)
    ultimately show ?thesis
      using big R assms(2) eqs by (simp add: ht_refines_def push_to_tail_def Let_def)
  next
    case small
    let ?b = "b\<lparr>tail_bytes := tail_bytes b + length c, tail := tail b @ [c]\<rparr>"
    have len: "length (concat (tail b)) = tail_bytes b"
      using R by simp
    then have "tail_bytes ?b = length (concat (tail ?b))" by simp
    moreover have "omitted_bytes ?b + (tail_bytes ?b - tail_budget ?b) \<le> usize_max"
      using R assms(2,3) by (simp add: min_def split: if_splits)
    ultimately obtain tl' where
      c: "concat tl' = last_n t (concat (tail b) @ c)" and
      e: "trim_tail_to_budget ?b =
        ?b\<lparr>tail := tl', tail_bytes := min (tail_bytes ?b) t,
          omitted_bytes := omitted_bytes ?b + (tail_bytes ?b - t)\<rparr>"
      using trim_tail_to_budget_spec [of ?b] R by auto
    have "concat tl' = last_n t (drop h s @ c)"
      using c R by (simp add: last_n_last_n_append)
    moreover have "push_to_tail b c = trim_tail_to_budget ?b"
      using small R assms(3) by (simp add: push_to_tail_def)
    ultimately show ?thesis
      using e R assms(2) eqs by (simp add: ht_refines_def min_def) linarith
  qed
qed

lemma push_chunk_refines:
  assumes "ht_refines h t b s" "length (s @ c) \<le> usize_max"
  shows "ht_refines h t (push_chunk b c) (s @ c)"
proof -
  note R = assms(1) [unfolded ht_refines_def]
  consider (none) "h + t = 0" | (full) "h + t \<noteq> 0" "h \<le> length s"
    | (fits) "h + t \<noteq> 0" "length s < h" "length (s @ c) \<le> h"
    | (split) "h + t \<noteq> 0" "length s < h" "h < length (s @ c)"
    by linarith
  then show ?thesis
  proof cases
    case none
    with R assms(2) show ?thesis
      by (simp add: ht_refines_def push_chunk_def del: concat_eq_Nil_conv)
  next
    case full
    then have "push_chunk b c = push_to_tail b c"
      using R by (auto simp: push_chunk_def)
    with push_to_tail_refines [OF assms(1) full(2) assms(2)] show ?thesis by simp
  next
    case fits
    then have "length c \<le> h - length s" by simp
    with fits R assms(2) show ?thesis
      by (simp add: ht_refines_def push_chunk_def)
  next
    case split
    let ?r = "h - length s"
    let ?b = "b\<lparr>head_bytes := h, head := head b @ [take ?r c]\<rparr>"
    have "head_bytes b = length s" "length s + length (take ?r c) = h" "take ?r c \<noteq> []"
      using split R by auto
    then have "push_chunk b c = push_to_tail ?b (drop ?r c)"
      using split R assms(2) by (simp add: push_chunk_def Let_def)
    moreover have "ht_refines h t ?b (s @ take ?r c)"
      using split R by (simp add: ht_refines_def)
    then have "ht_refines h t (push_to_tail ?b (drop ?r c)) ((s @ take ?r c) @ drop ?r c)"
      using split assms(2) by (intro push_to_tail_refines) simp_all
    ultimately show ?thesis by simp
  qed
qed

lemma htb_new_refines: "ht_refines (m div 2) (m - m div 2) (htb_new m) []"
  by (simp add: ht_refines_def htb_new_def last_n_def)

lemma push_chunks_refines:
  "ht_refines h t b s \<Longrightarrow> length (s @ concat cs) \<le> usize_max \<Longrightarrow> ht_refines h t (push_chunks b cs) (s @ concat cs)"
proof (induction cs arbitrary: b s)
  case Nil
  then show ?case by (simp add: push_chunks_def)
next
  case (Cons c cs)
  from Cons.prems have "ht_refines h t (push_chunk b c) (s @ c)"
    by (intro push_chunk_refines) simp_all
  with Cons.prems have "ht_refines h t (push_chunks (push_chunk b c) cs) ((s @ c) @ concat cs)"
    by (intro Cons.IH) simp_all
  then show ?case by (simp add: push_chunks_def)
qed

lemma drain_chunks_refines:
  "ht_refines h t b s \<Longrightarrow> drain_chunks b = (out, b') \<Longrightarrow> concat out = to_bytes b \<and> ht_refines h t b' []"
  by (auto simp: drain_chunks_def to_bytes_def ht_refines_def last_n_def)

section \<open>Properties\<close>

text \<open>C20: A buffer with limit \<open>m\<close> that is fed any chunks holds exactly the first \<open>m div 2\<close> bytes of
  the concatenated output and the last \<open>m - m div 2\<close> bytes of the remainder, however the
  output was cut into chunks, and counts exactly the bytes it dropped.\<close>

theorem head_tail_buffer_functional:
  assumes "length (concat cs) \<le> usize_max"
  shows "to_bytes (push_chunks (htb_new m) cs) = retained m (concat cs) \<and>
    omitted_bytes (push_chunks (htb_new m) cs) =
      length (concat cs) - length (to_bytes (push_chunks (htb_new m) cs)) \<and>
    retained_bytes (push_chunks (htb_new m) cs) = length (to_bytes (push_chunks (htb_new m) cs)) \<and>
    length (to_bytes (push_chunks (htb_new m) cs)) \<le> m"
proof -
  let ?b = "push_chunks (htb_new m) cs"
  have R: "ht_refines (m div 2) (m - m div 2) ?b (concat cs)"
    using push_chunks_refines [OF htb_new_refines, of cs m] assms by simp
  then have eq: "to_bytes ?b = retained m (concat cs)"
    by (simp add: ht_refines_def to_bytes_def retained_def)
  moreover have len: "length (retained m (concat cs)) = min m (length (concat cs))"
    by (simp add: retained_def)
  moreover have "omitted_bytes ?b = length (concat cs) - m"
    using R by (simp add: ht_refines_def)
  moreover have "retained_bytes ?b = min m (length (concat cs))"
    using R assms by (simp add: ht_refines_def retained_bytes_def saturating_add_def)
  ultimately show ?thesis by simp
qed

theorem head_tail_buffer_functional_witness:
  "length (concat [''abc'', ''de'', ''fghij'']) \<le> usize_max \<and>
   to_bytes (push_chunks (htb_new 5) [''abc'', ''de'', ''fghij'']) = ''abhij''"
proof -
  have h: "length (concat [''abc'', ''de'', ''fghij'']) \<le> usize_max"
    by (simp add: usize_max_def)
  have "retained 5 (concat [''abc'', ''de'', ''fghij'']) = ''abhij''"
    by (simp add: retained_def last_n_def)
  with h head_tail_buffer_functional [OF h, of 5] show ?thesis by simp
qed

end
