(* ===== verification/Rust_Str.thy ===== *)
theory Rust_Str
  imports Prelude
begin

text \<open>
  Rust's \<open>str\<close> as the list of its UTF-8 bytes (HOL's \<open>char\<close> is a byte), so \<open>length\<close> is
  \<open>str::len\<close>, indices are byte indices, and searching for an ASCII pattern on the bytes is
  searching for it on the text.  Only whitespace trimming looks at code points beyond
  ASCII; it is written out on the byte sequences of Unicode's \<open>White_Space\<close> characters.
\<close>

section \<open>Prefixes, suffixes and search\<close>

fun strip_prefix :: "string \<Rightarrow> string \<Rightarrow> string option" where
  "strip_prefix [] s = Some s"
| "strip_prefix (p # ps) [] = None"
| "strip_prefix (p # ps) (c # cs) = (if p = c then strip_prefix ps cs else None)"

definition starts_with :: "string \<Rightarrow> string \<Rightarrow> bool" where
  "starts_with p s \<longleftrightarrow> take (length p) s = p"

definition ends_with :: "string \<Rightarrow> string \<Rightarrow> bool" where
  "ends_with p s \<longleftrightarrow> length p \<le> length s \<and> drop (length s - length p) s = p"

definition strip_suffix :: "string \<Rightarrow> string \<Rightarrow> string option" where
  "strip_suffix p s = (if ends_with p s then Some (take (length s - length p) s) else None)"

text \<open>\<open>str::find\<close>: the byte index of the first occurrence of a pattern.\<close>

fun find_sub :: "string \<Rightarrow> string \<Rightarrow> nat option" where
  "find_sub p [] = (if p = [] then Some 0 else None)"
| "find_sub p (c # cs) =
    (if starts_with p (c # cs) then Some 0 else map_option Suc (find_sub p cs))"

definition contains :: "string \<Rightarrow> string \<Rightarrow> bool" where
  "contains p s \<longleftrightarrow> find_sub p s \<noteq> None"

lemma strip_prefix_append [simp]: "strip_prefix p (p @ s) = Some s"
  by (induction p) auto

lemma strip_prefix_Some_iff: "strip_prefix p s = Some r \<longleftrightarrow> s = p @ r"
  by (induction p s rule: strip_prefix.induct) auto

lemma starts_with_iff_prefix: "starts_with p s \<longleftrightarrow> (\<exists>r. s = p @ r)"
  by (metis append_eq_conv_conj append_take_drop_id starts_with_def)

lemma starts_with_Nil [simp]: "starts_with [] s"
  by (simp add: starts_with_def)

lemma starts_with_append [simp]: "starts_with p (p @ s)"
  by (simp add: starts_with_def)

lemma starts_with_Cons [simp]:
  "starts_with (p # ps) [] \<longleftrightarrow> False"
  "starts_with (p # ps) (c # cs) \<longleftrightarrow> p = c \<and> starts_with ps cs"
  by (auto simp: starts_with_def)

lemma strip_prefix_None_iff: "strip_prefix p s = None \<longleftrightarrow> \<not> starts_with p s"
  by (induction p s rule: strip_prefix.induct) auto

lemma ends_with_iff_suffix: "ends_with p s \<longleftrightarrow> (\<exists>r. s = r @ p)"
  by (auto simp: ends_with_def) (metis append_take_drop_id)

lemma find_sub_Some_iff:
  "find_sub p s = Some i \<longleftrightarrow>
    i \<le> length s \<and> starts_with p (drop i s) \<and> (\<forall>j<i. \<not> starts_with p (drop j s))"
proof (induction s arbitrary: i)
  case Nil
  then show ?case by (cases p) auto
next
  case (Cons c cs)
  show ?case
    by (cases i) (auto simp: Cons.IH less_Suc_eq_0_disj)
qed

lemma all_le_Suc2: "(\<forall>j\<le>Suc n. P j) \<longleftrightarrow> P 0 \<and> (\<forall>j\<le>n. P (Suc j))"
  using All_less_Suc2 [of "Suc n" P] by (simp add: less_Suc_eq_le)

lemma find_sub_None_iff: "find_sub p s = None \<longleftrightarrow> (\<forall>j\<le>length s. \<not> starts_with p (drop j s))"
proof (induction s)
  case Nil
  then show ?case by (cases p) auto
next
  case (Cons c cs)
  show ?case
    by (simp add: Cons.IH all_le_Suc2)
qed

lemma contains_iff: "contains p s \<longleftrightarrow> (\<exists>a b. s = a @ p @ b)"
proof
  assume "contains p s"
  then obtain i where "find_sub p s = Some i" by (auto simp: contains_def)
  then obtain r where "drop i s = p @ r"
    by (auto simp: find_sub_Some_iff starts_with_iff_prefix)
  then have "s = take i s @ p @ r" by (metis append_take_drop_id)
  then show "\<exists>a b. s = a @ p @ b" by blast
next
  assume "\<exists>a b. s = a @ p @ b"
  then obtain a b where s: "s = a @ p @ b" by blast
  then have "starts_with p (drop (length a) s)" "length a \<le> length s" by auto
  then show "contains p s" by (auto simp: contains_def find_sub_None_iff)
qed

section \<open>Splitting and joining\<close>

fun split_char :: "char \<Rightarrow> string \<Rightarrow> string list" where
  "split_char d [] = [[]]"
| "split_char d (c # cs) =
    (if c = d then [] # split_char d cs
     else (case split_char d cs of [] \<Rightarrow> [[c]] | l # ls \<Rightarrow> (c # l) # ls))"

abbreviation LF :: char where
  "LF \<equiv> CHR 0x0A"

abbreviation CR :: char where
  "CR \<equiv> CHR 0x0D"

definition strip_cr :: "string \<Rightarrow> string" where
  "strip_cr l = (case strip_suffix [CR] l of Some r \<Rightarrow> r | None \<Rightarrow> l)"

text \<open>
  \<open>str::lines\<close>: a line ends at LF, the LF and one CR before it are dropped; a final piece
  without LF is a line unless it is empty, and keeps its bytes.
\<close>

definition str_lines :: "string \<Rightarrow> string list" where
  "str_lines s =
    (let ps = split_char LF s
     in map strip_cr (butlast ps) @ (if last ps = [] then [] else [last ps]))"

fun join_with :: "string \<Rightarrow> string list \<Rightarrow> string" where
  "join_with sep [] = []"
| "join_with sep [l] = l"
| "join_with sep (l # ls) = l @ sep @ join_with sep ls"

lemma split_char_ne [simp]: "split_char d s \<noteq> []"
  by (cases s) (auto split: list.splits)

lemma split_char_no [simp]: "d \<notin> set l \<Longrightarrow> split_char d l = [l]"
  by (induction l) auto

lemma split_char_append:
  "d \<notin> set l \<Longrightarrow> split_char d (l @ d # s) = l # split_char d s"
  by (induction l) auto

lemma split_char_pieces: "l \<in> set (split_char d s) \<Longrightarrow> d \<notin> set l"
  by (induction s arbitrary: l) (auto split: list.splits if_splits)

lemma join_with_Cons: "ls \<noteq> [] \<Longrightarrow> join_with sep (l # ls) = l @ sep @ join_with sep ls"
  by (cases ls) auto

lemma split_char_join:
  "ls \<noteq> [] \<Longrightarrow> \<forall>l\<in>set ls. d \<notin> set l \<Longrightarrow> split_char d (join_with [d] ls) = ls"
  by (induction "[d]" ls rule: join_with.induct) (auto simp: split_char_append)

lemma join_with_Cons_Cons: "join_with sep ((c # l) # ls) = c # join_with sep (l # ls)"
  by (cases ls) simp_all

lemma join_split_char: "join_with [d] (split_char d s) = s"
proof (induction s)
  case Nil
  then show ?case by simp
next
  case (Cons c cs)
  then show ?case
    by (cases "split_char d cs") (simp_all add: join_with_Cons join_with_Cons_Cons)
qed

section \<open>Whitespace\<close>

definition ascii_ws :: "char \<Rightarrow> bool" where
  "ascii_ws c \<longleftrightarrow> c \<in> set [CHR 0x09, CHR 0x0A, CHR 0x0B, CHR 0x0C, CHR 0x0D, CHR 0x20]"

text \<open>U+0085 and U+00A0.\<close>

definition ws2 :: "char \<Rightarrow> char \<Rightarrow> bool" where
  "ws2 a b \<longleftrightarrow> a = CHR 0xC2 \<and> b \<in> set [CHR 0x85, CHR 0xA0]"

text \<open>U+1680, U+2000 to U+200A, U+2028, U+2029, U+202F, U+205F and U+3000.\<close>

definition ws3 :: "char \<Rightarrow> char \<Rightarrow> char \<Rightarrow> bool" where
  "ws3 a b c \<longleftrightarrow>
    (a = CHR 0xE1 \<and> b = CHR 0x9A \<and> c = CHR 0x80) \<or>
    (a = CHR 0xE2 \<and> b = CHR 0x80 \<and>
      c \<in> set [CHR 0x80, CHR 0x81, CHR 0x82, CHR 0x83, CHR 0x84, CHR 0x85, CHR 0x86, CHR 0x87,
               CHR 0x88, CHR 0x89, CHR 0x8A, CHR 0xA8, CHR 0xA9, CHR 0xAF]) \<or>
    (a = CHR 0xE2 \<and> b = CHR 0x81 \<and> c = CHR 0x9F) \<or>
    (a = CHR 0xE3 \<and> b = CHR 0x80 \<and> c = CHR 0x80)"

fun strip_ws :: "(char \<Rightarrow> char \<Rightarrow> bool) \<Rightarrow> (char \<Rightarrow> char \<Rightarrow> char \<Rightarrow> bool) \<Rightarrow> string \<Rightarrow> string" where
  "strip_ws w2 w3 (a # b # c # r) =
    (if ascii_ws a then strip_ws w2 w3 (b # c # r)
     else if w2 a b then strip_ws w2 w3 (c # r)
     else if w3 a b c then strip_ws w2 w3 r
     else a # b # c # r)"
| "strip_ws w2 w3 [a, b] =
    (if ascii_ws a then strip_ws w2 w3 [b] else if w2 a b then [] else [a, b])"
| "strip_ws w2 w3 [a] = (if ascii_ws a then [] else [a])"
| "strip_ws w2 w3 [] = []"

definition trim_start :: "string \<Rightarrow> string" where
  "trim_start s = strip_ws ws2 ws3 s"

definition trim_end :: "string \<Rightarrow> string" where
  "trim_end s = rev (strip_ws (\<lambda>a b. ws2 b a) (\<lambda>a b c. ws3 c b a) (rev s))"

definition trim :: "string \<Rightarrow> string" where
  "trim s = trim_start (trim_end s)"

text \<open>The bytes below 128 are the ASCII characters.\<close>

definition is_ascii :: "char \<Rightarrow> bool" where
  "is_ascii c \<longleftrightarrow> (of_char c :: nat) < 128"

lemma strip_ws_idem: "strip_ws w2 w3 (strip_ws w2 w3 s) = strip_ws w2 w3 s"
  by (induction w2 w3 s rule: strip_ws.induct) auto

lemma strip_ws_suffix: "suffix (strip_ws w2 w3 s) s"
  by (induction w2 w3 s rule: strip_ws.induct) (auto intro: suffix_ConsI)

lemma trim_end_idem [simp]: "trim_end (trim_end s) = trim_end s"
  by (simp add: trim_end_def strip_ws_idem)

lemma trim_start_idem [simp]: "trim_start (trim_start s) = trim_start s"
  by (simp add: trim_start_def strip_ws_idem)

lemma trim_start_suffix: "suffix (trim_start s) s"
  by (simp add: trim_start_def strip_ws_suffix)

lemma trim_end_prefix: "prefix (trim_end s) s"
  using strip_ws_suffix [of "\<lambda>a b. ws2 b a" "\<lambda>a b c. ws3 c b a" "rev s"]
  by (simp add: trim_end_def suffix_to_prefix)

lemma trim_Nil [simp]: "trim_start [] = []" "trim_end [] = []" "trim [] = []"
  by (simp_all add: trim_start_def trim_end_def trim_def)

lemma not_ascii_ws_bytes: "ws2 a b \<Longrightarrow> \<not> is_ascii a \<and> \<not> is_ascii b"
  "ws3 a b c \<Longrightarrow> \<not> is_ascii a \<and> \<not> is_ascii b \<and> \<not> is_ascii c"
  by (auto simp: ws2_def ws3_def is_ascii_def)

lemma strip_ws_plain:
  assumes "\<not> ascii_ws a" "\<And>b. \<not> w2 a b" "\<And>b c. \<not> w3 a b c"
  shows "strip_ws w2 w3 (a # s) = a # s"
  using assms by (cases s; cases "tl s") auto

lemma trim_start_plain: "is_ascii a \<Longrightarrow> \<not> ascii_ws a \<Longrightarrow> trim_start (a # s) = a # s"
  unfolding trim_start_def by (rule strip_ws_plain) (auto dest: not_ascii_ws_bytes)

lemma trim_end_plain: "is_ascii a \<Longrightarrow> \<not> ascii_ws a \<Longrightarrow> trim_end (s @ [a]) = s @ [a]"
  unfolding trim_end_def
  by (simp, subst strip_ws_plain) (auto dest: not_ascii_ws_bytes)

text \<open>Trimming a concatenation: no whitespace character straddles the cut.\<close>

lemma strip_ws_append:
  assumes "y \<noteq> [] \<Longrightarrow> x \<noteq> [] \<Longrightarrow>
    \<not> w2 (last x) (hd y) \<and> (\<forall>c. \<not> w3 (last x) (hd y) c) \<and> (\<forall>a. \<not> w3 a (last x) (hd y))"
  shows "strip_ws w2 w3 (x @ y) = (if strip_ws w2 w3 x = [] then strip_ws w2 w3 y else strip_ws w2 w3 x @ y)"
  using assms
proof (induction w2 w3 x rule: strip_ws.induct)
  case (1 w2 w3 a b c r)
  then show ?case by (cases "r = []") auto
next
  case (2 w2 w3 a b)
  then show ?case by (cases y) auto
next
  case (3 w2 w3 a)
  then show ?case by (cases y; cases "tl y") auto
qed simp

section \<open>Characters\<close>

definition is_ascii_digit :: "char \<Rightarrow> bool" where
  "is_ascii_digit c \<longleftrightarrow> 48 \<le> (of_char c :: nat) \<and> (of_char c :: nat) \<le> 57"

definition to_ascii_lowercase_char :: "char \<Rightarrow> char" where
  "to_ascii_lowercase_char c =
    (if 65 \<le> (of_char c :: nat) \<and> (of_char c :: nat) \<le> 90 then char_of ((of_char c :: nat) + 32) else c)"

definition to_ascii_lowercase :: "string \<Rightarrow> string" where
  "to_ascii_lowercase s = map to_ascii_lowercase_char s"

definition eq_ignore_ascii_case :: "string \<Rightarrow> string \<Rightarrow> bool" where
  "eq_ignore_ascii_case a b \<longleftrightarrow> to_ascii_lowercase a = to_ascii_lowercase b"

lemma set_trim: "set (trim s) \<subseteq> set s"
  using set_mono_prefix [OF trim_end_prefix] set_mono_suffix [OF trim_start_suffix]
  by (auto simp: trim_def)

lemma contains_single: "contains [c] s \<longleftrightarrow> c \<in> set s"
  by (auto simp: contains_iff in_set_conv_decomp)

lemma to_ascii_lowercase_char_range:
  "to_ascii_lowercase_char c = c \<or> (97 \<le> (of_char (to_ascii_lowercase_char c) :: nat) \<and>
    of_char (to_ascii_lowercase_char c) \<le> (122 :: nat))"
  by (auto simp: to_ascii_lowercase_char_def)

lemma to_ascii_lowercase_char_idem [simp]:
  "to_ascii_lowercase_char (to_ascii_lowercase_char c) = to_ascii_lowercase_char c"
  by (auto simp: to_ascii_lowercase_char_def)

lemma to_ascii_lowercase_idem [simp]: "to_ascii_lowercase (to_ascii_lowercase s) = to_ascii_lowercase s"
  by (simp add: to_ascii_lowercase_def)

lemma set_to_ascii_lowercase:
  assumes "c \<in> set (to_ascii_lowercase s)" "\<not> (97 \<le> (of_char c :: nat) \<and> of_char c \<le> (122 :: nat))"
  shows "c \<in> set s"
proof -
  obtain d where "d \<in> set s" "c = to_ascii_lowercase_char d"
    using assms(1) by (auto simp: to_ascii_lowercase_def)
  with assms(2) to_ascii_lowercase_char_range [of d] show ?thesis by auto
qed

section \<open>Decimal numbers\<close>

definition digit_char :: "nat \<Rightarrow> char" where
  "digit_char d = char_of (48 + d)"

fun show_nat :: "nat \<Rightarrow> string" where
  "show_nat n = (if n < 10 then [digit_char n] else show_nat (n div 10) @ [digit_char (n mod 10)])"

declare show_nat.simps [simp del]

section \<open>Splitting at one character\<close>

text \<open>\<open>split_once\<close> and \<open>rsplit_once\<close> on one character, \<open>trim_end_matches\<close>, and white space anywhere.\<close>

definition split_once :: "char \<Rightarrow> string \<Rightarrow> (string \<times> string) option" where
  "split_once c s =
    (if c \<in> set s then Some (takeWhile (\<lambda>x. x \<noteq> c) s, tl (dropWhile (\<lambda>x. x \<noteq> c) s)) else None)"

definition rsplit_once :: "char \<Rightarrow> string \<Rightarrow> (string \<times> string) option" where
  "rsplit_once c s = map_option (\<lambda>(b, a). (rev a, rev b)) (split_once c (rev s))"

definition trim_end_matches :: "char \<Rightarrow> string \<Rightarrow> string" where
  "trim_end_matches c s = rev (dropWhile (\<lambda>x. x = c) (rev s))"

fun has_whitespace :: "string \<Rightarrow> bool" where
  "has_whitespace (a # b # c # r) \<longleftrightarrow> ascii_ws a \<or> ws2 a b \<or> ws3 a b c \<or> has_whitespace (b # c # r)"
| "has_whitespace [a, b] \<longleftrightarrow> ascii_ws a \<or> ws2 a b \<or> ascii_ws b"
| "has_whitespace [a] \<longleftrightarrow> ascii_ws a"
| "has_whitespace [] \<longleftrightarrow> False"

lemma split_once_Some: "split_once c s = Some (a, b) \<Longrightarrow> s = a @ c # b \<and> c \<notin> set a"
proof -
  assume *: "split_once c s = Some (a, b)"
  then have "c \<in> set s" by (auto simp: split_once_def split: if_splits)
  then have "dropWhile (\<lambda>x. x \<noteq> c) s \<noteq> []" by (auto simp: dropWhile_eq_Nil_conv)
  then have "dropWhile (\<lambda>x. x \<noteq> c) s = c # tl (dropWhile (\<lambda>x. x \<noteq> c) s)"
    using hd_dropWhile [of "\<lambda>x. x \<noteq> c" s] by (metis list.collapse)
  with * \<open>c \<in> set s\<close> takeWhile_dropWhile_id [of "\<lambda>x. x \<noteq> c" s] show ?thesis
    by (auto simp: split_once_def dest: set_takeWhileD)
qed

lemma split_once_set: "split_once c s = Some (a, b) \<Longrightarrow> set a \<subseteq> set s \<and> set b \<subseteq> set s"
  by (auto dest: split_once_Some)

lemma rsplit_once_Some: "rsplit_once c s = Some (a, b) \<Longrightarrow> s = a @ c # b \<and> c \<notin> set b"
proof -
  assume "rsplit_once c s = Some (a, b)"
  then have "split_once c (rev s) = Some (rev b, rev a)" by (auto simp: rsplit_once_def)
  from split_once_Some [OF this] have "rev (rev s) = rev (rev b @ c # rev a)" "c \<notin> set b" by simp_all
  then show ?thesis by simp
qed

lemma rsplit_once_set: "rsplit_once c s = Some (a, b) \<Longrightarrow> set a \<subseteq> set s \<and> set b \<subseteq> set s"
  by (auto dest: rsplit_once_Some)

lemma set_trim_end_matches: "set (trim_end_matches c s) \<subseteq> set s"
  by (auto simp: trim_end_matches_def dest: set_dropWhileD)

end
