(* ===== verification/Patch_Parser.thy ===== *)
theory Patch_Parser
  imports Rust_Str
begin

text \<open>
  The \<open>apply_patch\<close> format (apply-patch/src/parser.rs): hunks and chunks as the source's
  types, and the batch parser function by function.  A \<open>PathBuf\<close> is its string.  The loops
  over the remaining lines are recursive functions whose termination rests on the fact that
  a parsed chunk or hunk consumes at least one line.
\<close>

section \<open>Data\<close>

definition BEGIN_PATCH_MARKER :: string where
  "BEGIN_PATCH_MARKER = ''*** Begin Patch''"

definition END_PATCH_MARKER :: string where
  "END_PATCH_MARKER = ''*** End Patch''"

definition ADD_FILE_MARKER :: string where
  "ADD_FILE_MARKER = ''*** Add File: ''"

definition DELETE_FILE_MARKER :: string where
  "DELETE_FILE_MARKER = ''*** Delete File: ''"

definition UPDATE_FILE_MARKER :: string where
  "UPDATE_FILE_MARKER = ''*** Update File: ''"

definition MOVE_TO_MARKER :: string where
  "MOVE_TO_MARKER = ''*** Move to: ''"

definition EOF_MARKER :: string where
  "EOF_MARKER = ''*** End of File''"

definition CHANGE_CONTEXT_MARKER :: string where
  "CHANGE_CONTEXT_MARKER = ''@@ ''"

definition EMPTY_CHANGE_CONTEXT_MARKER :: string where
  "EMPTY_CHANGE_CONTEXT_MARKER = ''@@''"

lemmas marker_defs =
  BEGIN_PATCH_MARKER_def END_PATCH_MARKER_def ADD_FILE_MARKER_def DELETE_FILE_MARKER_def
  UPDATE_FILE_MARKER_def MOVE_TO_MARKER_def EOF_MARKER_def CHANGE_CONTEXT_MARKER_def
  EMPTY_CHANGE_CONTEXT_MARKER_def

datatype ParseError =
    InvalidPatchError string
  | InvalidHunkError string nat

record UpdateFileChunk =
  change_context :: "string option"
  old_lines :: "string list"
  new_lines :: "string list"
  is_end_of_file :: bool

datatype Hunk =
    AddFile string string
  | DeleteFile string
  | UpdateFile string "string option" "UpdateFileChunk list"

record ApplyPatchArgs =
  args_patch :: string
  args_hunks :: "Hunk list"
  args_workdir :: "string option"

datatype ParseMode = Strict | Lenient

text \<open>\<open>Hunk::path\<close>: the path a hunk affects, the destination for a rename.\<close>

fun hunk_path :: "Hunk \<Rightarrow> string" where
  "hunk_path (AddFile p c) = p"
| "hunk_path (DeleteFile p) = p"
| "hunk_path (UpdateFile p (Some d) cs) = d"
| "hunk_path (UpdateFile p None cs) = p"

section \<open>Messages\<close>

definition msg_first_line :: string where
  "msg_first_line = ''The first line of the patch must be '' @ [CHR 0x27] @ ''*** Begin Patch'' @ [CHR 0x27]"

definition msg_last_line :: string where
  "msg_last_line = ''The last line of the patch must be '' @ [CHR 0x27] @ ''*** End Patch'' @ [CHR 0x27]"

definition msg_no_lines :: string where
  "msg_no_lines = ''Update hunk does not contain any lines''"

definition quoted :: "string \<Rightarrow> string" where
  "quoted s = [CHR 0x27] @ s @ [CHR 0x27]"

definition msg_bad_header :: "string \<Rightarrow> string" where
  "msg_bad_header l =
    quoted l @ '' is not a valid hunk header. Valid hunk headers: '' @
    quoted ''*** Add File: {path}'' @ '', '' @ quoted ''*** Delete File: {path}'' @ '', '' @
    quoted ''*** Update File: {path}''"

definition msg_empty_update :: "string \<Rightarrow> string" where
  "msg_empty_update p = ''Update file hunk for path '' @ quoted p @ '' is empty''"

definition msg_expected_context :: "string \<Rightarrow> string" where
  "msg_expected_context l = ''Expected update hunk to start with a @@ context marker, got: '' @ quoted l"

definition msg_unexpected_line :: "string \<Rightarrow> string" where
  "msg_unexpected_line l =
    ''Unexpected line found in update hunk: '' @ quoted l @ ''. Every line should start with '' @
    quoted '' '' @ '' (context line), '' @ quoted ''+'' @ '' (added line), or '' @ quoted ''-'' @
    '' (removed line)''"

section \<open>Chunks\<close>

text \<open>The \<open>for line in &lines[start_index..]\<close> loop; \<open>n\<close> is \<open>parsed_lines\<close>.\<close>

fun chunk_loop :: "nat \<Rightarrow> string list \<Rightarrow> UpdateFileChunk \<Rightarrow> nat \<Rightarrow> (ParseError, UpdateFileChunk \<times> nat) result" where
  "chunk_loop line_number [] ch n = Ok (ch, n)"
| "chunk_loop line_number (l # ls) ch n =
    (if l = EOF_MARKER
     then (if n = 0 then Err (InvalidHunkError msg_no_lines (line_number + 1))
           else Ok (ch\<lparr>is_end_of_file := True\<rparr>, n + 1))
     else (case l of
        [] \<Rightarrow> chunk_loop line_number ls
                (ch\<lparr>old_lines := old_lines ch @ [[]], new_lines := new_lines ch @ [[]]\<rparr>) (n + 1)
      | c # r \<Rightarrow>
          if c = CHR '' '' then chunk_loop line_number ls
            (ch\<lparr>old_lines := old_lines ch @ [r], new_lines := new_lines ch @ [r]\<rparr>) (n + 1)
          else if c = CHR ''+'' then chunk_loop line_number ls (ch\<lparr>new_lines := new_lines ch @ [r]\<rparr>) (n + 1)
          else if c = CHR ''-'' then chunk_loop line_number ls (ch\<lparr>old_lines := old_lines ch @ [r]\<rparr>) (n + 1)
          else if n = 0 then Err (InvalidHunkError (msg_unexpected_line l) (line_number + 1))
          else Ok (ch, n)))"

definition empty_chunk :: "string option \<Rightarrow> UpdateFileChunk" where
  "empty_chunk ctx = \<lparr>change_context = ctx, old_lines = [], new_lines = [], is_end_of_file = False\<rparr>"

definition parse_update_file_chunk ::
  "string list \<Rightarrow> nat \<Rightarrow> bool \<Rightarrow> (ParseError, UpdateFileChunk \<times> nat) result" where
  "parse_update_file_chunk lines line_number allow_missing_context =
    (case lines of
       [] \<Rightarrow> Err (InvalidHunkError msg_no_lines line_number)
     | first # _ \<Rightarrow>
        (case (if first = EMPTY_CHANGE_CONTEXT_MARKER then Ok (None, 1)
               else (case strip_prefix CHANGE_CONTEXT_MARKER first of
                  Some ctx \<Rightarrow> Ok (Some ctx, 1)
                | None \<Rightarrow>
                    if \<not> allow_missing_context
                    then Err (InvalidHunkError (msg_expected_context first) line_number)
                    else Ok (None, 0))) of
           Err e \<Rightarrow> Err e
         | Ok (ctx, start_index) \<Rightarrow>
             if length lines \<le> start_index
             then Err (InvalidHunkError msg_no_lines (line_number + 1))
             else (case chunk_loop line_number (drop start_index lines) (empty_chunk ctx) 0 of
                Err e \<Rightarrow> Err e
              | Ok (ch, parsed_lines) \<Rightarrow> Ok (ch, parsed_lines + start_index))))"

lemma chunk_loop_bounds:
  "chunk_loop ln ls ch n = Ok (ch', k) \<Longrightarrow> n \<le> k \<and> k \<le> n + length ls \<and> (ls \<noteq> [] \<longrightarrow> 0 < k)"
proof (induction ls arbitrary: ch n)
  case Nil
  then show ?case by simp
next
  case (Cons l ls)
  show ?case
    using Cons.prems by (fastforce split: if_splits list.splits dest: Cons.IH)
qed

lemma chunk_loop_error:
  "chunk_loop ln ls ch n = Err e \<Longrightarrow> \<exists>m. e = InvalidHunkError m (ln + 1) \<and> n = 0 \<and> ls \<noteq> []"
proof (induction ls arbitrary: ch n)
  case Nil
  then show ?case by simp
next
  case (Cons l ls)
  show ?case
    using Cons.prems by (fastforce split: if_splits list.splits dest: Cons.IH)
qed

lemma parse_update_file_chunk_bounds:
  "parse_update_file_chunk lines ln a = Ok (ch, k) \<Longrightarrow> 0 < k \<and> k \<le> length lines"
  by (auto simp: parse_update_file_chunk_def split: list.splits if_splits option.splits sum.splits
      dest!: chunk_loop_bounds)

section \<open>Hunks\<close>

text \<open>The \<open>while !remaining_lines.is_empty()\<close> loop over an update hunk's chunks.\<close>

function update_loop ::
  "nat \<Rightarrow> string list \<Rightarrow> nat \<Rightarrow> UpdateFileChunk list \<Rightarrow> (ParseError, UpdateFileChunk list \<times> nat) result" where
  "update_loop line_number remaining parsed_lines chunks =
    (case remaining of
       [] \<Rightarrow> Ok (chunks, parsed_lines)
     | l # ls \<Rightarrow>
        if trim l = [] then update_loop line_number ls (parsed_lines + 1) chunks
        else if starts_with ''*'' l then Ok (chunks, parsed_lines)
        else (case parse_update_file_chunk remaining (line_number + parsed_lines) (chunks = []) of
           Err e \<Rightarrow> Err e
         | Ok (ch, k) \<Rightarrow> update_loop line_number (drop k remaining) (parsed_lines + k) (chunks @ [ch])))"
  by pat_completeness auto
termination
  by (relation "measure (\<lambda>(_, remaining, _, _). length remaining)")
    (auto dest!: parse_update_file_chunk_bounds)

declare update_loop.simps [simp del]

text \<open>The lines an add hunk takes: those with a leading \<open>+\<close>; the text and their number.\<close>

fun add_loop :: "string list \<Rightarrow> string \<Rightarrow> nat \<Rightarrow> string \<times> nat" where
  "add_loop [] contents n = (contents, n)"
| "add_loop (l # ls) contents n =
    (case strip_prefix ''+'' l of
       Some r \<Rightarrow> add_loop ls (contents @ r @ [LF]) (n + 1)
     | None \<Rightarrow> (contents, n))"

text \<open>
  \<open>parse_one_hunk\<close> reads \<open>lines[0]\<close>; its caller only runs it on a non-empty slice, so the
  first line and the others are separate arguments.
\<close>

definition parse_one_hunk :: "string \<Rightarrow> string list \<Rightarrow> nat \<Rightarrow> (ParseError, Hunk \<times> nat) result" where
  "parse_one_hunk line0 rest line_number =
    (let first_line = trim line0 in
     case strip_prefix ADD_FILE_MARKER first_line of
       Some path \<Rightarrow> (let (contents, parsed_lines) = add_loop rest [] 1 in Ok (AddFile path contents, parsed_lines))
     | None \<Rightarrow>
    (case strip_prefix DELETE_FILE_MARKER first_line of
       Some path \<Rightarrow> Ok (DeleteFile path, 1)
     | None \<Rightarrow>
    (case strip_prefix UPDATE_FILE_MARKER first_line of
       Some path \<Rightarrow>
         (let move_path = (case rest of [] \<Rightarrow> None | x # _ \<Rightarrow> strip_prefix MOVE_TO_MARKER x);
              remaining = (if move_path \<noteq> None then tl rest else rest);
              parsed_lines = (if move_path \<noteq> None then 2 else 1)
          in case update_loop line_number remaining parsed_lines [] of
               Err e \<Rightarrow> Err e
             | Ok (chunks, parsed) \<Rightarrow>
                 if chunks = [] then Err (InvalidHunkError (msg_empty_update path) line_number)
                 else Ok (UpdateFile path move_path chunks, parsed))
     | None \<Rightarrow> Err (InvalidHunkError (msg_bad_header first_line) line_number))))"

lemma update_loop_bounds:
  "update_loop ln rem n cs = Ok (cs', k) \<Longrightarrow> n \<le> k \<and> k \<le> n + length rem"
proof (induction ln rem n cs rule: update_loop.induct)
  case (1 ln rem n cs)
  show ?case
    using "1.prems" "1.IH" parse_update_file_chunk_bounds
    by (subst (asm) update_loop.simps)
      (fastforce split: list.splits if_splits sum.splits prod.splits)
qed

lemma add_loop_bounds: "add_loop ls c n = (c', k) \<Longrightarrow> n \<le> k \<and> k \<le> n + length ls"
  by (induction ls c n rule: add_loop.induct) (fastforce split: option.splits)+

lemma parse_one_hunk_bounds:
  "parse_one_hunk l rest ln = Ok (h, k) \<Longrightarrow> 0 < k \<and> k \<le> length (l # rest)"
  by (auto simp: parse_one_hunk_def Let_def split: option.splits if_splits sum.splits prod.splits list.splits
      dest!: update_loop_bounds add_loop_bounds)

section \<open>Whole patches\<close>

definition check_start_and_end_lines_strict :: "string option \<Rightarrow> string option \<Rightarrow> (ParseError, unit) result" where
  "check_start_and_end_lines_strict first_line last_line =
    (case (map_option trim first_line, map_option trim last_line) of
       (Some first, Some final) \<Rightarrow>
         if first = BEGIN_PATCH_MARKER \<and> final = END_PATCH_MARKER then Ok ()
         else if first \<noteq> BEGIN_PATCH_MARKER then Err (InvalidPatchError msg_first_line)
         else Err (InvalidPatchError msg_last_line)
     | (Some first, None) \<Rightarrow>
         if first \<noteq> BEGIN_PATCH_MARKER then Err (InvalidPatchError msg_first_line)
         else Err (InvalidPatchError msg_last_line)
     | _ \<Rightarrow> Err (InvalidPatchError msg_last_line))"

text \<open>
  The slice \<open>&lines[1..lines.len() - 1]\<close> is only taken after the boundary check, which
  fails on fewer than two lines (\<open>boundaries_strict_two_lines\<close>), so it is in range.
\<close>

definition check_patch_boundaries_strict :: "string list \<Rightarrow> (ParseError, string list \<times> string list) result" where
  "check_patch_boundaries_strict lines =
    (let (first_line, last_line) =
       (case lines of
          [] \<Rightarrow> (None, None)
        | [first] \<Rightarrow> (Some first, Some first)
        | first # _ \<Rightarrow> (Some first, Some (last lines)))
     in case check_start_and_end_lines_strict first_line last_line of
          Err e \<Rightarrow> Err e
        | Ok _ \<Rightarrow> Ok (lines, butlast (tl lines)))"

definition check_patch_boundaries_lenient :: "string list \<Rightarrow> (ParseError, string list \<times> string list) result" where
  "check_patch_boundaries_lenient original_lines =
    (case check_patch_boundaries_strict original_lines of
       Ok ls \<Rightarrow> Ok ls
     | Err original_parse_error \<Rightarrow>
        (case original_lines of
           first # _ # _ \<Rightarrow>
             if (first = ''<<EOF'' \<or> first = ''<<'' @ [CHR 0x27] @ ''EOF'' @ [CHR 0x27]
                  \<or> first = ''<<'' @ [CHR 0x22] @ ''EOF'' @ [CHR 0x22])
                \<and> ends_with ''EOF'' (last original_lines) \<and> 4 \<le> length original_lines
             then check_patch_boundaries_strict (butlast (tl original_lines))
             else Err original_parse_error
         | _ \<Rightarrow> Err original_parse_error))"

function hunks_loop :: "string list \<Rightarrow> nat \<Rightarrow> Hunk list \<Rightarrow> (ParseError, Hunk list) result" where
  "hunks_loop remaining line_number hunks =
    (case remaining of
       [] \<Rightarrow> Ok hunks
     | l # ls \<Rightarrow>
        (case parse_one_hunk l ls line_number of
           Err e \<Rightarrow> Err e
         | Ok (hunk, k) \<Rightarrow> hunks_loop (drop k remaining) (line_number + k) (hunks @ [hunk])))"
  by pat_completeness auto
termination
  by (relation "measure (\<lambda>(remaining, _, _). length remaining)") (auto dest!: parse_one_hunk_bounds)

declare hunks_loop.simps [simp del]

definition parse_patch_text :: "string \<Rightarrow> ParseMode \<Rightarrow> (ParseError, ApplyPatchArgs) result" where
  "parse_patch_text patch mode =
    (let lines = str_lines (trim patch) in
     case (case mode of
             Strict \<Rightarrow> check_patch_boundaries_strict lines
           | Lenient \<Rightarrow> check_patch_boundaries_lenient lines) of
       Err e \<Rightarrow> Err e
     | Ok (patch_lines, hunk_lines) \<Rightarrow>
        (case hunks_loop hunk_lines 2 [] of
           Err e \<Rightarrow> Err e
         | Ok hunks \<Rightarrow> Ok \<lparr>args_patch = join_with [LF] patch_lines, args_hunks = hunks, args_workdir = None\<rparr>))"

definition parse_patch :: "string \<Rightarrow> (ParseError, ApplyPatchArgs) result" where
  "parse_patch patch = parse_patch_text patch Lenient"

end
