(* ===== verification/Patch_Errors.thy ===== *)
theory Patch_Errors
  imports Patch_Parser
begin

text \<open>
  The failure behaviour of the batch patch parser: which errors \<open>parse_patch\<close> can report and
  the range of the line numbers in them.
\<close>

section \<open>Line numbers\<close>

lemma parse_update_file_chunk_error:
  "parse_update_file_chunk lines ln a = Err e \<Longrightarrow> lines \<noteq> [] \<Longrightarrow>
    \<exists>m k. e = InvalidHunkError m k \<and> ln \<le> k \<and> k \<le> ln + 1"
  by (auto simp: parse_update_file_chunk_def split: list.splits if_splits option.splits sum.splits
      dest!: chunk_loop_error)

lemma update_loop_error:
  "update_loop ln rem n cs = Err e \<Longrightarrow>
    \<exists>m k. e = InvalidHunkError m k \<and> ln + n \<le> k \<and> k \<le> ln + n + length rem"
proof (induction ln rem n cs rule: update_loop.induct)
  case (1 ln rem n cs)
  show ?case
  proof (cases rem)
    case Nil
    with "1.prems" show ?thesis by (simp add: update_loop.simps)
  next
    case (Cons l ls)
    consider "trim l = []" | "trim l \<noteq> []" "starts_with ''*'' l" | "trim l \<noteq> []" "\<not> starts_with ''*'' l"
      by blast
    then show ?thesis
    proof cases
      case 3
      show ?thesis
      proof (cases "parse_update_file_chunk rem (ln + n) (cs = [])")
        case (Inl e')
        with 3 Cons "1.prems" have "e' = e" by (subst (asm) update_loop.simps) simp
        with parse_update_file_chunk_error [OF Inl] Cons show ?thesis by fastforce
      next
        case (Inr p)
        obtain ch k where p: "p = (ch, k)" by fastforce
        have k: "0 < k \<and> k \<le> length rem"
          using parse_update_file_chunk_bounds Inr p by simp
        from 3 Cons Inr p "1.prems" have "update_loop ln (drop k rem) (n + k) (cs @ [ch]) = Err e"
          by (subst (asm) update_loop.simps) simp
        from "1.IH"(2) [OF Cons 3 Inr p [symmetric] this]
        show ?thesis using k by fastforce
      qed
    qed (use "1.prems" "1.IH"(1) Cons in \<open>subst (asm) update_loop.simps, fastforce\<close>)+
  qed
qed

lemma parse_one_hunk_error:
  "parse_one_hunk l rest ln = Err e \<Longrightarrow>
    \<exists>m k. e = InvalidHunkError m k \<and> ln \<le> k \<and> k \<le> ln + length (l # rest)"
  by (fastforce simp: parse_one_hunk_def Let_def split: option.splits if_splits sum.splits prod.splits list.splits
      dest!: update_loop_error)

lemma hunks_loop_error:
  "hunks_loop rem ln hs = Err e \<Longrightarrow> \<exists>m k. e = InvalidHunkError m k \<and> ln \<le> k \<and> k \<le> ln + length rem"
proof (induction rem ln hs rule: hunks_loop.induct)
  case (1 rem ln hs)
  show ?case
  proof (cases rem)
    case Nil
    with "1.prems" show ?thesis by (simp add: hunks_loop.simps)
  next
    case (Cons l ls)
    show ?thesis
    proof (cases "parse_one_hunk l ls ln")
      case (Inl e')
      with Cons "1.prems" have "e' = e" by (subst (asm) hunks_loop.simps) simp
      with parse_one_hunk_error [OF Inl] Cons show ?thesis by simp
    next
      case (Inr p)
      obtain h k where p: "p = (h, k)" by fastforce
      have "0 < k \<and> k \<le> length rem"
        using parse_one_hunk_bounds Inr p Cons by simp
      moreover from Cons Inr p "1.prems" have "hunks_loop (drop k rem) (ln + k) (hs @ [h]) = Err e"
        by (subst (asm) hunks_loop.simps) simp
      from "1.IH" [OF Cons Inr p [symmetric] this]
      obtain m j where "e = InvalidHunkError m j \<and> ln + k \<le> j \<and> j \<le> ln + k + length (drop k rem)"
        by blast
      ultimately show ?thesis by fastforce
    qed
  qed
qed

lemma boundaries_strict_two_lines:
  "check_patch_boundaries_strict lines = Ok (pl, hl) \<Longrightarrow>
    2 \<le> length lines \<and> pl = lines \<and> hl = butlast (tl lines)"
  by (auto simp: check_patch_boundaries_strict_def check_start_and_end_lines_strict_def marker_defs
      split: list.splits if_splits sum.splits)

text \<open>The lines of the patch itself: a literal here-document around them is taken off.\<close>

definition in_heredoc :: "string list \<Rightarrow> bool" where
  "in_heredoc lines \<longleftrightarrow> 4 \<le> length lines \<and> ends_with ''EOF'' (last lines) \<and>
    hd lines \<in> {''<<EOF'', ''<<'' @ [CHR 0x27] @ ''EOF'' @ [CHR 0x27], ''<<'' @ [CHR 0x22] @ ''EOF'' @ [CHR 0x22]}"

definition patch_body :: "string list \<Rightarrow> string list" where
  "patch_body lines = (if in_heredoc lines then butlast (tl lines) else lines)"

lemma boundaries_strict_cases:
  "check_patch_boundaries_strict lines =
    (if lines = [] then Err (InvalidPatchError msg_last_line)
     else if trim (hd lines) \<noteq> BEGIN_PATCH_MARKER then Err (InvalidPatchError msg_first_line)
     else if trim (last lines) \<noteq> END_PATCH_MARKER then Err (InvalidPatchError msg_last_line)
     else Ok (lines, butlast (tl lines)))"
  by (auto simp: check_patch_boundaries_strict_def check_start_and_end_lines_strict_def split: list.splits)

lemma boundaries_lenient_body: "check_patch_boundaries_lenient lines = check_patch_boundaries_strict (patch_body lines)"
proof (cases "in_heredoc lines")
  case True
  then obtain f g rest where lines: "lines = f # g # rest" by (cases lines; cases "tl lines") (auto simp: in_heredoc_def)
  have "trim ''<<EOF'' \<noteq> BEGIN_PATCH_MARKER" "trim (''<<'' @ [CHR 0x27] @ ''EOF'' @ [CHR 0x27]) \<noteq> BEGIN_PATCH_MARKER"
    "trim (''<<'' @ [CHR 0x22] @ ''EOF'' @ [CHR 0x22]) \<noteq> BEGIN_PATCH_MARKER" by code_simp+
  with True lines have "trim (hd lines) \<noteq> BEGIN_PATCH_MARKER" by (auto simp: in_heredoc_def)
  then have "check_patch_boundaries_strict lines = Err (InvalidPatchError msg_first_line)"
    unfolding boundaries_strict_cases [of lines] by (simp add: lines)
  with True lines show ?thesis by (auto simp: check_patch_boundaries_lenient_def patch_body_def in_heredoc_def)
next
  case False
  then show ?thesis
    by (auto simp: check_patch_boundaries_lenient_def patch_body_def in_heredoc_def split: list.splits sum.splits)
qed

section \<open>Properties\<close>

text \<open>C39: A patch is rejected with a message that names its fault.  With the lines of the patch, taken out of a
  literal here-document if there is one: when the first line is not the begin marker the message says so;
  when there is no line, or the first is the begin marker and the last is not the end marker, it says that
  the end marker is missing; and otherwise a rejection is a hunk error whose line number is at least 2
  and at most the number of lines.\<close>

theorem parse_patch_errors:
  assumes "body = patch_body (str_lines (trim patch))"
  shows "(body \<noteq> [] \<and> trim (hd body) \<noteq> ''*** Begin Patch'' \<longrightarrow> parse_patch patch = Err (InvalidPatchError msg_first_line)) \<and>
    (body = [] \<or> trim (hd body) = ''*** Begin Patch'' \<and> trim (last body) \<noteq> ''*** End Patch'' \<longrightarrow>
      parse_patch patch = Err (InvalidPatchError msg_last_line)) \<and>
    (body \<noteq> [] \<and> trim (hd body) = ''*** Begin Patch'' \<and> trim (last body) = ''*** End Patch'' \<and> parse_patch patch = Err e \<longrightarrow>
      (\<exists>m k. e = InvalidHunkError m k \<and> 2 \<le> k \<and> k \<le> length body))"
proof -
  have check: "check_patch_boundaries_lenient (str_lines (trim patch)) = check_patch_boundaries_strict body"
    by (simp add: boundaries_lenient_body assms)
  have hunk: "\<exists>m k. e = InvalidHunkError m k \<and> 2 \<le> k \<and> k \<le> length body"
    if ok: "check_patch_boundaries_strict body = Ok (body, butlast (tl body))" and err: "parse_patch patch = Err e"
  proof -
    from ok err check have "hunks_loop (butlast (tl body)) 2 [] = Err e"
      by (auto simp: parse_patch_def parse_patch_text_def split: sum.splits)
    with hunks_loop_error obtain m k where "e = InvalidHunkError m k" "2 \<le> k" "k \<le> 2 + length (butlast (tl body))" by blast
    moreover have "2 \<le> length body" using boundaries_strict_two_lines [OF ok] by simp
    ultimately show ?thesis by auto
  qed
  show ?thesis using hunk check
    by (auto simp: boundaries_strict_cases marker_defs parse_patch_def parse_patch_text_def)
qed

definition bad_patch :: string where
  "bad_patch = ''*** Begin Patch'' @ [LF] @ ''bad'' @ [LF] @ ''*** End Patch''"

lemma bad_patch_rejected: "parse_patch bad_patch = Err (InvalidHunkError (msg_bad_header ''bad'') 2)"
  by code_simp

text \<open>Patches without their end or begin marker, and one with a wrong line.\<close>

theorem parse_patch_errors_witness:
  "parse_patch (''*** Begin Patch'' @ [LF] @ ''*** Delete File: a'') = Err (InvalidPatchError msg_last_line) \<and>
   parse_patch (''*** Delete File: a'' @ [LF] @ ''*** End Patch'') = Err (InvalidPatchError msg_first_line) \<and>
   (\<exists>m k. parse_patch bad_patch = Err (InvalidHunkError m k) \<and> 2 \<le> k \<and> k \<le> 3)"
proof -
  let ?open = "''*** Begin Patch'' @ [LF] @ ''*** Delete File: a''" and ?headless = "''*** Delete File: a'' @ [LF] @ ''*** End Patch''"
  have body: "patch_body (str_lines (trim ?open)) = [''*** Begin Patch'', ''*** Delete File: a'']"
    "patch_body (str_lines (trim ?headless)) = [''*** Delete File: a'', ''*** End Patch'']"
    "patch_body (str_lines (trim bad_patch)) = [''*** Begin Patch'', ''bad'', ''*** End Patch'']"
    "trim ''*** Begin Patch'' = ''*** Begin Patch''" "trim ''*** End Patch'' = ''*** End Patch''"
    "trim ''*** Delete File: a'' = ''*** Delete File: a''" by code_simp+
  show ?thesis
    using parse_patch_errors [OF refl, of ?open] parse_patch_errors [OF refl, of ?headless] parse_patch_errors [OF refl, of bad_patch "InvalidHunkError (msg_bad_header ''bad'') 2"]
    unfolding body list.sel last.simps by (simp add: body bad_patch_rejected)
qed

end
