(* ===== verification/Patch_Roundtrip.thy ===== *)
theory Patch_Roundtrip
  imports Patch_Parser
begin

text \<open>
  Correctness of the batch patch parser: a printer of hunks in the documented grammar and the
  round trip through \<open>parse_patch\<close>.
\<close>

section \<open>Trimming lines that need no trimming\<close>

definition plain :: "char \<Rightarrow> bool" where
  "plain c \<longleftrightarrow> is_ascii c \<and> \<not> ascii_ws c"

lemma strip_ws_snoc:
  assumes "\<not> ascii_ws c" "\<And>a. \<not> w2 a c" "\<And>a b. \<not> w3 a b c"
  shows "\<exists>r. strip_ws w2 w3 (s @ [c]) = r @ [c]"
  using assms
proof (induction w2 w3 s rule: strip_ws.induct)
  case (1 w2 w3 a b d r)
  then show ?case
    by (cases r) (auto simp: append_eq_Cons_conv)
qed auto

lemma trim_end_starts: "plain c \<Longrightarrow> \<exists>r. trim_end (c # s) = c # r"
proof -
  assume "plain c"
  then obtain r where "strip_ws (\<lambda>a b. ws2 b a) (\<lambda>a b c. ws3 c b a) (rev s @ [c]) = r @ [c]"
    using strip_ws_snoc [of c "\<lambda>a b. ws2 b a" "\<lambda>a b c. ws3 c b a" "rev s"]
    by (auto simp: plain_def dest: not_ascii_ws_bytes)
  then show ?thesis by (simp add: trim_end_def)
qed

lemma trim_starts: "plain c \<Longrightarrow> trim (c # s) = trim_end (c # s)"
  using trim_end_starts [of c s] by (auto simp: trim_def plain_def trim_start_plain)

lemma trim_not_Nil: "plain c \<Longrightarrow> trim (c # s) \<noteq> []"
  using trim_end_starts [of c s] by (auto simp: trim_starts)

lemma strip_ws_append_fix:
  assumes "strip_ws w2 w3 s = s" "s \<noteq> []"
    and "\<And>a. \<not> w2 a x" "\<And>a b. \<not> w3 a b x" "\<And>a b. \<not> w3 a x b"
  shows "strip_ws w2 w3 (s @ x # t) = s @ x # t"
proof -
  have shorter: "length (strip_ws w2 w3 u) \<le> length u" for u
    using strip_ws_suffix [of w2 w3 u] by (rule suffix_length_le)
  consider (one) a where "s = [a]" | (two) a b where "s = [a, b]" | (more) a b c r where "s = a # b # c # r"
    using assms(2) by (metis list.exhaust)
  then show ?thesis
  proof cases
    case one
    with assms show ?thesis by (cases t) (auto split: if_splits)
  next
    case two
    with assms shorter [of "[b]"] show ?thesis by (auto split: if_splits)
  next
    case more
    with assms(1) shorter [of "b # c # r"] shorter [of "c # r"] shorter [of r]
    have "\<not> ascii_ws a \<and> \<not> w2 a b \<and> \<not> w3 a b c" by (auto split: if_splits)
    with more show ?thesis by simp
  qed
qed

lemma trim_end_append_fix:
  assumes "trim_end p = p" "p \<noteq> []" "is_ascii x"
  shows "trim_end (m @ x # p) = m @ x # p"
proof -
  have "strip_ws (\<lambda>a b. ws2 b a) (\<lambda>a b c. ws3 c b a) (rev p @ x # rev m) = rev p @ x # rev m"
  proof (rule strip_ws_append_fix)
    show "strip_ws (\<lambda>a b. ws2 b a) (\<lambda>a b c. ws3 c b a) (rev p) = rev p"
      using assms(1) by (metis rev_rev_ident trim_end_def)
  qed (use assms in \<open>auto dest: not_ascii_ws_bytes\<close>)
  then show ?thesis by (simp add: trim_end_def)
qed

section \<open>Lines\<close>

definition line_ok :: "string \<Rightarrow> bool" where
  "line_ok l \<longleftrightarrow> LF \<notin> set l \<and> \<not> ends_with [CR] l"

lemma line_ok_Nil [simp]: "line_ok []"
  by (simp add: line_ok_def ends_with_def)

lemma line_ok_Cons [simp]: "c \<noteq> LF \<Longrightarrow> c \<noteq> CR \<Longrightarrow> line_ok (c # l) \<longleftrightarrow> line_ok l"
  by (cases l rule: rev_cases) (auto simp: line_ok_def ends_with_def)

lemma strip_cr_ok: "line_ok l \<Longrightarrow> strip_cr l = l"
  by (simp add: line_ok_def strip_cr_def strip_suffix_def)

lemma str_lines_join:
  assumes "ls \<noteq> []" "\<forall>l\<in>set ls. line_ok l" "last ls \<noteq> []"
  shows "str_lines (join_with [LF] ls) = ls"
proof -
  have "split_char LF (join_with [LF] ls) = ls"
    using assms by (intro split_char_join) (auto simp: line_ok_def)
  moreover have "map strip_cr (butlast ls) = butlast ls"
    using assms(2) by (intro map_idI) (auto simp: strip_cr_ok dest: in_set_butlastD)
  ultimately show ?thesis
    using assms(1,3) by (simp add: str_lines_def Let_def)
qed

section \<open>Printing hunks\<close>

definition print_chunk :: "UpdateFileChunk \<Rightarrow> string list" where
  "print_chunk c =
    (case change_context c of None \<Rightarrow> EMPTY_CHANGE_CONTEXT_MARKER | Some x \<Rightarrow> CHANGE_CONTEXT_MARKER @ x) #
    map ((#) CHR ''-'') (old_lines c) @ map ((#) CHR ''+'') (new_lines c) @
    (if is_end_of_file c then [EOF_MARKER] else [])"

definition content_lines :: "string \<Rightarrow> string list" where
  "content_lines c = butlast (split_char LF c)"

fun print_hunk :: "Hunk \<Rightarrow> string list" where
  "print_hunk (AddFile p c) = (ADD_FILE_MARKER @ p) # map ((#) CHR ''+'') (content_lines c)"
| "print_hunk (DeleteFile p) = [DELETE_FILE_MARKER @ p]"
| "print_hunk (UpdateFile p m cs) =
    (UPDATE_FILE_MARKER @ p) # (case m of None \<Rightarrow> [] | Some d \<Rightarrow> [MOVE_TO_MARKER @ d]) @
    concat (map print_chunk cs)"

definition print_lines :: "Hunk list \<Rightarrow> string list" where
  "print_lines hs = BEGIN_PATCH_MARKER # concat (map print_hunk hs) @ [END_PATCH_MARKER]"

definition print_patch :: "Hunk list \<Rightarrow> string" where
  "print_patch hs = join_with [LF] (print_lines hs)"

definition path_ok :: "string \<Rightarrow> bool" where
  "path_ok p \<longleftrightarrow> p \<noteq> [] \<and> trim_end p = p \<and> line_ok p"

definition chunk_ok :: "UpdateFileChunk \<Rightarrow> bool" where
  "chunk_ok c \<longleftrightarrow>
    old_lines c @ new_lines c \<noteq> [] \<and> (\<forall>l\<in>set (old_lines c @ new_lines c). line_ok l) \<and>
    (case change_context c of None \<Rightarrow> True | Some x \<Rightarrow> line_ok x)"

fun hunk_ok :: "Hunk \<Rightarrow> bool" where
  "hunk_ok (AddFile p c) \<longleftrightarrow>
    path_ok p \<and> last (split_char LF c) = [] \<and> (\<forall>l\<in>set (content_lines c). line_ok l)"
| "hunk_ok (DeleteFile p) \<longleftrightarrow> path_ok p"
| "hunk_ok (UpdateFile p m cs) \<longleftrightarrow>
    path_ok p \<and> (case m of None \<Rightarrow> True | Some d \<Rightarrow> line_ok d) \<and> cs \<noteq> [] \<and> (\<forall>c\<in>set cs. chunk_ok c)"

definition path_marker :: "string \<Rightarrow> bool" where
  "path_marker m \<longleftrightarrow> m \<in> {ADD_FILE_MARKER, DELETE_FILE_MARKER, UPDATE_FILE_MARKER, MOVE_TO_MARKER}"

lemma path_marker_simps [simp]:
  "path_marker ADD_FILE_MARKER" "path_marker DELETE_FILE_MARKER"
  "path_marker UPDATE_FILE_MARKER" "path_marker MOVE_TO_MARKER"
  by (simp_all add: path_marker_def)

lemma path_marker_shape: "path_marker m \<Longrightarrow> m = CHR ''*'' # butlast (tl m) @ [CHR '' '']"
  unfolding path_marker_def by (elim insertE emptyE) (simp_all add: marker_defs)

lemma path_marker_line_ok: "path_marker m \<Longrightarrow> line_ok (m @ p) \<longleftrightarrow> line_ok p"
  unfolding path_marker_def by (elim insertE emptyE) (simp_all add: marker_defs)

lemma plain_at [simp]: "plain CHR ''@''" "plain CHR ''*''"
  by (simp_all add: plain_def is_ascii_def ascii_ws_def)

lemma header_line:
  assumes "path_ok p" "path_marker m"
  shows "trim_end (m @ p) = m @ p" "trim (m @ p) = m @ p" "line_ok (m @ p)"
proof -
  obtain r where m: "m = CHR ''*'' # r @ [CHR '' '']"
    using path_marker_shape [OF assms(2)] by blast
  then show e: "trim_end (m @ p) = m @ p"
    using trim_end_append_fix [of p "CHR '' ''" "CHR ''*'' # r"] assms(1)
    by (simp add: path_ok_def is_ascii_def)
  with m show "trim (m @ p) = m @ p" by (simp add: trim_starts)
  show "line_ok (m @ p)"
    using assms by (simp add: path_marker_line_ok path_ok_def)
qed

lemma print_chunk_lines_ok: "chunk_ok c \<Longrightarrow> l \<in> set (print_chunk c) \<Longrightarrow> line_ok l"
  by (auto simp: print_chunk_def chunk_ok_def marker_defs split: option.splits)

lemma print_hunk_lines_ok: "hunk_ok h \<Longrightarrow> l \<in> set (print_hunk h) \<Longrightarrow> line_ok l"
proof (cases h)
  case (UpdateFile p m cs)
  assume *: "hunk_ok h" "l \<in> set (print_hunk h)"
  with UpdateFile * show ?thesis
    by (auto simp: header_line path_marker_line_ok print_chunk_lines_ok split: option.splits)
qed (auto simp: header_line)

section \<open>Parsing what was printed\<close>

text \<open>A line that ends a chunk: the next chunk's context line or the next hunk's header.\<close>

definition stops :: "string list \<Rightarrow> bool" where
  "stops ls \<longleftrightarrow> ls = [] \<or> (\<exists>c r. hd ls = c # r \<and> hd ls \<noteq> EOF_MARKER \<and> c \<notin> {CHR '' '', CHR ''+'', CHR ''-''})"

definition ends_hunk :: "string list \<Rightarrow> bool" where
  "ends_hunk ls \<longleftrightarrow> ls = [] \<or> (\<exists>r. hd ls = CHR ''*'' # r \<and> hd ls \<noteq> EOF_MARKER)"

lemma ends_hunk_stops: "ends_hunk ls \<Longrightarrow> stops ls"
  by (auto simp: ends_hunk_def stops_def)

lemma chunk_loop_minus:
  "chunk_loop ln (map ((#) CHR ''-'') os @ ls) ch n =
    chunk_loop ln ls (ch\<lparr>old_lines := old_lines ch @ os\<rparr>) (n + length os)"
  by (induction os arbitrary: ch n) (auto simp: EOF_MARKER_def)

lemma chunk_loop_plus:
  "chunk_loop ln (map ((#) CHR ''+'') ns @ ls) ch n =
    chunk_loop ln ls (ch\<lparr>new_lines := new_lines ch @ ns\<rparr>) (n + length ns)"
  by (induction ns arbitrary: ch n) (auto simp: EOF_MARKER_def)

lemma chunk_loop_stops: "stops ls \<Longrightarrow> 0 < n \<Longrightarrow> chunk_loop ln ls ch n = Ok (ch, n)"
  by (cases ls) (auto simp: stops_def)

lemma parse_printed_chunk:
  assumes "chunk_ok c" "stops ls"
  shows "parse_update_file_chunk (print_chunk c @ ls) ln a = Ok (c, length (print_chunk c))"
proof -
  let ?body = "map ((#) CHR ''-'') (old_lines c) @ map ((#) CHR ''+'') (new_lines c) @
    (if is_end_of_file c then [EOF_MARKER] else [])"
  let ?n = "length (old_lines c) + length (new_lines c)"
  have pos: "0 < ?n" using assms(1) by (auto simp: chunk_ok_def)
  have "chunk_loop ln (?body @ ls) (empty_chunk (change_context c)) 0 =
      Ok (c, ?n + (if is_end_of_file c then 1 else 0))"
    using pos assms(2)
    by (cases c) (auto simp: chunk_loop_minus chunk_loop_plus empty_chunk_def chunk_loop_stops)
  with pos show ?thesis
    by (cases "change_context c")
      (auto simp: parse_update_file_chunk_def print_chunk_def marker_defs)
qed

lemma print_chunk_head: "\<exists>r rest. print_chunk c = (CHR ''@'' # r) # rest"
  by (simp add: print_chunk_def marker_defs split: option.splits)

lemma stops_print_chunks: "ends_hunk ls \<Longrightarrow> stops (concat (map print_chunk cs) @ ls)"
  using print_chunk_head [of "hd cs"]
  by (cases cs) (auto simp: ends_hunk_stops, auto simp: stops_def EOF_MARKER_def)

lemma update_loop_printed:
  "\<forall>c\<in>set cs. chunk_ok c \<Longrightarrow> ends_hunk ls \<Longrightarrow>
   update_loop ln (concat (map print_chunk cs) @ ls) n acc =
     Ok (acc @ cs, n + length (concat (map print_chunk cs)))"
proof (induction cs arbitrary: n acc)
  case Nil
  then show ?case
    by (cases ls) (auto simp: update_loop.simps [of _ "_ # _"] update_loop.simps [of _ "[]"]
        ends_hunk_def trim_not_Nil)
next
  case (Cons c cs)
  let ?rest = "concat (map print_chunk cs) @ ls"
  obtain r body where head: "print_chunk c = (CHR ''@'' # r) # body"
    using print_chunk_head by blast
  have "parse_update_file_chunk (print_chunk c @ ?rest) (ln + n) (acc = []) = Ok (c, length (print_chunk c))"
    using Cons.prems by (intro parse_printed_chunk) (auto intro: stops_print_chunks)
  with head have "update_loop ln (print_chunk c @ ?rest) n acc =
      update_loop ln ?rest (n + length (print_chunk c)) (acc @ [c])"
    by (subst update_loop.simps) (simp add: trim_not_Nil)
  with Cons show ?case by (simp add: add.assoc)
qed

lemma add_loop_printed:
  "ends_hunk ls \<Longrightarrow> add_loop (map ((#) CHR ''+'') xs @ ls) acc n =
     (acc @ concat (map (\<lambda>l. l @ [LF]) xs), n + length xs)"
  by (induction xs arbitrary: acc n) (cases ls; auto simp: ends_hunk_def)+

lemma content_lines_concat:
  "last (split_char LF c) = [] \<Longrightarrow> concat (map (\<lambda>l. l @ [LF]) (content_lines c)) = c"
proof -
  assume "last (split_char LF c) = []"
  have "join_with [LF] (xs @ [[]]) = concat (map (\<lambda>l. l @ [LF]) xs)" for xs
    by (induction xs) (simp_all add: join_with_Cons)
  from this [of "content_lines c"] show ?thesis
    using \<open>last (split_char LF c) = []\<close> append_butlast_last_id [of "split_char LF c"]
      join_split_char [of LF c] by (simp add: content_lines_def)
qed

lemma not_header_prefix:
  "strip_prefix ADD_FILE_MARKER (DELETE_FILE_MARKER @ p) = None"
  "strip_prefix ADD_FILE_MARKER (UPDATE_FILE_MARKER @ p) = None"
  "strip_prefix DELETE_FILE_MARKER (UPDATE_FILE_MARKER @ p) = None"
  by (simp_all add: marker_defs)

lemma parse_one_hunk_printed:
  assumes "hunk_ok h" "ends_hunk ls"
  shows "parse_one_hunk (hd (print_hunk h)) (tl (print_hunk h) @ ls) ln = Ok (h, length (print_hunk h))"
proof (cases h)
  case (AddFile p c)
  with assms show ?thesis
    by (simp add: parse_one_hunk_def header_line add_loop_printed content_lines_concat)
next
  case (DeleteFile p)
  with assms show ?thesis
    by (simp add: parse_one_hunk_def header_line not_header_prefix)
next
  case (UpdateFile p m cs)
  have no_move: "(case concat (map print_chunk cs) @ ls of [] \<Rightarrow> None | x # _ \<Rightarrow> strip_prefix MOVE_TO_MARKER x) = None"
    using assms UpdateFile print_chunk_head [of "hd cs"]
    by (cases cs) (auto simp: MOVE_TO_MARKER_def)
  show ?thesis
    using assms UpdateFile no_move
    by (cases m) (simp_all add: parse_one_hunk_def header_line not_header_prefix update_loop_printed Let_def)
qed

lemma print_hunk_head: "\<exists>r rest. print_hunk h = (CHR ''*'' # r) # rest \<and> CHR ''*'' # r \<noteq> EOF_MARKER"
  by (cases h) (auto simp: marker_defs)

lemma ends_hunk_printed: "ends_hunk ls \<Longrightarrow> ends_hunk (concat (map print_hunk hs) @ ls)"
  using print_hunk_head [of "hd hs"] by (cases hs) (auto, auto simp: ends_hunk_def)

lemma hunks_loop_printed:
  "\<forall>h\<in>set hs. hunk_ok h \<Longrightarrow> hunks_loop (concat (map print_hunk hs)) ln acc = Ok (acc @ hs)"
proof (induction hs arbitrary: ln acc)
  case Nil
  then show ?case by (simp add: hunks_loop.simps)
next
  case (Cons h hs)
  let ?rest = "concat (map print_hunk hs)"
  obtain l ls where h: "print_hunk h = l # ls"
    using print_hunk_head by blast
  have "parse_one_hunk l (ls @ ?rest) ln = Ok (h, length (print_hunk h))"
    using parse_one_hunk_printed [of h ?rest ln] Cons.prems h ends_hunk_printed [of "[]" hs]
    by (simp add: ends_hunk_def)
  with Cons h show ?case
    by (subst hunks_loop.simps) simp
qed

lemma trim_id: "plain c \<Longrightarrow> plain d \<Longrightarrow> trim (c # s @ [d]) = c # s @ [d]"
  using trim_end_plain [of d "c # s"] by (simp add: trim_starts plain_def)

lemma trim_markers [simp]:
  "trim BEGIN_PATCH_MARKER = BEGIN_PATCH_MARKER" "trim END_PATCH_MARKER = END_PATCH_MARKER"
  by code_simp+

lemma boundaries_strict_marked:
  "check_patch_boundaries_strict (BEGIN_PATCH_MARKER # ms @ [END_PATCH_MARKER]) =
    Ok (BEGIN_PATCH_MARKER # ms @ [END_PATCH_MARKER], ms)"
  by (cases ms) (simp_all add: check_patch_boundaries_strict_def check_start_and_end_lines_strict_def)

lemma boundaries_lenient_printed:
  "check_patch_boundaries_lenient (print_lines hs) = Ok (print_lines hs, concat (map print_hunk hs))"
  by (simp add: check_patch_boundaries_lenient_def print_lines_def boundaries_strict_marked)

lemma trim_print_patch: "trim (print_patch hs) = print_patch hs"
proof -
  have join: "\<exists>s. join_with [LF] (xs @ [END_PATCH_MARKER]) = s @ ''h''" for xs
    by (induction xs) (auto simp: END_PATCH_MARKER_def join_with_Cons)
  obtain s where "join_with [LF] (concat (map print_hunk hs) @ [END_PATCH_MARKER]) = s @ ''h''"
    using join by blast
  then have "print_patch hs = CHR ''*'' # (''** Begin Patch'' @ [LF] @ s) @ [CHR ''h'']"
    by (simp add: print_patch_def print_lines_def join_with_Cons BEGIN_PATCH_MARKER_def)
  moreover have "plain CHR ''h''" by (simp add: plain_def is_ascii_def ascii_ws_def)
  ultimately show ?thesis by (simp only: trim_id plain_at)
qed

lemma str_lines_print_patch:
  assumes "\<forall>h\<in>set hs. hunk_ok h"
  shows "str_lines (print_patch hs) = print_lines hs"
proof -
  have "\<forall>l\<in>set (print_lines hs). line_ok l"
    using assms print_hunk_lines_ok by (auto simp: print_lines_def marker_defs)
  then show ?thesis
    unfolding print_patch_def
    by (intro str_lines_join) (auto simp: print_lines_def END_PATCH_MARKER_def)
qed

lemma parse_printed:
  assumes "\<forall>h\<in>set hs. hunk_ok h"
  shows "parse_patch (print_patch hs) =
    Ok \<lparr>args_patch = print_patch hs, args_hunks = hs, args_workdir = None\<rparr>"
  using assms
  by (simp add: parse_patch_def parse_patch_text_def trim_print_patch str_lines_print_patch
      boundaries_lenient_printed hunks_loop_printed flip: print_patch_def)

section \<open>Properties\<close>

text \<open>C5: For every list of well-formed hunks, printing them in the patch grammar and parsing the
  text gives back exactly those hunks, with the patch text itself as the recorded patch.\<close>

theorem parse_print_patch:
  assumes "\<forall>h\<in>set hs. hunk_ok h"
  shows "parse_patch (print_patch hs) =
    Ok \<lparr>args_patch = print_patch hs, args_hunks = hs, args_workdir = None\<rparr>"
  using assms by (rule parse_printed)

definition sample_hunks :: "Hunk list" where
  "sample_hunks =
    [AddFile ''a.txt'' (''hi'' @ [LF]), DeleteFile ''b'',
     UpdateFile ''c.rs'' (Some ''d.rs'')
       [\<lparr>change_context = Some ''fn f'', old_lines = [''x'', ''y''], new_lines = [''z''], is_end_of_file = False\<rparr>,
        \<lparr>change_context = None, old_lines = [], new_lines = [''w''], is_end_of_file = True\<rparr>]]"

lemma sample_hunks_ok: "\<forall>h\<in>set sample_hunks. hunk_ok h"
  by (simp add: sample_hunks_def path_ok_def line_ok_def chunk_ok_def content_lines_def
      trim_end_def ends_with_def ascii_ws_def ws2_def ws3_def)

theorem parse_print_patch_witness:
  "list_all hunk_ok sample_hunks \<and>
   parse_patch (print_patch sample_hunks) =
     Ok \<lparr>args_patch = print_patch sample_hunks, args_hunks = sample_hunks, args_workdir = None\<rparr>"
  using sample_hunks_ok parse_print_patch [OF sample_hunks_ok] by (simp add: list_all_iff)

end
