(* ===== verification/Patch_Streaming.thy ===== *)
theory Patch_Streaming
  imports Patch_Roundtrip
begin

text \<open>
  The incremental patch parser (apply-patch/src/streaming_parser.rs).  The parser is fed text
  deltas and shows the hunks seen so far.  An operation returns the parser after the call
  together with its result, since a failed \<open>push_delta\<close> leaves a changed parser behind;
  \<open>process_line\<close> changes nothing when it fails and so returns the new parser only on success.
\<close>

section \<open>State\<close>

datatype StreamingParserMode =
    NotStarted
  | StartedPatch
  | ModeAddFile
  | ModeDeleteFile
  | ModeUpdateFile nat
  | EndedPatch

record StreamingParserState =
  mode :: StreamingParserMode
  hunks :: "Hunk list"

record StreamingPatchParser = StreamingParserState +
  line_buffer :: string
  line_number :: nat

definition streaming_default :: StreamingPatchParser where
  "streaming_default = \<lparr>mode = NotStarted, hunks = [], line_buffer = [], line_number = 0\<rparr>"

section \<open>Operations\<close>

definition chunk_is_empty :: "UpdateFileChunk \<Rightarrow> bool" where
  "chunk_is_empty c \<longleftrightarrow> old_lines c = [] \<and> new_lines c = []"

definition last_chunk_empty :: "UpdateFileChunk list \<Rightarrow> bool" where
  "last_chunk_empty chunks \<longleftrightarrow> (case last_opt chunks of None \<Rightarrow> False | Some c \<Rightarrow> chunk_is_empty c)"

definition ensure_update_hunk_is_not_empty :: "StreamingPatchParser \<Rightarrow> string \<Rightarrow> (ParseError, unit) result" where
  "ensure_update_hunk_is_not_empty p line =
    (case last_opt (hunks p) of
       Some (UpdateFile path _ chunks) \<Rightarrow>
         (case (chunks, mode p) of
            ([], ModeUpdateFile hunk_line_number) \<Rightarrow>
              Err (InvalidHunkError (msg_empty_update path) hunk_line_number)
          | _ \<Rightarrow>
              if last_chunk_empty chunks
              then (if line = END_PATCH_MARKER then Err (InvalidHunkError msg_no_lines (line_number p))
                    else Err (InvalidHunkError (msg_unexpected_line line) (line_number p)))
              else Ok ())
     | _ \<Rightarrow> Ok ())"

definition handle_hunk_headers_and_end_patch ::
  "StreamingPatchParser \<Rightarrow> string \<Rightarrow> (ParseError, StreamingPatchParser \<times> bool) result" where
  "handle_hunk_headers_and_end_patch p trimmed =
    (let guarded = (\<lambda>p'. case ensure_update_hunk_is_not_empty p trimmed of
                      Err e \<Rightarrow> Err e
                    | Ok _ \<Rightarrow> Ok (p', True)) in
     if trimmed = END_PATCH_MARKER then guarded (p\<lparr>mode := EndedPatch\<rparr>)
     else (case strip_prefix ADD_FILE_MARKER trimmed of
       Some path \<Rightarrow> guarded (p\<lparr>hunks := hunks p @ [AddFile path []], mode := ModeAddFile\<rparr>)
     | None \<Rightarrow>
     (case strip_prefix DELETE_FILE_MARKER trimmed of
       Some path \<Rightarrow> guarded (p\<lparr>hunks := hunks p @ [DeleteFile path], mode := ModeDeleteFile\<rparr>)
     | None \<Rightarrow>
     (case strip_prefix UPDATE_FILE_MARKER trimmed of
       Some path \<Rightarrow>
         guarded (p\<lparr>hunks := hunks p @ [UpdateFile path None []], mode := ModeUpdateFile (line_number p)\<rparr>)
     | None \<Rightarrow> Ok (p, False)))))"

text \<open>
  The body of the \<open>UpdateFile\<close> arm once the line is no header: \<open>update_line\<close> is the line
  without trailing white space, \<open>put\<close> writes the last hunk back.
\<close>

definition edit_last_chunk :: "(UpdateFileChunk \<Rightarrow> UpdateFileChunk) \<Rightarrow> UpdateFileChunk list \<Rightarrow> UpdateFileChunk list" where
  "edit_last_chunk f chunks = map_last f (if chunks = [] then [empty_chunk None] else chunks)"

definition process_update_line :: "StreamingPatchParser \<Rightarrow> string \<Rightarrow> (ParseError, StreamingPatchParser) result" where
  "process_update_line p line =
    (let update_line = trim_end line;
         unexpected = Err (InvalidHunkError (msg_unexpected_line line) (line_number p)) in
     case last_opt (hunks p) of
       Some (UpdateFile path move_path chunks) \<Rightarrow>
         (let put = (\<lambda>mv cs. Ok (p\<lparr>hunks := butlast (hunks p) @ [UpdateFile path mv cs]\<rparr>)) in
          if chunks = [] \<and> move_path = None \<and> starts_with MOVE_TO_MARKER update_line
          then put (strip_prefix MOVE_TO_MARKER update_line) chunks
          else if (update_line = EMPTY_CHANGE_CONTEXT_MARKER \<or> starts_with CHANGE_CONTEXT_MARKER update_line)
                  \<and> last_chunk_empty chunks
          then unexpected
          else if update_line = EMPTY_CHANGE_CONTEXT_MARKER
          then put move_path (chunks @ [empty_chunk None])
          else (case strip_prefix CHANGE_CONTEXT_MARKER update_line of
             Some ctx \<Rightarrow> put move_path (chunks @ [empty_chunk (Some ctx)])
           | None \<Rightarrow>
             if update_line = EOF_MARKER
             then (if last_chunk_empty chunks then Err (InvalidHunkError msg_no_lines (line_number p))
                   else put move_path (map_last (\<lambda>c. c\<lparr>is_end_of_file := True\<rparr>) chunks))
             else (case line of
                [] \<Rightarrow> put move_path (edit_last_chunk
                        (\<lambda>c. c\<lparr>old_lines := old_lines c @ [[]], new_lines := new_lines c @ [[]]\<rparr>) chunks)
              | c0 # r \<Rightarrow>
                  if c0 = CHR '' '' then put move_path (edit_last_chunk
                        (\<lambda>c. c\<lparr>old_lines := old_lines c @ [r], new_lines := new_lines c @ [r]\<rparr>) chunks)
                  else if c0 = CHR ''+'' then put move_path (edit_last_chunk
                        (\<lambda>c. c\<lparr>new_lines := new_lines c @ [r]\<rparr>) chunks)
                  else if c0 = CHR ''-'' then put move_path (edit_last_chunk
                        (\<lambda>c. c\<lparr>old_lines := old_lines c @ [r]\<rparr>) chunks)
                  else if chunks \<noteq> [] \<and> \<not> last_chunk_empty chunks
                  then Err (InvalidHunkError (msg_expected_context line) (line_number p))
                  else unexpected)))
     | _ \<Rightarrow> unexpected)"

definition process_line :: "StreamingPatchParser \<Rightarrow> string \<Rightarrow> (ParseError, StreamingPatchParser) result" where
  "process_line p line =
    (let trimmed = trim line;
         bad_header = Err (InvalidHunkError (msg_bad_header trimmed) (line_number p));
         or_header = (\<lambda>text other. case handle_hunk_headers_and_end_patch p text of
                        Err e \<Rightarrow> Err e
                      | Ok (p', handled) \<Rightarrow> if handled then Ok p' else other) in
     case mode p of
       NotStarted \<Rightarrow>
         if trimmed = BEGIN_PATCH_MARKER then Ok (p\<lparr>mode := StartedPatch\<rparr>)
         else Err (InvalidPatchError msg_first_line)
     | StartedPatch \<Rightarrow> or_header trimmed bad_header
     | ModeAddFile \<Rightarrow> or_header trimmed
         (case (strip_prefix ''+'' line, last_opt (hunks p)) of
            (Some line_to_add, Some (AddFile path contents)) \<Rightarrow>
              Ok (p\<lparr>hunks := butlast (hunks p) @ [AddFile path (contents @ line_to_add @ [LF])]\<rparr>)
          | _ \<Rightarrow> bad_header)
     | ModeDeleteFile \<Rightarrow> or_header trimmed bad_header
     | ModeUpdateFile _ \<Rightarrow> or_header (trim_end line) (process_update_line p line)
     | EndedPatch \<Rightarrow> Ok p)"

text \<open>The character loop of \<open>push_delta\<close>: the parser afterwards, and the error that ended it.\<close>

fun push_chars :: "StreamingPatchParser \<Rightarrow> string \<Rightarrow> StreamingPatchParser \<times> ParseError option" where
  "push_chars p [] = (p, None)"
| "push_chars p (c # cs) =
    (if c = LF
     then (let line = strip_cr (line_buffer p);
               p1 = p\<lparr>line_buffer := [], line_number := line_number p + 1\<rparr> in
           case process_line p1 line of
             Err e \<Rightarrow> (p1, Some e)
           | Ok p2 \<Rightarrow> push_chars p2 cs)
     else push_chars (p\<lparr>line_buffer := line_buffer p @ [c]\<rparr>) cs)"

definition push_delta :: "StreamingPatchParser \<Rightarrow> string \<Rightarrow> StreamingPatchParser \<times> (ParseError, Hunk list) result" where
  "push_delta p delta =
    (case push_chars p delta of
       (p', None) \<Rightarrow> (p', Ok (hunks p'))
     | (p', Some e) \<Rightarrow> (p', Err e))"

definition finish :: "StreamingPatchParser \<Rightarrow> StreamingPatchParser \<times> (ParseError, Hunk list) result" where
  "finish p =
    (let (p2, outcome) =
       (if line_buffer p \<noteq> []
        then (let line = line_buffer p;
                  p1 = p\<lparr>line_buffer := [], line_number := line_number p + 1\<rparr> in
              case (if trim line = END_PATCH_MARKER
                    then (case ensure_update_hunk_is_not_empty p1 (trim line) of
                            Err e \<Rightarrow> Err e
                          | Ok _ \<Rightarrow> Ok (p1\<lparr>mode := EndedPatch\<rparr>))
                    else process_line p1 line) of
                Err e \<Rightarrow> (p1, Some e)
              | Ok p' \<Rightarrow> (p', None))
        else (p, None))
     in case outcome of
          Some e \<Rightarrow> (p2, Err e)
        | None \<Rightarrow> if mode p2 \<noteq> EndedPatch then (p2, Err (InvalidPatchError msg_last_line))
                  else (p2, Ok (hunks p2)))"

text \<open>A client that feeds deltas until one fails, then finishes.\<close>

fun push_deltas :: "StreamingPatchParser \<Rightarrow> string list \<Rightarrow> StreamingPatchParser \<times> (ParseError, Hunk list) result" where
  "push_deltas p [] = finish p"
| "push_deltas p (d # ds) =
    (case push_delta p d of
       (p', Err e) \<Rightarrow> (p', Err e)
     | (p', Ok _) \<Rightarrow> push_deltas p' ds)"

section \<open>Deltas and their concatenation\<close>

lemma push_chars_append:
  "push_chars p (a @ b) =
    (case push_chars p a of
       (p', None) \<Rightarrow> push_chars p' b
     | (p', Some e) \<Rightarrow> (p', Some e))"
  by (induction p a rule: push_chars.induct) (auto simp: Let_def split: sum.splits)

text \<open>The source path of a hunk, as the patch handler shows it (\<open>hunk_source_path\<close>).\<close>

fun hunk_source_path :: "Hunk \<Rightarrow> string" where
  "hunk_source_path (AddFile p c) = p"
| "hunk_source_path (DeleteFile p) = p"
| "hunk_source_path (UpdateFile p m cs) = p"

text \<open>How the list of hunks may change: only the last one is edited, keeping its source path.\<close>

definition extends_hunks :: "Hunk list \<Rightarrow> Hunk list \<Rightarrow> bool" where
  "extends_hunks hs hs' \<longleftrightarrow>
    prefix (butlast hs) hs' \<and> prefix (map hunk_source_path hs) (map hunk_source_path hs')"

lemma extends_hunks_refl [simp]: "extends_hunks hs hs"
  by (simp add: extends_hunks_def prefix_def) (metis append_butlast_last_id append_Nil2 butlast.simps(1))

lemma extends_hunks_snoc [simp]: "extends_hunks hs (hs @ [h])"
  by (cases hs rule: rev_cases) (auto simp: extends_hunks_def)

lemma extends_hunks_edit:
  "last_opt hs = Some h \<Longrightarrow> hunk_source_path h' = hunk_source_path h \<Longrightarrow>
   extends_hunks hs (butlast hs @ [h'])"
  by (auto simp: last_opt_Some_iff extends_hunks_def)

lemma extends_hunks_trans: "extends_hunks a b \<Longrightarrow> extends_hunks b c \<Longrightarrow> extends_hunks a c"
proof -
  assume ab: "extends_hunks a b" and bc: "extends_hunks b c"
  from ab bc have "prefix (map hunk_source_path a) (map hunk_source_path b)"
    and paths: "prefix (map hunk_source_path a) (map hunk_source_path c)"
    by (auto simp: extends_hunks_def intro: prefix_order.trans)
  then have "length a \<le> length b"
    by (auto dest: prefix_length_le)
  with ab have "prefix (butlast a) (butlast b)"
    by (auto simp: extends_hunks_def intro!: prefix_length_prefix [OF _ prefixeq_butlast])
  with bc paths show ?thesis
    by (auto simp: extends_hunks_def intro: prefix_order.trans)
qed

lemma handle_headers_extends:
  "handle_hunk_headers_and_end_patch p t = Ok (p', b) \<Longrightarrow> extends_hunks (hunks p) (hunks p')"
  by (auto simp: handle_hunk_headers_and_end_patch_def Let_def split: if_splits option.splits sum.splits)

lemma process_update_line_extends:
  "process_update_line p l = Ok p' \<Longrightarrow> extends_hunks (hunks p) (hunks p')"
  by (auto simp: process_update_line_def Let_def extends_hunks_edit
      split: if_splits option.splits list.splits Hunk.splits)

lemma process_line_extends: "process_line p l = Ok p' \<Longrightarrow> extends_hunks (hunks p) (hunks p')"
  by (auto simp: process_line_def Let_def extends_hunks_edit
      split: StreamingParserMode.splits if_splits option.splits sum.splits prod.splits Hunk.splits
      dest: handle_headers_extends process_update_line_extends)

lemma push_chars_extends: "extends_hunks (hunks p) (hunks (fst (push_chars p s)))"
proof (induction s arbitrary: p)
  case (Cons c cs)
  let ?p1 = "p\<lparr>line_buffer := [], line_number := line_number p + 1\<rparr>"
  show ?case
  proof (cases "c = LF")
    case True
    show ?thesis
    proof (cases "process_line ?p1 (strip_cr (line_buffer p))")
      case (Inr p2)
      then have "extends_hunks (hunks p) (hunks p2)"
        using process_line_extends by fastforce
      with Inr True Cons.IH [of p2] show ?thesis
        by (simp add: Let_def) (rule extends_hunks_trans)
    qed (simp add: True Let_def)
  next
    case False
    then show ?thesis
      using Cons.IH [of "p\<lparr>line_buffer := line_buffer p @ [c]\<rparr>"] by simp
  qed
qed simp

section \<open>Complete lines\<close>

fun process_lines :: "StreamingPatchParser \<Rightarrow> string list \<Rightarrow> (ParseError, StreamingPatchParser) result" where
  "process_lines p [] = Ok p"
| "process_lines p (l # ls) =
    (case process_line (p\<lparr>line_number := line_number p + 1\<rparr>) l of
       Err e \<Rightarrow> Err e
     | Ok p' \<Rightarrow> process_lines p' ls)"

lemma process_lines_append:
  "process_lines p (a @ b) = (case process_lines p a of Err e \<Rightarrow> Err e | Ok p' \<Rightarrow> process_lines p' b)"
  by (induction p a rule: process_lines.induct) (auto split: sum.splits)

lemma push_chars_plain:
  "LF \<notin> set s \<Longrightarrow> push_chars p s = (p\<lparr>line_buffer := line_buffer p @ s\<rparr>, None)"
  by (induction s arbitrary: p) auto

lemma handle_headers_buffer:
  "handle_hunk_headers_and_end_patch p t = Ok (p', b) \<Longrightarrow> line_buffer p' = line_buffer p"
  by (auto simp: handle_hunk_headers_and_end_patch_def Let_def split: if_splits option.splits sum.splits)

lemma process_update_line_buffer: "process_update_line p l = Ok p' \<Longrightarrow> line_buffer p' = line_buffer p"
  by (auto simp: process_update_line_def Let_def split: if_splits option.splits list.splits Hunk.splits)

lemma process_line_buffer: "process_line p l = Ok p' \<Longrightarrow> line_buffer p' = line_buffer p"
  by (auto simp: process_line_def Let_def
      split: StreamingParserMode.splits if_splits option.splits sum.splits prod.splits Hunk.splits
      dest: handle_headers_buffer process_update_line_buffer)

lemma push_chars_line:
  assumes "line_ok l" "line_buffer p = []"
    and "process_line (p\<lparr>line_number := line_number p + 1\<rparr>) l = Ok p2"
  shows "push_chars p (l @ LF # s) = push_chars p2 s"
proof -
  have "LF \<notin> set l" using assms(1) by (simp add: line_ok_def)
  then show ?thesis
    using assms by (cases p) (simp add: push_chars_append push_chars_plain strip_cr_ok Let_def)
qed

lemma push_chars_lines:
  assumes "\<forall>l\<in>set ls. line_ok l" "line_buffer p = []" "process_lines p ls = Ok p'"
  shows "push_chars p (join_with [LF] (ls @ [l])) = push_chars p' l \<and> line_buffer p' = []"
  using assms
proof (induction ls arbitrary: p)
  case (Cons x xs)
  then obtain p2 where p2: "process_line (p\<lparr>line_number := line_number p + 1\<rparr>) x = Ok p2"
    and rest: "process_lines p2 xs = Ok p'"
    by (auto split: sum.splits)
  have "line_buffer p2 = []"
    using process_line_buffer [OF p2] Cons.prems(2) by simp
  with Cons.IH [of p2] Cons.prems rest p2 show ?case
    by (auto simp: join_with_Cons push_chars_line)
qed simp

section \<open>Agreement with the batch parser\<close>

text \<open>
  The streaming parser reads move targets and change contexts without their trailing white
  space, which the batch parser keeps; the hunks both parsers treat alike are these.
\<close>

fun streamable :: "Hunk \<Rightarrow> bool" where
  "streamable (UpdateFile p m cs) \<longleftrightarrow>
    (case m of None \<Rightarrow> True | Some d \<Rightarrow> path_ok d) \<and>
    (\<forall>c\<in>set cs. case change_context c of None \<Rightarrow> True | Some x \<Rightarrow> x \<noteq> [] \<and> trim_end x = x)"
| "streamable _ \<longleftrightarrow> True"

text \<open>A parser between two hunks, with nothing left to complain about.\<close>

definition complete :: "StreamingPatchParser \<Rightarrow> bool" where
  "complete p \<longleftrightarrow> mode p \<notin> {NotStarted, EndedPatch} \<and>
    (case last_opt (hunks p) of
       Some (UpdateFile _ _ cs) \<Rightarrow> cs \<noteq> [] \<and> \<not> last_chunk_empty cs
     | _ \<Rightarrow> True)"

lemma complete_line_number [simp]: "complete (p\<lparr>line_number := n\<rparr>) = complete p"
  by (simp add: complete_def)

lemma complete_ensure: "complete p \<Longrightarrow> ensure_update_hunk_is_not_empty p l = Ok ()"
  by (auto simp: complete_def ensure_update_hunk_is_not_empty_def
      split: option.splits Hunk.splits list.splits StreamingParserMode.splits)

lemma process_line_header:
  assumes "complete p" "trim l = l" "trim_end l = l"
    and "handle_hunk_headers_and_end_patch p l = Ok (p', True)"
  shows "process_line p l = Ok p'"
  using assms by (auto simp: process_line_def complete_def Let_def split: StreamingParserMode.splits)

lemma handle_headers_printed:
  assumes "complete p"
  shows "handle_hunk_headers_and_end_patch p (ADD_FILE_MARKER @ f) =
      Ok (p\<lparr>hunks := hunks p @ [AddFile f []], mode := ModeAddFile\<rparr>, True)"
    and "handle_hunk_headers_and_end_patch p (DELETE_FILE_MARKER @ f) =
      Ok (p\<lparr>hunks := hunks p @ [DeleteFile f], mode := ModeDeleteFile\<rparr>, True)"
    and "handle_hunk_headers_and_end_patch p (UPDATE_FILE_MARKER @ f) =
      Ok (p\<lparr>hunks := hunks p @ [UpdateFile f None []], mode := ModeUpdateFile (line_number p)\<rparr>, True)"
  using complete_ensure [OF assms]
  by (simp_all add: handle_hunk_headers_and_end_patch_def marker_defs)

text \<open>Body lines: their first character tells them apart from every header.\<close>

lemma handle_headers_body:
  "c \<noteq> CHR ''*'' \<Longrightarrow> handle_hunk_headers_and_end_patch p (c # r) = Ok (p, False)"
  by (simp add: handle_hunk_headers_and_end_patch_def marker_defs)

lemma plain_body [simp]: "plain CHR ''+''" "plain CHR ''-''"
  by (simp_all add: plain_def is_ascii_def ascii_ws_def)

lemma process_line_add:
  assumes "mode p = ModeAddFile" "hunks p = hs @ [AddFile f c]"
  shows "process_line p (CHR ''+'' # r) = Ok (p\<lparr>hunks := hs @ [AddFile f (c @ r @ [LF])]\<rparr>)"
  using assms trim_end_starts [of "CHR ''+''" r]
  by (auto simp: process_line_def Let_def trim_starts handle_headers_body)

lemma process_lines_add:
  assumes "mode p = ModeAddFile" "hunks p = hs @ [AddFile f c]"
  shows "\<exists>p'. process_lines p (map ((#) CHR ''+'') xs) = Ok p' \<and> mode p' = ModeAddFile \<and>
    hunks p' = hs @ [AddFile f (c @ concat (map (\<lambda>l. l @ [LF]) xs))]"
  using assms
proof (induction xs arbitrary: p c)
  case (Cons x xs)
  then show ?case
    using Cons.IH [of "p\<lparr>line_number := Suc (line_number p), hunks := hs @ [AddFile f (c @ x @ [LF])]\<rparr>" "c @ x @ [LF]"]
    by (simp add: process_line_add [where hs = hs and f = f and c = c])
qed simp

text \<open>The parser inside the update hunk of \<open>f\<close>, after the chunks \<open>cs\<close>.\<close>

definition in_update :: "Hunk list \<Rightarrow> string \<Rightarrow> string option \<Rightarrow> UpdateFileChunk list \<Rightarrow> StreamingPatchParser \<Rightarrow> bool" where
  "in_update hs f m cs p \<longleftrightarrow> (\<exists>n. mode p = ModeUpdateFile n) \<and> hunks p = hs @ [UpdateFile f m cs]"

lemma in_update_line_number [simp]: "in_update hs f m cs (p\<lparr>line_number := n\<rparr>) = in_update hs f m cs p"
  by (simp add: in_update_def)

lemma process_line_no_header:
  assumes "in_update hs f m cs p" "handle_hunk_headers_and_end_patch p (trim_end l) = Ok (p, False)"
  shows "process_line p l = process_update_line p l"
proof -
  from assms(1) obtain n where "mode p = ModeUpdateFile n" by (auto simp: in_update_def)
  with assms(2) show ?thesis by (simp add: process_line_def Let_def)
qed

lemma process_line_in_update:
  assumes "in_update hs f m cs p" "trim_end l = c # r" "c \<noteq> CHR ''*''"
  shows "process_line p l = process_update_line p l"
  using assms by (intro process_line_no_header) (simp_all add: handle_headers_body)

lemma process_line_minus:
  assumes "in_update hs f m (cs @ [ch]) p"
  shows "\<exists>p'. process_line p (CHR ''-'' # r) = Ok p' \<and>
    in_update hs f m (cs @ [ch\<lparr>old_lines := old_lines ch @ [r]\<rparr>]) p'"
proof -
  obtain r' where "trim_end (CHR ''-'' # r) = CHR ''-'' # r'" using trim_end_starts [of "CHR ''-''" r] by auto
  with assms show ?thesis
    by (simp add: process_line_in_update, simp add: in_update_def process_update_line_def Let_def
        marker_defs edit_last_chunk_def starts_with_def)
qed

lemma process_line_plus:
  assumes "in_update hs f m (cs @ [ch]) p"
  shows "\<exists>p'. process_line p (CHR ''+'' # r) = Ok p' \<and>
    in_update hs f m (cs @ [ch\<lparr>new_lines := new_lines ch @ [r]\<rparr>]) p'"
proof -
  obtain r' where "trim_end (CHR ''+'' # r) = CHR ''+'' # r'" using trim_end_starts [of "CHR ''+''" r] by auto
  with assms show ?thesis
    by (simp add: process_line_in_update, simp add: in_update_def process_update_line_def Let_def
        marker_defs edit_last_chunk_def starts_with_def)
qed

lemma process_lines_minus:
  "in_update hs f m (cs @ [ch]) p \<Longrightarrow>
   \<exists>p'. process_lines p (map ((#) CHR ''-'') os) = Ok p' \<and>
     in_update hs f m (cs @ [ch\<lparr>old_lines := old_lines ch @ os\<rparr>]) p'"
proof (induction os arbitrary: p ch)
  case (Cons l os)
  then obtain p1 where "process_line (p\<lparr>line_number := line_number p + 1\<rparr>) (CHR ''-'' # l) = Ok p1"
    "in_update hs f m (cs @ [ch\<lparr>old_lines := old_lines ch @ [l]\<rparr>]) p1"
    using process_line_minus [of hs f m cs ch "p\<lparr>line_number := line_number p + 1\<rparr>" l] by auto
  with Cons.IH [OF this(2)] show ?case by simp
qed simp

lemma process_lines_plus:
  "in_update hs f m (cs @ [ch]) p \<Longrightarrow>
   \<exists>p'. process_lines p (map ((#) CHR ''+'') ns) = Ok p' \<and>
     in_update hs f m (cs @ [ch\<lparr>new_lines := new_lines ch @ ns\<rparr>]) p'"
proof (induction ns arbitrary: p ch)
  case (Cons l ns)
  then obtain p1 where "process_line (p\<lparr>line_number := line_number p + 1\<rparr>) (CHR ''+'' # l) = Ok p1"
    "in_update hs f m (cs @ [ch\<lparr>new_lines := new_lines ch @ [l]\<rparr>]) p1"
    using process_line_plus [of hs f m cs ch "p\<lparr>line_number := line_number p + 1\<rparr>" l] by auto
  with Cons.IH [OF this(2)] show ?case by simp
qed simp

lemma trim_end_markers [simp]:
  "trim_end EMPTY_CHANGE_CONTEXT_MARKER = EMPTY_CHANGE_CONTEXT_MARKER"
  "trim_end EOF_MARKER = EOF_MARKER"
  "trim_end END_PATCH_MARKER = END_PATCH_MARKER"
  by code_simp+

lemma process_line_eof:
  assumes "in_update hs f m (cs @ [ch]) p" "\<not> chunk_is_empty ch"
  shows "\<exists>p'. process_line p EOF_MARKER = Ok p' \<and>
    in_update hs f m (cs @ [ch\<lparr>is_end_of_file := True\<rparr>]) p'"
proof -
  have "handle_hunk_headers_and_end_patch p EOF_MARKER = Ok (p, False)"
    by (simp add: handle_hunk_headers_and_end_patch_def marker_defs)
  with assms have "process_line p EOF_MARKER = process_update_line p EOF_MARKER"
    by (intro process_line_no_header) simp_all
  with assms show ?thesis
    by (simp add: in_update_def process_update_line_def last_chunk_empty_def Let_def)
      (simp add: marker_defs starts_with_def)
qed

definition context_line :: "string option \<Rightarrow> string" where
  "context_line x = (case x of None \<Rightarrow> EMPTY_CHANGE_CONTEXT_MARKER | Some x \<Rightarrow> CHANGE_CONTEXT_MARKER @ x)"

lemma trim_end_context_line:
  assumes "case x of None \<Rightarrow> True | Some x \<Rightarrow> x \<noteq> [] \<and> trim_end x = x"
  shows "trim_end (context_line x) = context_line x"
  using assms trim_end_append_fix [of _ "CHR '' ''" "''@@''"]
  by (auto simp: context_line_def CHANGE_CONTEXT_MARKER_def is_ascii_def split: option.splits)

lemma process_line_context:
  assumes "in_update hs f m cs p" "\<not> last_chunk_empty cs"
    and ctx: "case x of None \<Rightarrow> True | Some x \<Rightarrow> x \<noteq> [] \<and> trim_end x = x"
  shows "\<exists>p'. process_line p (context_line x) = Ok p' \<and> in_update hs f m (cs @ [empty_chunk x]) p'"
proof -
  obtain r where "context_line x = CHR ''@'' # r"
    by (cases x) (auto simp: context_line_def marker_defs)
  with assms trim_end_context_line [OF ctx]
  have "process_line p (context_line x) = process_update_line p (context_line x)"
    by (intro process_line_in_update) auto
  with assms trim_end_context_line [OF ctx] show ?thesis
    by (cases x) (simp_all add: in_update_def process_update_line_def Let_def context_line_def
        marker_defs starts_with_def)
qed

lemma process_lines_chunk:
  assumes "in_update hs f m cs p" "\<not> last_chunk_empty cs" "chunk_ok c"
    and ctx: "case change_context c of None \<Rightarrow> True | Some x \<Rightarrow> x \<noteq> [] \<and> trim_end x = x"
  shows "\<exists>p'. process_lines p (print_chunk c) = Ok p' \<and> in_update hs f m (cs @ [c]) p' \<and>
    \<not> last_chunk_empty (cs @ [c])"
proof -
  let ?e = "empty_chunk (change_context c)"
  obtain p1 where 1: "process_line (p\<lparr>line_number := line_number p + 1\<rparr>) (context_line (change_context c)) = Ok p1"
    and i1: "in_update hs f m (cs @ [?e]) p1"
    using process_line_context [OF _ assms(2) ctx, of hs f m "p\<lparr>line_number := line_number p + 1\<rparr>"] assms(1) by auto
  from process_lines_minus [OF i1, of "old_lines c"] obtain p2 where
    2: "process_lines p1 (map ((#) CHR ''-'') (old_lines c)) = Ok p2"
    and i2: "in_update hs f m (cs @ [?e\<lparr>old_lines := old_lines c\<rparr>]) p2"
    by (auto simp: empty_chunk_def)
  from process_lines_plus [OF i2, of "new_lines c"] obtain p3 where
    3: "process_lines p2 (map ((#) CHR ''+'') (new_lines c)) = Ok p3"
    and i3: "in_update hs f m (cs @ [c\<lparr>is_end_of_file := False\<rparr>]) p3"
    by (cases c) (auto simp: empty_chunk_def)
  have full: "\<not> chunk_is_empty c" using assms(3) by (auto simp: chunk_ok_def chunk_is_empty_def)
  have "\<exists>p4. process_lines p3 (if is_end_of_file c then [EOF_MARKER] else []) = Ok p4 \<and>
      in_update hs f m (cs @ [c]) p4"
  proof (cases "is_end_of_file c")
    case True
    then have c: "c\<lparr>is_end_of_file := False, is_end_of_file := True\<rparr> = c" by (cases c) simp
    obtain p4 where "process_line (p3\<lparr>line_number := line_number p3 + 1\<rparr>) EOF_MARKER = Ok p4"
      "in_update hs f m (cs @ [c\<lparr>is_end_of_file := False, is_end_of_file := True\<rparr>]) p4"
      using full i3 process_line_eof [of hs f m cs "c\<lparr>is_end_of_file := False\<rparr>"
          "p3\<lparr>line_number := line_number p3 + 1\<rparr>"]
      by (auto simp: chunk_is_empty_def)
    then show ?thesis unfolding c using True by simp
  next
    case False
    then have "c\<lparr>is_end_of_file := False\<rparr> = c" by (cases c) simp
    with False i3 show ?thesis by simp
  qed
  then show ?thesis
    using 1 2 3 full
    by (auto simp: print_chunk_def process_lines_append last_chunk_empty_def simp flip: context_line_def)
qed

lemma process_lines_chunks:
  assumes "in_update hs f m cs p" "\<not> last_chunk_empty cs" "\<forall>c\<in>set ds. chunk_ok c"
    and "\<forall>c\<in>set ds. case change_context c of None \<Rightarrow> True | Some x \<Rightarrow> x \<noteq> [] \<and> trim_end x = x"
  shows "\<exists>p'. process_lines p (concat (map print_chunk ds)) = Ok p' \<and> in_update hs f m (cs @ ds) p' \<and>
    \<not> last_chunk_empty (cs @ ds)"
  using assms
proof (induction ds arbitrary: cs p)
  case (Cons d ds)
  then obtain p1 where "process_lines p (print_chunk d) = Ok p1" "in_update hs f m (cs @ [d]) p1"
    "\<not> last_chunk_empty (cs @ [d])"
    using process_lines_chunk [of hs f m cs p d] by auto
  with Cons.IH [OF this(2,3)] Cons.prems show ?case by (auto simp: process_lines_append)
qed auto

lemma process_line_move:
  assumes "in_update hs f None [] p" "path_ok d"
  shows "\<exists>p'. process_line p (MOVE_TO_MARKER @ d) = Ok p' \<and> in_update hs f (Some d) [] p'"
proof -
  have "handle_hunk_headers_and_end_patch p (MOVE_TO_MARKER @ d) = Ok (p, False)"
    by (simp add: handle_hunk_headers_and_end_patch_def marker_defs)
  with assms have "process_line p (MOVE_TO_MARKER @ d) = process_update_line p (MOVE_TO_MARKER @ d)"
    by (intro process_line_no_header) (simp_all add: header_line)
  with assms show ?thesis
    by (simp add: in_update_def process_update_line_def header_line starts_with_def)
qed

lemma process_lines_update:
  assumes "complete p" "hunk_ok (UpdateFile f m ds)" "streamable (UpdateFile f m ds)"
  shows "\<exists>p'. process_lines p (print_hunk (UpdateFile f m ds)) = Ok p' \<and> complete p' \<and>
    hunks p' = hunks p @ [UpdateFile f m ds]"
proof -
  let ?p = "p\<lparr>line_number := line_number p + 1\<rparr>"
  obtain p1 where 1: "process_line ?p (UPDATE_FILE_MARKER @ f) = Ok p1"
    and i1: "in_update (hunks p) f None [] p1"
    using assms by (auto simp: in_update_def header_line handle_headers_printed(3) process_line_header)
  obtain p2 where 2: "process_lines p1 (case m of None \<Rightarrow> [] | Some d \<Rightarrow> [MOVE_TO_MARKER @ d]) = Ok p2"
    and i2: "in_update (hunks p) f m [] p2"
    using i1 assms(3) process_line_move [of "hunks p" f "p1\<lparr>line_number := line_number p1 + 1\<rparr>"]
    by (cases m) fastforce+
  have "\<not> last_chunk_empty []" by (simp add: last_chunk_empty_def)
  from process_lines_chunks [OF i2 this, of ds] assms obtain p3 where
    3: "process_lines p2 (concat (map print_chunk ds)) = Ok p3"
    and i3: "in_update (hunks p) f m ds p3" "\<not> last_chunk_empty ds"
    by auto
  have "complete p3" using i3 assms by (auto simp: in_update_def complete_def)
  with 1 2 3 i3 show ?thesis by (auto simp: process_lines_append in_update_def)
qed

lemma process_lines_hunk:
  assumes "complete p" "hunk_ok h" "streamable h"
  shows "\<exists>p'. process_lines p (print_hunk h) = Ok p' \<and> complete p' \<and> hunks p' = hunks p @ [h]"
proof (cases h)
  case (AddFile f c)
  let ?p = "p\<lparr>line_number := line_number p + 1, hunks := hunks p @ [AddFile f []], mode := ModeAddFile\<rparr>"
  have "process_line (p\<lparr>line_number := line_number p + 1\<rparr>) (ADD_FILE_MARKER @ f) = Ok ?p"
    using assms AddFile by (simp add: header_line handle_headers_printed(1) process_line_header)
  moreover obtain p' where "process_lines ?p (map ((#) CHR ''+'') (content_lines c)) = Ok p'"
    "mode p' = ModeAddFile" "hunks p' = hunks p @ [AddFile f c]"
    using process_lines_add [of ?p "hunks p" f "[]" "content_lines c"] content_lines_concat [of c] assms AddFile
    by auto
  ultimately show ?thesis using AddFile by (auto simp: complete_def)
next
  case (DeleteFile f)
  then show ?thesis
    using assms by (simp add: header_line handle_headers_printed(2) process_line_header) (simp add: complete_def)
next
  case (UpdateFile f m ds)
  then show ?thesis using assms process_lines_update by blast
qed

lemma process_lines_hunks:
  assumes "complete p" "\<forall>h\<in>set hs. hunk_ok h \<and> streamable h"
  shows "\<exists>p'. process_lines p (concat (map print_hunk hs)) = Ok p' \<and> complete p' \<and> hunks p' = hunks p @ hs"
  using assms
proof (induction hs arbitrary: p)
  case (Cons h hs)
  then obtain p1 where "process_lines p (print_hunk h) = Ok p1" "complete p1" "hunks p1 = hunks p @ [h]"
    using process_lines_hunk [of p h] by auto
  with Cons.IH [OF this(2)] Cons.prems show ?case by (auto simp: process_lines_append)
qed simp

lemma finish_printed:
  assumes "complete p" "line_buffer p = END_PATCH_MARKER"
  shows "snd (finish p) = Ok (hunks p)"
proof -
  have "complete (p\<lparr>line_buffer := b, line_number := n\<rparr>)" for b n
    using assms(1) by (simp add: complete_def)
  moreover have "END_PATCH_MARKER \<noteq> []" by (simp add: END_PATCH_MARKER_def)
  ultimately show ?thesis
    using assms by (simp add: finish_def complete_ensure)
qed

lemma push_deltas_push_delta:
  "push_deltas p ds =
    (case push_delta p (concat ds) of
       (p', Err e) \<Rightarrow> (p', Err e)
     | (p', Ok _) \<Rightarrow> finish p')"
  by (induction ds arbitrary: p)
    (auto simp: push_delta_def push_chars_append split: prod.splits option.splits)

lemma push_printed:
  assumes "\<forall>h\<in>set hs. hunk_ok h \<and> streamable h"
  shows "\<exists>p'. push_chars streaming_default (print_patch hs) = (p'\<lparr>line_buffer := END_PATCH_MARKER\<rparr>, None) \<and>
    complete p' \<and> hunks p' = hs"
proof -
  let ?p = "streaming_default\<lparr>line_number := 1, mode := StartedPatch\<rparr>"
  have begin_line: "process_line (streaming_default\<lparr>line_number := 1\<rparr>) BEGIN_PATCH_MARKER = Ok ?p"
    by (simp add: process_line_def streaming_default_def)
  have "complete ?p" "hunks ?p = []" by (simp_all add: complete_def streaming_default_def)
  with process_lines_hunks [OF this(1) assms] obtain p' where
    p': "process_lines ?p (concat (map print_hunk hs)) = Ok p'" "complete p'" "hunks p' = hs" by auto
  have lines: "process_lines streaming_default (BEGIN_PATCH_MARKER # concat (map print_hunk hs)) = Ok p'"
    using begin_line p'(1) by (simp add: streaming_default_def)
  have "\<forall>l\<in>set (BEGIN_PATCH_MARKER # concat (map print_hunk hs)). line_ok l"
    using assms print_hunk_lines_ok by (auto simp: marker_defs)
  from push_chars_lines [OF this _ lines, of END_PATCH_MARKER]
  have "push_chars streaming_default (print_patch hs) = push_chars p' END_PATCH_MARKER" "line_buffer p' = []"
    by (simp_all add: streaming_default_def print_patch_def print_lines_def)
  moreover have "LF \<notin> set END_PATCH_MARKER" by (simp add: END_PATCH_MARKER_def)
  ultimately show ?thesis using p' by (auto simp: push_chars_plain)
qed

section \<open>Properties\<close>

text \<open>How a stream is cut into deltas does not matter: feeding the pieces one by one and finishing
  gives the parser and the result (error or hunks) of feeding their concatenation at once.\<close>

theorem push_deltas_concat: "push_deltas p ds = push_deltas p [concat ds]"
  by (simp add: push_deltas_push_delta)

text \<open>The hunks shown to the user only grow: after any delta, failed or not, every hunk but the
  last of the earlier list is unchanged, and the source paths of the earlier list are a prefix of
  the new ones.\<close>

theorem push_delta_extends: "extends_hunks (hunks p) (hunks (fst (push_delta p delta)))"
  using push_chars_extends [of p delta] by (auto simp: push_delta_def split: prod.splits option.splits)

text \<open>C6: On the printed form of well-formed hunks, fed in any pieces, the streaming parser returns the hunks of the
  batch parser, provided that change contexts and move targets are not empty and have no white space at
  their end, which the streaming parser removes and the batch parser keeps; see the example below.\<close>

theorem streaming_agrees_with_batch:
  assumes "\<forall>h\<in>set hs. hunk_ok h \<and> streamable h" "concat ds = print_patch hs"
  shows "snd (push_deltas streaming_default ds) = Ok hs \<and>
    map_sum id args_hunks (parse_patch (print_patch hs)) = Ok hs"
proof -
  have batch: "map_sum id args_hunks (parse_patch (print_patch hs)) = Ok hs"
    using assms(1) parse_printed [of hs] by simp
  obtain p' where "push_chars streaming_default (print_patch hs) = (p'\<lparr>line_buffer := END_PATCH_MARKER\<rparr>, None)"
    and p': "complete p'" "hunks p' = hs"
    using push_printed [OF assms(1)] by blast
  then have "push_deltas streaming_default ds = finish (p'\<lparr>line_buffer := END_PATCH_MARKER\<rparr>)"
    using assms(2) by (simp add: push_deltas_push_delta push_delta_def)
  moreover have "complete (p'\<lparr>line_buffer := END_PATCH_MARKER\<rparr>)" using p' by (simp add: complete_def)
  ultimately show ?thesis using finish_printed p' batch by simp
qed

lemma sample_hunks_streamable: "\<forall>h\<in>set sample_hunks. hunk_ok h \<and> streamable h"
  using sample_hunks_ok
  by (simp add: sample_hunks_def path_ok_def line_ok_def trim_end_def ends_with_def ascii_ws_def ws2_def ws3_def)

theorem streaming_agrees_with_batch_witness:
  "snd (push_deltas streaming_default [take 20 (print_patch sample_hunks), drop 20 (print_patch sample_hunks)]) =
    Ok sample_hunks"
  using streaming_agrees_with_batch [OF sample_hunks_streamable, of
      "[take 20 (print_patch sample_hunks), drop 20 (print_patch sample_hunks)]"]
  by (simp del: push_deltas.simps)

text \<open>On a change context with a trailing space the two parsers differ.\<close>

lemma streaming_trims_context:
  defines "patch \<equiv> ''*** Begin Patch'' @ [LF] @ ''*** Update File: a'' @ [LF] @ ''@@ x '' @ [LF] @ ''-b'' @ [LF] @ ''*** End Patch''"
  shows "map_sum id (\<lambda>hs. [change_context c. UpdateFile _ _ cs \<leftarrow> hs, c \<leftarrow> cs]) (snd (push_deltas streaming_default [patch])) = Ok [Some ''x'']"
    and "map_sum id (\<lambda>args. [change_context c. UpdateFile _ _ cs \<leftarrow> args_hunks args, c \<leftarrow> cs]) (parse_patch patch) = Ok [Some ''x '']"
  unfolding patch_def by code_simp+

end
