(* ===== verification/Abs_Path.thy ===== *)
theory Abs_Path
  imports Rust_Str
begin

text \<open>
  Path resolution (utils/absolute-path), for Unix paths: \<open>std::path::Path::components\<close>, the
  normalisation of \<open>absolutize.rs\<close> and \<open>resolve_path_against_base\<close>.  The home directory, which the
  \<open>dirs\<close> package looks up, is an argument.
\<close>

section \<open>Components\<close>

datatype Component = RootDir | CurDir | ParentDir | Normal string

definition slash :: char where
  "slash = CHR ''/''"

definition is_absolute :: "string \<Rightarrow> bool" where
  "is_absolute p \<longleftrightarrow> starts_with [slash] p"

text \<open>A piece between slashes; empty pieces and \<open>.\<close> are dropped (a leading \<open>.\<close> is kept apart).\<close>

fun piece :: "string \<Rightarrow> Component list" where
  "piece s = (if s = [] \<or> s = ''.'' then [] else if s = ''..'' then [ParentDir] else [Normal s])"

definition path_components :: "string \<Rightarrow> Component list" where
  "path_components p =
    (let pieces = split_char slash p in
     (if is_absolute p then [RootDir] else if hd pieces = ''.'' then [CurDir] else []) @
     concat (map piece pieces))"

text \<open>A \<open>PathBuf\<close> built from components is written with slashes between them.\<close>

fun component_str :: "Component \<Rightarrow> string" where
  "component_str RootDir = []"
| "component_str CurDir = ''.''"
| "component_str ParentDir = ''..''"
| "component_str (Normal s) = s"

definition path_str :: "Component list \<Rightarrow> string" where
  "path_str cs = (if cs = [RootDir] then [slash] else join_with [slash] (map component_str cs))"

definition path_join :: "string \<Rightarrow> string \<Rightarrow> string" where
  "path_join base p =
    (if is_absolute p then p
     else if base = [] \<or> ends_with [slash] base then base @ p
     else base @ [slash] @ p)"

section \<open>Normalisation\<close>

text \<open>\<open>PathBuf::pop\<close> leaves a bare root alone; \<open>PathBuf::push\<close> of the root replaces the path.\<close>

definition pathbuf_pop :: "Component list \<Rightarrow> Component list" where
  "pathbuf_pop cs = (if cs = [RootDir] then cs else butlast cs)"

definition pathbuf_push :: "Component list \<Rightarrow> Component \<Rightarrow> Component list" where
  "pathbuf_push cs c = (if c = RootDir then [RootDir] else cs @ [c])"

fun normalize_step :: "Component list \<Rightarrow> Component \<Rightarrow> Component list" where
  "normalize_step cs CurDir = cs"
| "normalize_step cs ParentDir = pathbuf_pop cs"
| "normalize_step cs c = pathbuf_push cs c"

definition normalize_path :: "string \<Rightarrow> string" where
  "normalize_path path =
    (let normalized = foldl normalize_step [] (path_components path) in
     if normalized = [] then ''.'' else path_str normalized)"

definition path_with_base :: "string \<Rightarrow> string \<Rightarrow> string" where
  "path_with_base path base_path = (if is_absolute path then path else path_join base_path path)"

definition absolutize_from :: "string \<Rightarrow> string \<Rightarrow> string" where
  "absolutize_from path base_path = normalize_path (path_with_base path base_path)"

definition maybe_expand_home_directory :: "string option \<Rightarrow> string \<Rightarrow> string" where
  "maybe_expand_home_directory home path =
    (case (home, strip_prefix ''~'' path) of
       (Some home, Some rest) \<Rightarrow>
         if rest = [] then home
         else (case strip_prefix ''/'' rest of
            Some rest \<Rightarrow> path_join home (dropWhile (\<lambda>c. c = slash) rest)
          | None \<Rightarrow> path)
     | _ \<Rightarrow> path)"

definition resolve_path_against_base :: "string option \<Rightarrow> string \<Rightarrow> string \<Rightarrow> string" where
  "resolve_path_against_base home path base_path =
    absolutize_from (maybe_expand_home_directory home path) base_path"

text \<open>\<open>from_absolute_path\<close>; the process's current directory, which may be unavailable, is an argument.\<close>

definition absolutize :: "string option \<Rightarrow> string \<Rightarrow> string option" where
  "absolutize cwd path =
    (if is_absolute path then Some (normalize_path path) else map_option (absolutize_from path) cwd)"

definition from_absolute_path :: "string option \<Rightarrow> string option \<Rightarrow> string \<Rightarrow> string option" where
  "from_absolute_path home cwd path = absolutize cwd (maybe_expand_home_directory home path)"

definition path_file_name :: "string \<Rightarrow> string option" where
  "path_file_name path = (case last_opt (path_components path) of Some (Normal n) \<Rightarrow> Some n | _ \<Rightarrow> None)"

text \<open>\<open>AbsolutePathBuf::parent\<close>.\<close>

definition path_parent :: "string \<Rightarrow> string option" where
  "path_parent path =
    (let cs = path_components path in
     case last_opt cs of
       None \<Rightarrow> None
     | Some RootDir \<Rightarrow> None
     | Some _ \<Rightarrow> Some (path_str (butlast cs)))"

section \<open>Normal forms\<close>

text \<open>A component list that is the root followed by ordinary names.\<close>

definition name_ok :: "string \<Rightarrow> bool" where
  "name_ok s \<longleftrightarrow> s \<noteq> [] \<and> s \<noteq> ''.'' \<and> s \<noteq> ''..'' \<and> slash \<notin> set s"

definition normal_abs :: "Component list \<Rightarrow> bool" where
  "normal_abs cs \<longleftrightarrow> (\<exists>ns. cs = RootDir # map Normal ns \<and> (\<forall>n\<in>set ns. name_ok n))"

lemma split_char_no_sep: "s \<in> set (split_char c t) \<Longrightarrow> c \<notin> set s"
  by (induction t arbitrary: s) (auto split: list.splits if_splits)

lemma normalize_step_abs:
  assumes "normal_abs cs" "c = CurDir \<or> c = ParentDir \<or> c = RootDir \<or> (\<exists>n. c = Normal n \<and> name_ok n)"
  shows "normal_abs (normalize_step cs c)"
proof -
  obtain ns where cs: "cs = RootDir # map Normal ns" "\<forall>n\<in>set ns. name_ok n"
    using assms(1) by (auto simp: normal_abs_def)
  have pop: "normal_abs (pathbuf_pop cs)"
    using cs by (cases ns rule: rev_cases)
      (auto simp: normal_abs_def pathbuf_pop_def butlast_append intro: exI [of _ "[]"])
  have "normal_abs (cs @ [Normal n])" if "name_ok n" for n
    using cs that by (auto simp: normal_abs_def intro!: exI [of _ "ns @ [n]"])
  moreover have "normal_abs [RootDir]" by (auto simp: normal_abs_def)
  ultimately show ?thesis
    using assms pop by (auto simp: pathbuf_push_def)
qed

lemma components_shape:
  "c \<in> set (path_components p) \<Longrightarrow>
   c = CurDir \<or> c = ParentDir \<or> c = RootDir \<or> (\<exists>n. c = Normal n \<and> name_ok n)"
  by (auto simp: path_components_def name_ok_def Let_def split: if_splits dest: split_char_no_sep)

lemma foldl_normalize_abs:
  assumes "normal_abs cs"
    "\<forall>c\<in>set xs. c = CurDir \<or> c = ParentDir \<or> c = RootDir \<or> (\<exists>n. c = Normal n \<and> name_ok n)"
  shows "normal_abs (foldl normalize_step cs xs)"
  using assms by (induction xs arbitrary: cs) (simp_all add: normalize_step_abs)

lemma normalize_path_abs:
  assumes "is_absolute p"
  shows "\<exists>cs. normal_abs cs \<and> normalize_path p = path_str cs"
proof -
  let ?rest = "concat (map piece (split_char slash p))"
  have comps: "path_components p = RootDir # ?rest"
    using assms by (simp add: path_components_def)
  have "normal_abs (foldl normalize_step [RootDir] ?rest)"
    using components_shape [of _ p] comps by (intro foldl_normalize_abs) (auto simp: normal_abs_def simp del: piece.simps)
  moreover from this have "foldl normalize_step [RootDir] ?rest \<noteq> []" by (auto simp: normal_abs_def)
  ultimately show ?thesis
    by (auto simp: normalize_path_def comps pathbuf_push_def Let_def simp del: piece.simps)
qed

lemma path_str_root: "is_absolute (path_str (RootDir # map Normal ns))"
  by (cases ns) (simp_all add: path_str_def is_absolute_def starts_with_def join_with_Cons)

lemma components_path_str:
  assumes "normal_abs cs"
  shows "path_components (path_str cs) = cs"
proof -
  obtain ns where cs: "cs = RootDir # map Normal ns" and ok: "\<forall>n\<in>set ns. name_ok n"
    using assms by (auto simp: normal_abs_def)
  have pieces: "concat (map piece ns) = map Normal ns"
    using ok by (induction ns) (auto simp: name_ok_def)
  have "concat (map piece (split_char slash (path_str cs))) = map Normal ns"
  proof (cases "ns = []")
    case False
    have "split_char slash (join_with [slash] ([] # ns)) = [] # ns"
      using ok by (intro split_char_join) (auto simp: name_ok_def)
    with False cs pieces show ?thesis by (simp add: path_str_def comp_def)
  qed (simp add: cs path_str_def)
  with cs path_str_root [of ns] show ?thesis by (simp add: path_components_def)
qed

lemma foldl_normalize_normal:
  "foldl normalize_step cs (map Normal ns) = cs @ map Normal ns"
  by (induction ns arbitrary: cs) (simp_all add: pathbuf_push_def)

lemma normalize_path_normal:
  assumes "normal_abs cs"
  shows "normalize_path (path_str cs) = path_str cs"
proof -
  obtain ns where cs: "cs = RootDir # map Normal ns"
    using assms by (auto simp: normal_abs_def)
  have "foldl normalize_step [RootDir] (map Normal ns) = RootDir # map Normal ns"
    by (simp add: foldl_normalize_normal)
  then have "foldl normalize_step [] cs = cs" using cs by (simp add: pathbuf_push_def)
  moreover have "cs \<noteq> []" using cs by simp
  ultimately show ?thesis by (simp add: normalize_path_def components_path_str [OF assms])
qed

lemma is_absolute_append: "is_absolute b \<Longrightarrow> is_absolute (b @ p)"
  by (cases b) (auto simp: is_absolute_def starts_with_def)

lemma is_absolute_nonempty: "is_absolute b \<Longrightarrow> b \<noteq> []"
  by (auto simp: is_absolute_def starts_with_def)

lemma path_join_absolute: "is_absolute base \<Longrightarrow> is_absolute (path_join base p)"
  by (auto simp: path_join_def is_absolute_append)

lemma resolved_normal:
  assumes "is_absolute base"
  shows "\<exists>cs. normal_abs cs \<and> resolve_path_against_base home p base = path_str cs"
  unfolding resolve_path_against_base_def absolutize_from_def
  by (rule normalize_path_abs) (use assms in \<open>auto simp: path_with_base_def path_join_absolute\<close>)

lemma resolve_normal:
  assumes "normal_abs cs"
  shows "resolve_path_against_base home (path_str cs) base = path_str cs"
proof -
  obtain ns where cs: "cs = RootDir # map Normal ns"
    using assms by (auto simp: normal_abs_def)
  then have abs: "is_absolute (path_str cs)" by (simp add: path_str_root)
  then have "strip_prefix ''~'' (path_str cs) = None"
    by (cases "path_str cs") (auto simp: is_absolute_def starts_with_def slash_def)
  then have "maybe_expand_home_directory home (path_str cs) = path_str cs"
    by (simp add: maybe_expand_home_directory_def split: option.splits)
  with abs assms show ?thesis
    by (simp add: resolve_path_against_base_def absolutize_from_def path_with_base_def normalize_path_normal)
qed

section \<open>Paths with equal components\<close>

text \<open>The components of a path but for a leading \<open>.\<close>, which joining drops.\<close>

definition pieces :: "string \<Rightarrow> Component list" where
  "pieces p = concat (map piece (split_char slash p))"

lemma pieces_append: "pieces (a @ slash # b) = pieces a @ pieces b"
proof -
  have "split_char slash (a @ slash # b) = split_char slash a @ split_char slash b"
  proof (induction a)
    case (Cons c a)
    then show ?case by (cases "split_char slash a") (auto split: list.splits)
  qed simp
  then show ?thesis by (simp add: pieces_def)
qed

lemma pieces_Nil [simp]: "pieces [] = []"
  by (simp add: pieces_def)

lemma path_components_pieces:
  "path_components p = (if is_absolute p then [RootDir] else if hd (split_char slash p) = ''.'' then [CurDir] else []) @ pieces p"
  by (simp add: path_components_def pieces_def Let_def)

lemma pieces_no_CurDir: "c \<in> set (pieces p) \<Longrightarrow> c \<noteq> CurDir \<and> c \<noteq> RootDir"
  by (auto simp: pieces_def split: if_splits)

lemma pieces_eq: "path_components a = path_components b \<Longrightarrow> pieces a = pieces b \<and> is_absolute a = is_absolute b"
proof -
  assume *: "path_components a = path_components b"
  have drop: "pieces p = filter (\<lambda>c. c \<noteq> CurDir \<and> c \<noteq> RootDir) (path_components p)" for p
    using pieces_no_CurDir [of _ p] by (auto simp: path_components_pieces filter_id_conv)
  have "is_absolute p \<longleftrightarrow> RootDir \<in> set (path_components p)" for p
    using pieces_no_CurDir [of _ p] by (auto simp: path_components_pieces)
  with * drop show ?thesis by metis
qed

lemma pieces_join: "\<not> is_absolute p \<Longrightarrow> pieces (path_join base p) = pieces base @ pieces p"
proof -
  assume p: "\<not> is_absolute p"
  consider "base = []" | b where "base = b @ [slash]" | "base \<noteq> []" "\<not> ends_with [slash] base"
    by (auto simp: ends_with_iff_suffix)
  then show ?thesis
  proof cases
    case (2 b)
    then have "path_join base p = b @ slash # p" "base = b @ slash # []"
      using p by (auto simp: path_join_def ends_with_iff_suffix)
    then show ?thesis by (simp add: pieces_append)
  qed (use p in \<open>auto simp: path_join_def pieces_append\<close>)
qed

lemma normalize_path_pieces:
  assumes "is_absolute a" "is_absolute b" "pieces a = pieces b"
  shows "normalize_path a = normalize_path b"
  using assms by (simp add: normalize_path_def path_components_pieces)

lemma absolutize_from_pieces:
  assumes "is_absolute base" "pieces a = pieces b" "is_absolute a = is_absolute b"
  shows "absolutize_from a base = absolutize_from b base"
  using assms by (auto simp: absolutize_from_def path_with_base_def path_join_absolute pieces_join intro!: normalize_path_pieces)

lemma tilde_components:
  "(\<exists>P. path_components a = Normal ''~'' # P) \<longleftrightarrow> a = ''~'' \<or> (\<exists>r. a = CHR ''~'' # slash # r)"
proof
  assume "\<exists>P. path_components a = Normal ''~'' # P"
  then obtain P where P: "path_components a = Normal ''~'' # P" by blast
  obtain x xs where x: "split_char slash a = x # xs" by (cases "split_char slash a") auto
  have na: "\<not> is_absolute a" "x \<noteq> ''.''" using P x by (auto simp: path_components_def Let_def split: if_splits)
  have join: "a = join_with [slash] (x # xs)" using join_split_char [of slash a] x by simp
  have "x \<noteq> []"
  proof
    assume "x = []"
    with join na(1) have "a = []" by (cases xs) (auto simp: is_absolute_def starts_with_def)
    with P show False by (simp add: path_components_def is_absolute_def)
  qed
  with P x na have "x = ''~''" by (auto simp: path_components_def Let_def split: if_splits)
  with join show "a = ''~'' \<or> (\<exists>r. a = CHR ''~'' # slash # r)" by (cases xs) auto
next
  have "piece ''~'' = [Normal ''~'']" by simp
  moreover assume "a = ''~'' \<or> (\<exists>r. a = CHR ''~'' # slash # r)"
  ultimately show "\<exists>P. path_components a = Normal ''~'' # P"
    by (auto simp: path_components_def Let_def is_absolute_def slash_def simp del: piece.simps)
qed

lemma pieces_dropWhile_slash: "pieces (dropWhile (\<lambda>c. c = slash) r) = pieces r"
proof (induction r)
  case (Cons c r)
  have "pieces (slash # r) = pieces r" using pieces_append [of "[]" r] by simp
  with Cons show ?case by auto
qed simp

lemma dropWhile_slash_relative: "\<not> is_absolute (dropWhile (\<lambda>c. c = slash) r)"
  by (induction r) (auto simp: is_absolute_def)

lemma expand_home_pieces:
  assumes "is_absolute h" "path_components a = Normal ''~'' # P"
  shows "is_absolute (maybe_expand_home_directory (Some h) a) \<and>
    pieces (maybe_expand_home_directory (Some h) a) = pieces h @ tl (pieces a)"
proof -
  have "\<exists>P. path_components a = Normal ''~'' # P" using assms(2) by blast
  then consider "a = ''~''" | r where "a = CHR ''~'' # slash # r" unfolding tilde_components by blast
  then show ?thesis
  proof cases
    case 1
    then show ?thesis using assms(1) by (simp add: maybe_expand_home_directory_def pieces_def slash_def)
  next
    case (2 r)
    have "pieces ''~'' = [Normal ''~'']" by (simp add: pieces_def slash_def)
    then have "pieces a = Normal ''~'' # pieces r" using 2 pieces_append [of "''~''" r] by simp
    moreover have "maybe_expand_home_directory (Some h) a = path_join h (dropWhile (\<lambda>c. c = slash) r)"
      using 2 by (simp add: maybe_expand_home_directory_def slash_def)
    ultimately show ?thesis
      using assms(1) by (simp add: path_join_absolute pieces_join dropWhile_slash_relative pieces_dropWhile_slash)
  qed
qed

lemma expand_home_other:
  "\<nexists>P. path_components a = Normal ''~'' # P \<Longrightarrow> maybe_expand_home_directory home a = a"
  unfolding tilde_components
  by (cases a) (auto simp: maybe_expand_home_directory_def slash_def strip_prefix_Some_iff split: option.splits)

lemma resolve_path_components:
  assumes "path_components a = path_components b" "is_absolute base" "\<And>h. home = Some h \<Longrightarrow> is_absolute h"
  shows "resolve_path_against_base home a base = resolve_path_against_base home b base"
proof -
  note eq = pieces_eq [OF assms(1)]
  have "pieces (maybe_expand_home_directory home a) = pieces (maybe_expand_home_directory home b) \<and>
      is_absolute (maybe_expand_home_directory home a) = is_absolute (maybe_expand_home_directory home b)"
  proof (cases "home = None \<or> (\<nexists>P. path_components a = Normal ''~'' # P)")
    case True
    then show ?thesis
      using eq expand_home_other [of a home] expand_home_other [of b home] assms(1)
      by (auto simp: maybe_expand_home_directory_def)
  next
    case False
    then obtain h P where "home = Some h" "path_components a = Normal ''~'' # P" by auto
    then show ?thesis
      using expand_home_pieces [of h a P] expand_home_pieces [of h b P] assms eq by simp
  qed
  then show ?thesis
    unfolding resolve_path_against_base_def using assms(2) by (intro absolutize_from_pieces) auto
qed

section \<open>Properties\<close>

text \<open>C40: Resolving any path against an absolute base gives the root followed by ordinary names, with no
  \<open>.\<close>, \<open>..\<close> or empty component, and resolving the result again, against any base, changes nothing.\<close>

theorem resolve_path_normal_form:
  assumes "is_absolute base"
  shows "normal_abs (path_components (resolve_path_against_base home p base)) \<and>
    resolve_path_against_base home' (resolve_path_against_base home p base) base' =
      resolve_path_against_base home p base"
  using resolved_normal [OF assms, of home p] resolve_normal components_path_str by fastforce

theorem resolve_path_normal_form_witness:
  "is_absolute ''/repo/x'' \<and> resolve_path_against_base None ''.././a//b/'' ''/repo/x'' = ''/repo/a/b'' \<and>
   normal_abs (path_components ''/repo/a/b'')"
proof -
  have abs: "is_absolute ''/repo/x''" by code_simp
  moreover have "resolve_path_against_base None ''.././a//b/'' ''/repo/x'' = ''/repo/a/b''" by code_simp
  ultimately show ?thesis
    using resolve_path_normal_form [OF abs, of None "''.././a//b/''" None "[]"] by simp
qed

end
