(* ===== verification/Utf8.thy ===== *)
theory Utf8
  imports Rust_Str
begin

text \<open>
  UTF-8 validation as the standard library's \<open>str::from_utf8\<close> does it: the length of the longest
  valid prefix, and for the byte after it whether it is wrong (and how many bytes to skip) or
  whether the input merely ends inside a code point.
\<close>

section \<open>One code point\<close>

definition byte_in :: "nat \<Rightarrow> nat \<Rightarrow> char \<Rightarrow> bool" where
  "byte_in lo hi c \<longleftrightarrow> lo \<le> of_char c \<and> of_char c \<le> hi"

abbreviation cont_byte :: "char \<Rightarrow> bool" where
  "cont_byte \<equiv> byte_in 0x80 0xBF"

text \<open>\<open>utf8_char_width\<close>: 0 for a byte that starts no code point.\<close>

definition utf8_char_width :: "char \<Rightarrow> nat" where
  "utf8_char_width c =
    (if byte_in 0 0x7F c then 1
     else if byte_in 0xC2 0xDF c then 2
     else if byte_in 0xE0 0xEF c then 3
     else if byte_in 0xF0 0xF4 c then 4
     else 0)"

text \<open>The second byte that may follow a lead byte.\<close>

definition second_ok :: "char \<Rightarrow> char \<Rightarrow> bool" where
  "second_ok a b =
    (if a = CHR 0xE0 then byte_in 0xA0 0xBF b
     else if a = CHR 0xED then byte_in 0x80 0x9F b
     else if a = CHR 0xF0 then byte_in 0x90 0xBF b
     else if a = CHR 0xF4 then byte_in 0x80 0x8F b
     else cont_byte b)"

datatype utf8_step = Chr nat | Bad nat | Cut

text \<open>The first code point of a non-empty input: its width, the \<open>error_len\<close> of a wrong sequence, or
  \<open>Cut\<close> when the input ends too early.\<close>

fun next_char :: "char \<Rightarrow> string \<Rightarrow> utf8_step" where
  "next_char a r =
    (let w = utf8_char_width a in
     if w = 1 then Chr 1
     else if w = 0 then Bad 1
     else (case r of
        [] \<Rightarrow> Cut
      | b # r2 \<Rightarrow>
         if \<not> second_ok a b then Bad 1
         else if w = 2 then Chr 2
         else (case r2 of
            [] \<Rightarrow> Cut
          | c # r3 \<Rightarrow>
             if \<not> cont_byte c then Bad 2
             else if w = 3 then Chr 3
             else (case r3 of
                [] \<Rightarrow> Cut
              | d # _ \<Rightarrow> if \<not> cont_byte d then Bad 3 else Chr 4))))"

declare next_char.simps [simp del]

lemma next_char_Chr: "next_char a r = Chr n \<Longrightarrow> 0 < n \<and> n \<le> Suc (length r)"
  by (auto simp: next_char.simps Let_def split: if_splits list.splits)

lemma next_char_Bad: "next_char a r = Bad n \<Longrightarrow> 0 < n \<and> n \<le> Suc (length r)"
  by (auto simp: next_char.simps Let_def split: if_splits list.splits)

lemma next_char_append:
  "next_char a r \<noteq> Cut \<Longrightarrow> next_char a (r @ s) = next_char a r"
  by (cases r; cases "tl r"; cases "tl (tl r)") (simp_all add: next_char.simps Let_def split: if_splits)

lemma next_char_Chr_take: "next_char a r = Chr n \<Longrightarrow> next_char a (take (n - 1) r) = Chr n"
  by (cases r; cases "tl r"; cases "tl (tl r)")
    (auto simp: next_char.simps Let_def split: if_splits)

lemma next_char_Cut_short: "next_char a r = Cut \<Longrightarrow> length r < 3"
  by (auto simp: next_char.simps Let_def split: if_splits list.splits)

section \<open>Validation\<close>

text \<open>\<open>Utf8Valid\<close>, or \<open>Utf8Error valid_up_to error_len\<close>.\<close>

datatype utf8_result = Utf8Valid | Utf8Error nat "nat option"

function from_utf8 :: "string \<Rightarrow> utf8_result" where
  "from_utf8 [] = Utf8Valid"
| "from_utf8 (a # r) =
    (case next_char a r of
       Chr n \<Rightarrow>
         (case from_utf8 (drop (n - 1) r) of
            Utf8Valid \<Rightarrow> Utf8Valid
          | Utf8Error k e \<Rightarrow> Utf8Error (n + k) e)
     | Bad n \<Rightarrow> Utf8Error 0 (Some n)
     | Cut \<Rightarrow> Utf8Error 0 None)"
  by pat_completeness auto
termination
  by (relation "measure length") auto

text \<open>\<open>str::chars\<close>: the code points of a text, each as its bytes.  A byte that starts no complete
  code point stands alone, which a \<open>str\<close> never contains.\<close>

function utf8_chars :: "string \<Rightarrow> string list" where
  "utf8_chars [] = []"
| "utf8_chars (a # r) =
    (case next_char a r of
       Chr n \<Rightarrow> (a # take (n - 1) r) # utf8_chars (drop (n - 1) r)
     | _ \<Rightarrow> [a] # utf8_chars r)"
  by pat_completeness auto
termination
  by (relation "measure length") auto

definition is_char_boundary :: "string \<Rightarrow> nat \<Rightarrow> bool" where
  "is_char_boundary s k \<longleftrightarrow> k = 0 \<or> k = length s \<or> (k < length s \<and> \<not> cont_byte (s ! k))"

text \<open>\<open>str::get\<close> with an open range: nothing when the cut is no character boundary.\<close>

definition str_get_to :: "nat \<Rightarrow> string \<Rightarrow> string option" where
  "str_get_to k s = (if is_char_boundary s k then Some (take k s) else None)"

definition str_get_from :: "nat \<Rightarrow> string \<Rightarrow> string option" where
  "str_get_from k s = (if is_char_boundary s k then Some (drop k s) else None)"

section \<open>Facts\<close>

lemma concat_utf8_chars [simp]: "concat (utf8_chars s) = s"
  by (induction s rule: utf8_chars.induct) (auto split: utf8_step.splits)

lemma utf8_chars_nonempty: "c \<in> set (utf8_chars s) \<Longrightarrow> c \<noteq> []"
  by (induction s rule: utf8_chars.induct) (auto split: utf8_step.splits)

definition shift_error :: "nat \<Rightarrow> utf8_result \<Rightarrow> utf8_result" where
  "shift_error n r = (case r of Utf8Valid \<Rightarrow> Utf8Valid | Utf8Error k e \<Rightarrow> Utf8Error (n + k) e)"

lemma shift_error_simps [simp]:
  "shift_error n Utf8Valid = Utf8Valid"
  "shift_error n (Utf8Error k e) = Utf8Error (n + k) e"
  "shift_error n (shift_error m r) = shift_error (n + m) r"
  "shift_error n r = Utf8Valid \<longleftrightarrow> r = Utf8Valid"
  by (auto simp: shift_error_def split: utf8_result.splits)

lemma from_utf8_Chr:
  "next_char a r = Chr n \<Longrightarrow> from_utf8 (a # r) = shift_error n (from_utf8 (drop (n - 1) r))"
  by (simp add: shift_error_def)

lemma from_utf8_valid_append:
  "from_utf8 s = Utf8Valid \<Longrightarrow> from_utf8 (s @ t) = shift_error (length s) (from_utf8 t)"
proof (induction s rule: from_utf8.induct)
  case 1
  then show ?case by (simp add: shift_error_def split: utf8_result.splits)
next
  case (2 a r)
  then obtain n where n: "next_char a r = Chr n"
    by (auto split: utf8_step.splits)
  with next_char_append [of a r t] next_char_Chr [OF n]
  have "next_char a (r @ t) = Chr n" "n - 1 \<le> length r" "0 < n" by auto
  moreover from 2 n have "from_utf8 (drop (n - 1) r @ t) = shift_error (length (drop (n - 1) r)) (from_utf8 t)"
    by (auto split: utf8_result.splits)
  ultimately show ?case by (simp add: from_utf8_Chr del: from_utf8.simps)
qed

lemma from_utf8_error_append:
  "from_utf8 s = Utf8Error k (Some n) \<Longrightarrow> from_utf8 (s @ t) = Utf8Error k (Some n)"
proof (induction s arbitrary: k rule: from_utf8.induct)
  case (2 a r)
  show ?case
  proof (cases "next_char a r")
    case (Chr m)
    with next_char_append [of a r t] next_char_Chr [OF Chr] 2 show ?thesis
      by (auto split: utf8_result.splits)
  qed (use 2 next_char_append [of a r t] in auto)
qed simp

lemma from_utf8_error_prefix:
  "from_utf8 s = Utf8Error k e \<Longrightarrow>
   k < length s \<and> from_utf8 (take k s) = Utf8Valid \<and>
   from_utf8 (drop k s) = Utf8Error 0 e"
proof (induction s arbitrary: k rule: from_utf8.induct)
  case (2 a r)
  show ?case
  proof (cases "next_char a r")
    case (Chr n)
    then obtain j where j: "from_utf8 (drop (n - 1) r) = Utf8Error j e" and k: "k = n + j"
      using 2 by (auto split: utf8_result.splits)
    from 2 Chr j have IH: "j < length (drop (n - 1) r)" "from_utf8 (take j (drop (n - 1) r)) = Utf8Valid"
      "from_utf8 (drop j (drop (n - 1) r)) = Utf8Error 0 e" by blast+
    obtain m where m: "n = Suc m" using next_char_Chr [OF Chr] by (cases n) auto
    have "next_char a (take (m + j) r) = Chr n"
      using next_char_Chr_take [OF Chr] next_char_append [of a "take m r" "take j (drop m r)"] m
      by (simp add: take_add)
    then have "from_utf8 (take k (a # r)) = Utf8Valid"
      using IH m k by (simp add: from_utf8_Chr drop_take del: from_utf8.simps)
    with IH m k show ?thesis by (simp add: add.commute)
  qed (use 2 in auto)
qed simp

lemma from_utf8_cut_short: "from_utf8 s = Utf8Error 0 None \<Longrightarrow> length s \<le> 3"
  by (cases s) (auto split: utf8_step.splits utf8_result.splits dest: next_char_Chr next_char_Cut_short)

text \<open>A text may be cut before an ASCII byte.\<close>

lemma ascii_not_cont: "is_ascii a \<Longrightarrow> \<not> cont_byte a \<and> \<not> second_ok b a"
  by (auto simp: is_ascii_def second_ok_def byte_in_def split: if_splits)

lemma next_char_Cut_ascii:
  "next_char b r = Cut \<Longrightarrow> is_ascii a \<Longrightarrow> \<exists>n. next_char b (r @ a # y) = Bad n"
  by (cases r; cases "tl r"; cases "tl (tl r)")
    (auto simp: next_char.simps Let_def ascii_not_cont split: if_splits)

lemma from_utf8_before_ascii:
  assumes "from_utf8 (x @ a # y) = Utf8Valid" "is_ascii a"
  shows "from_utf8 x = Utf8Valid"
proof (cases "from_utf8 x")
  case (Utf8Error k e)
  show ?thesis
  proof (cases e)
    case (Some n)
    with Utf8Error from_utf8_error_append assms(1) show ?thesis by fastforce
  next
    case None
    with from_utf8_error_prefix [OF Utf8Error]
    have v: "from_utf8 (take k x) = Utf8Valid" and d: "from_utf8 (drop k x) = Utf8Error 0 None" by auto
    then obtain b r where br: "drop k x = b # r" "next_char b r = Cut"
      by (cases "drop k x") (auto split: utf8_step.splits utf8_result.splits dest: next_char_Chr)
    have "x @ a # y = take k x @ b # r @ a # y"
      using br(1) append_take_drop_id [of k x] by (metis append_Cons append_assoc)
    then have "from_utf8 (x @ a # y) = shift_error (length (take k x)) (from_utf8 (b # r @ a # y))"
      by (metis from_utf8_valid_append [OF v])
    with next_char_Cut_ascii [OF br(2) assms(2), of y] assms(1) show ?thesis by auto
  qed
qed

end
