(* ===== verification/Seek_Sequence.thy ===== *)
theory Seek_Sequence
  imports Rust_Str
begin

text \<open>
  Locating a chunk's lines in a file (apply-patch/src/seek_sequence.rs): four passes of
  decreasing strictness over the same range of start positions.
\<close>

section \<open>Normalised lines\<close>

text \<open>
  The replacement of typographic code points by ASCII ones, on the UTF-8 bytes: the code
  points concerned are the two-byte U+00A0 and three-byte sequences, and no byte of theirs
  but the first starts a code point.
\<close>

definition norm2 :: "char \<Rightarrow> char \<Rightarrow> bool" where
  "norm2 a b \<longleftrightarrow> a = CHR 0xC2 \<and> b = CHR 0xA0"

definition norm3 :: "char \<Rightarrow> char \<Rightarrow> char \<Rightarrow> char option" where
  "norm3 a b c =
    (let n = of_char c :: nat in
     if a = CHR 0xE2 \<and> b = CHR 0x80 then
       (if 0x90 \<le> n \<and> n \<le> 0x95 then Some (CHR ''-'')
        else if 0x98 \<le> n \<and> n \<le> 0x9B then Some (CHR 0x27)
        else if 0x9C \<le> n \<and> n \<le> 0x9F then Some (CHR 0x22)
        else if 0x82 \<le> n \<and> n \<le> 0x8A \<or> n = 0xAF then Some (CHR '' '')
        else None)
     else if a = CHR 0xE2 \<and> b = CHR 0x88 \<and> n = 0x92 then Some (CHR ''-'')
     else if a = CHR 0xE2 \<and> b = CHR 0x81 \<and> n = 0x9F then Some (CHR '' '')
     else if a = CHR 0xE3 \<and> b = CHR 0x80 \<and> n = 0x80 then Some (CHR '' '')
     else None)"

fun norm_chars :: "string \<Rightarrow> string" where
  "norm_chars (a # b # c # r) =
    (case norm3 a b c of
       Some x \<Rightarrow> x # norm_chars r
     | None \<Rightarrow> if norm2 a b then CHR '' '' # norm_chars (c # r) else a # norm_chars (b # c # r))"
| "norm_chars [a, b] = (if norm2 a b then [CHR '' ''] else [a, b])"
| "norm_chars s = s"

definition normalise :: "string \<Rightarrow> string" where
  "normalise s = norm_chars (trim s)"

section \<open>The search\<close>

text \<open>One pass: the first start position in \<open>lo..=len - pattern.len()\<close> at which every pattern
  line equals the file's line under the projection \<open>f\<close>.\<close>

definition match_at :: "(string \<Rightarrow> string) \<Rightarrow> string list \<Rightarrow> string list \<Rightarrow> nat \<Rightarrow> bool" where
  "match_at f lines pattern i \<longleftrightarrow> map f (take (length pattern) (drop i lines)) = map f pattern"

definition seek_pass :: "(string \<Rightarrow> string) \<Rightarrow> string list \<Rightarrow> string list \<Rightarrow> nat \<Rightarrow> nat option" where
  "seek_pass f lines pattern lo =
    find (match_at f lines pattern) [lo..<Suc (length lines - length pattern)]"

definition seek_sequence :: "string list \<Rightarrow> string list \<Rightarrow> nat \<Rightarrow> bool \<Rightarrow> nat option" where
  "seek_sequence lines pattern start eof =
    (if pattern = [] then Some start
     else if length lines < length pattern then None
     else (let search_start = (if eof \<and> length pattern \<le> length lines then length lines - length pattern else start) in
       case seek_pass id lines pattern search_start of
         Some i \<Rightarrow> Some i
       | None \<Rightarrow>
      (case seek_pass trim_end lines pattern search_start of
         Some i \<Rightarrow> Some i
       | None \<Rightarrow>
      (case seek_pass trim lines pattern search_start of
         Some i \<Rightarrow> Some i
       | None \<Rightarrow> seek_pass normalise lines pattern search_start))))"

section \<open>Facts\<close>

lemma find_upt_Some_iff:
  "find P [a..<b] = Some i \<longleftrightarrow> a \<le> i \<and> i < b \<and> P i \<and> (\<forall>j. a \<le> j \<and> j < i \<longrightarrow> \<not> P j)"
proof
  assume "find P [a..<b] = Some i"
  then obtain k where k: "k < length [a..<b]" "P ([a..<b] ! k)" "i = [a..<b] ! k"
    and min: "\<forall>j<k. \<not> P ([a..<b] ! j)"
    by (auto simp: find_Some_iff)
  from k have "i = a + k" "a + k < b" by auto
  moreover have "\<not> P j" if "a \<le> j" "j < a + k" for j
    using min [rule_format, of "j - a"] that \<open>a + k < b\<close> by (simp add: less_diff_conv2)
  ultimately show "a \<le> i \<and> i < b \<and> P i \<and> (\<forall>j. a \<le> j \<and> j < i \<longrightarrow> \<not> P j)"
    using k by auto
next
  assume *: "a \<le> i \<and> i < b \<and> P i \<and> (\<forall>j. a \<le> j \<and> j < i \<longrightarrow> \<not> P j)"
  then show "find P [a..<b] = Some i"
    by (auto simp: find_Some_iff intro!: exI [of _ "i - a"])
qed

lemma find_upt_None_iff: "find P [a..<b] = None \<longleftrightarrow> (\<forall>j. a \<le> j \<and> j < b \<longrightarrow> \<not> P j)"
  by (auto simp: find_None_iff)

lemma seek_pass_Some_iff:
  "length pattern \<le> length lines \<Longrightarrow> seek_pass f lines pattern lo = Some i \<longleftrightarrow>
    lo \<le> i \<and> i + length pattern \<le> length lines \<and> match_at f lines pattern i \<and>
    (\<forall>j. lo \<le> j \<and> j < i \<longrightarrow> \<not> match_at f lines pattern j)"
  unfolding seek_pass_def find_upt_Some_iff by auto

lemma seek_pass_None_iff:
  "length pattern \<le> length lines \<Longrightarrow> seek_pass f lines pattern lo = None \<longleftrightarrow>
    (\<forall>j. lo \<le> j \<and> j + length pattern \<le> length lines \<longrightarrow> \<not> match_at f lines pattern j)"
  unfolding seek_pass_def find_upt_None_iff by auto

text \<open>The four notions of equality of lines, strictest first.\<close>

definition strictness :: "(string \<Rightarrow> string) list" where
  "strictness = [id, trim_end, trim, normalise]"

text \<open>A pattern matches at \<open>i\<close> under one of the four.\<close>

definition fuzzy_match_at :: "string list \<Rightarrow> string list \<Rightarrow> nat \<Rightarrow> bool" where
  "fuzzy_match_at lines pattern i \<longleftrightarrow> (\<exists>f\<in>set strictness. match_at f lines pattern i)"

lemma seek_sequence_bounds:
  assumes "seek_sequence lines pattern start eof = Some i" "start \<le> length lines"
  shows "i + length pattern \<le> length lines \<and> (eof \<or> pattern = [] \<or> start \<le> i) \<and> fuzzy_match_at lines pattern i"
proof (cases "pattern = []")
  case True
  then show ?thesis using assms by (auto simp: seek_sequence_def fuzzy_match_at_def strictness_def match_at_def)
next
  case False
  with assms have len: "length pattern \<le> length lines" by (auto simp: seek_sequence_def split: if_splits)
  with False assms show ?thesis
    by (auto simp: seek_sequence_def Let_def seek_pass_Some_iff fuzzy_match_at_def strictness_def
        split: if_splits option.splits)
qed

section \<open>Properties\<close>

text \<open>C35: Without the end-of-file flag, a search for a non-empty pattern returns the leftmost position, from the
  search start on, at which the pattern matches under the strictest of the four equalities that matches
  anywhere; it fails only if the pattern matches nowhere under any of them.\<close>

theorem seek_sequence_strictest:
  assumes "pattern \<noteq> []"
  shows "case seek_sequence lines pattern start False of
      None \<Rightarrow> \<forall>f\<in>set strictness. \<forall>j\<ge>start. j + length pattern \<le> length lines \<longrightarrow> \<not> match_at f lines pattern j
    | Some i \<Rightarrow> start \<le> i \<and> i + length pattern \<le> length lines \<and>
        (\<exists>k<4. match_at (strictness ! k) lines pattern i \<and>
           (\<forall>j. start \<le> j \<and> j < i \<longrightarrow> \<not> match_at (strictness ! k) lines pattern j) \<and>
           (\<forall>k'<k. \<forall>j\<ge>start. j + length pattern \<le> length lines \<longrightarrow> \<not> match_at (strictness ! k') lines pattern j))"
proof (cases "length pattern \<le> length lines")
  case True
  note passes = seek_pass_Some_iff [OF True] seek_pass_None_iff [OF True]
  have seek: "seek_sequence lines pattern start False =
     (case seek_pass id lines pattern start of Some i \<Rightarrow> Some i
      | None \<Rightarrow> (case seek_pass trim_end lines pattern start of Some i \<Rightarrow> Some i
      | None \<Rightarrow> (case seek_pass trim lines pattern start of Some i \<Rightarrow> Some i
      | None \<Rightarrow> seek_pass normalise lines pattern start)))"
    using assms True by (simp add: seek_sequence_def Let_def)
  have four: "(\<exists>k<4. P k) \<longleftrightarrow> P 0 \<or> P 1 \<or> P 2 \<or> P (3::nat)" for P
    by (auto simp: numeral_eq_Suc less_Suc_eq)
  have below: "(\<forall>k<1. P k) \<longleftrightarrow> P 0" "(\<forall>k<2. P k) \<longleftrightarrow> P 0 \<and> P 1"
    "(\<forall>k<3. P k) \<longleftrightarrow> P 0 \<and> P 1 \<and> P (2::nat)" for P
    by (auto simp: numeral_eq_Suc less_Suc_eq)
  have level: "strictness ! 0 = id" "strictness ! 1 = trim_end" "strictness ! 2 = trim" "strictness ! 3 = normalise"
    by (simp_all add: strictness_def numeral_eq_Suc)
  show ?thesis
    unfolding seek four below level
    by (auto simp: passes strictness_def split: option.splits)
next
  case False
  with assms have "seek_sequence lines pattern start False = None" by (simp add: seek_sequence_def)
  with False show ?thesis by simp
qed

theorem seek_sequence_strictest_witness:
  "seek_sequence [''x'', ''a '', ''b'', ''a'', ''b''] [''a'', ''b''] 0 False = Some 3 \<and>
   (\<exists>k<4. match_at (strictness ! k) [''x'', ''a '', ''b'', ''a'', ''b''] [''a'', ''b''] 3)"
proof -
  have "seek_sequence [''x'', ''a '', ''b'', ''a'', ''b''] [''a'', ''b''] 0 False = Some 3" by code_simp
  with seek_sequence_strictest [where pattern = "[''a'', ''b'']" and lines = "[''x'', ''a '', ''b'', ''a'', ''b'']" and start = 0]
  show ?thesis by auto
qed

text \<open>With the end-of-file flag the only candidate is the position that ends the file.\<close>

lemma seek_sequence_eof:
  assumes "pattern \<noteq> []" "length pattern \<le> length lines"
  shows "seek_sequence lines pattern start True = seek_sequence lines pattern (length lines - length pattern) False"
  using assms by (simp add: seek_sequence_def Let_def)

end
