(* ===== verification/Patch_Replace.thy ===== *)
theory Patch_Replace
  imports Patch_Parser Seek_Sequence
begin

text \<open>
  The line edits of an update hunk (apply-patch/src/lib.rs): where each chunk applies, and the
  in-place replacement of the lines found.  \<open>Vec::insert\<close> panics past the end, so the edit is a
  partial function here and its success is a theorem.
\<close>

section \<open>Operations\<close>

datatype io_error_kind =
    NotFound | InvalidInput | InvalidData | IsADirectory | NotADirectory | AlreadyExists | DirectoryNotEmpty | Other

datatype io_error = IoErr io_error_kind string

datatype ApplyPatchError =
    PatchParseError ParseError
  | IoError string io_error
  | ComputeReplacements string
  | ImplicitInvocation

text \<open>A replacement \<open>(start_index, old_len, new_lines)\<close>.\<close>

type_synonym replacement = "nat \<times> nat \<times> string list"

definition msg_context :: "string \<Rightarrow> string \<Rightarrow> string" where
  "msg_context ctx path = ''Failed to find context '' @ quoted ctx @ '' in '' @ path"

definition msg_lines :: "string \<Rightarrow> string list \<Rightarrow> string" where
  "msg_lines path ls = ''Failed to find expected lines in '' @ path @ '':'' @ [LF] @ join_with [LF] ls"

definition ends_empty :: "string list \<Rightarrow> bool" where
  "ends_empty ls \<longleftrightarrow> ls \<noteq> [] \<and> last ls = []"

definition insertion_idx :: "string list \<Rightarrow> nat" where
  "insertion_idx original_lines =
    (if ends_empty original_lines then length original_lines - 1 else length original_lines)"

text \<open>The lines searched for, the lines to insert and the position found, after the retry without
  the trailing empty line.\<close>

definition locate_chunk :: "string list \<Rightarrow> UpdateFileChunk \<Rightarrow> nat \<Rightarrow> string list \<times> string list \<times> nat option" where
  "locate_chunk original_lines chunk line_index =
    (let pattern = old_lines chunk;
         found = seek_sequence original_lines pattern line_index (is_end_of_file chunk);
         new_slice = new_lines chunk in
     if found = None \<and> ends_empty pattern
     then (let pattern' = butlast pattern;
               new_slice' = (if ends_empty new_slice then butlast new_slice else new_slice) in
           (pattern', new_slice', seek_sequence original_lines pattern' line_index (is_end_of_file chunk)))
     else (pattern, new_slice, found))"

text \<open>The line to continue from once the chunk's context line, if any, has been found.\<close>

definition seek_context :: "string list \<Rightarrow> string \<Rightarrow> UpdateFileChunk \<Rightarrow> nat \<Rightarrow> (ApplyPatchError, nat) result" where
  "seek_context original_lines path chunk line_index =
    (case change_context chunk of
       None \<Rightarrow> Ok line_index
     | Some ctx_line \<Rightarrow>
         (case seek_sequence original_lines [ctx_line] line_index False of
            Some idx \<Rightarrow> Ok (idx + 1)
          | None \<Rightarrow> Err (ComputeReplacements (msg_context ctx_line path))))"

fun replacements_loop ::
  "string list \<Rightarrow> string \<Rightarrow> UpdateFileChunk list \<Rightarrow> nat \<Rightarrow> replacement list \<Rightarrow> (ApplyPatchError, replacement list) result" where
  "replacements_loop original_lines path [] line_index replacements = Ok replacements"
| "replacements_loop original_lines path (chunk # chunks) line_index replacements =
    (case seek_context original_lines path chunk line_index of
       Err e \<Rightarrow> Err e
     | Ok line_index \<Rightarrow>
         if old_lines chunk = []
         then replacements_loop original_lines path chunks line_index
                (replacements @ [(insertion_idx original_lines, 0, new_lines chunk)])
         else (case locate_chunk original_lines chunk line_index of
            (pattern, new_slice, Some start_idx) \<Rightarrow>
              replacements_loop original_lines path chunks (start_idx + length pattern)
                (replacements @ [(start_idx, length pattern, new_slice)])
          | (pattern, new_slice, None) \<Rightarrow> Err (ComputeReplacements (msg_lines path (old_lines chunk)))))"

definition compute_replacements ::
  "string list \<Rightarrow> string \<Rightarrow> UpdateFileChunk list \<Rightarrow> (ApplyPatchError, replacement list) result" where
  "compute_replacements original_lines path chunks =
    map_sum id (sort_key fst) (replacements_loop original_lines path chunks 0 [])"

primrec remove_lines :: "nat \<Rightarrow> nat \<Rightarrow> string list \<Rightarrow> string list" where
  "remove_lines start_idx 0 lines = lines"
| "remove_lines start_idx (Suc n) lines =
    remove_lines start_idx n (if start_idx < length lines then vec_remove start_idx lines else lines)"

fun insert_lines :: "nat \<Rightarrow> string list \<Rightarrow> string list \<Rightarrow> string list option" where
  "insert_lines i [] lines = Some lines"
| "insert_lines i (l # ls) lines = Option.bind (vec_insert i l lines) (insert_lines (i + 1) ls)"

fun apply_one :: "replacement \<Rightarrow> string list \<Rightarrow> string list option" where
  "apply_one (start_idx, old_len, new_segment) lines =
    insert_lines start_idx new_segment (remove_lines start_idx old_len lines)"

fun apply_each :: "replacement list \<Rightarrow> string list \<Rightarrow> string list option" where
  "apply_each [] lines = Some lines"
| "apply_each (r # rs) lines = Option.bind (apply_one r lines) (apply_each rs)"

definition apply_replacements :: "string list \<Rightarrow> replacement list \<Rightarrow> string list option" where
  "apply_replacements lines replacements = apply_each (rev replacements) lines"

text \<open>The text part of \<open>derive_new_contents_from_chunks\<close>; the edit never panics there
  (\<open>apply_replacements_total\<close>).\<close>

definition new_contents_from_chunks :: "string \<Rightarrow> string \<Rightarrow> UpdateFileChunk list \<Rightarrow> (ApplyPatchError, string) result" where
  "new_contents_from_chunks original_contents path chunks =
    (let split_lines = split_char LF original_contents;
         original_lines = (if ends_empty split_lines then butlast split_lines else split_lines) in
     case compute_replacements original_lines path chunks of
       Err e \<Rightarrow> Err e
     | Ok replacements \<Rightarrow>
         (let new_lines = the (apply_replacements original_lines replacements) in
          Ok (join_with [LF] (if ends_empty new_lines then new_lines else new_lines @ [[]]))))"

section \<open>Edits in range\<close>

lemma remove_lines_eq: "s \<le> length ls \<Longrightarrow> remove_lines s n ls = take s ls @ drop (s + n) ls"
  by (induction n arbitrary: ls) (auto simp: vec_remove_def min_def add.commute)

lemma insert_lines_eq: "i \<le> length ls \<Longrightarrow> insert_lines i xs ls = Some (take i ls @ xs @ drop i ls)"
  by (induction i xs ls rule: insert_lines.induct) (auto simp: vec_insert_def)

lemma apply_one_eq: "s \<le> length ls \<Longrightarrow> apply_one (s, n, seg) ls = Some (take s ls @ seg @ drop (s + n) ls)"
  by (simp add: remove_lines_eq insert_lines_eq)

lemma apply_each_append: "apply_each (a @ b) ls = Option.bind (apply_each a ls) (apply_each b)"
  by (induction a arbitrary: ls) (auto split: bind_splits)

lemma apply_replacements_Cons:
  "apply_replacements ls (r # rs) = Option.bind (apply_replacements ls rs) (apply_one r)"
  by (auto simp: apply_replacements_def apply_each_append split: bind_splits)

lemma apply_replacements_sorted:
  assumes "sorted (map fst rs)" "\<forall>r\<in>set rs. fst r \<le> length ls"
  shows "\<exists>ls'. apply_replacements ls rs = Some ls' \<and> (\<forall>r\<in>set (take 1 rs). fst r \<le> length ls')"
  using assms
proof (induction rs)
  case Nil
  then show ?case by (simp add: apply_replacements_def)
next
  case (Cons r rs)
  then obtain ls1 where ls1: "apply_replacements ls rs = Some ls1" "\<forall>r\<in>set (take 1 rs). fst r \<le> length ls1"
    by auto
  obtain s n seg where r: "r = (s, n, seg)" by (cases r)
  have "s \<le> length ls1"
    using Cons.prems ls1 r by (cases rs) (auto simp: apply_replacements_def)
  then show ?case
    using ls1 r by (simp add: apply_replacements_Cons apply_one_eq del: apply_one.simps)
qed

section \<open>Ordered edits are a splice\<close>

fun ordered :: "nat \<Rightarrow> nat \<Rightarrow> replacement list \<Rightarrow> bool" where
  "ordered k len [] \<longleftrightarrow> k \<le> len"
| "ordered k len ((s, n, seg) # rs) \<longleftrightarrow> k \<le> s \<and> ordered (s + n) len rs"

fun splice_lines :: "nat \<Rightarrow> string list \<Rightarrow> replacement list \<Rightarrow> string list" where
  "splice_lines k ls [] = drop k ls"
| "splice_lines k ls ((s, n, seg) # rs) = take (s - k) (drop k ls) @ seg @ splice_lines (s + n) ls rs"

lemma ordered_le: "ordered k len rs \<Longrightarrow> k \<le> len"
  by (induction k len rs rule: ordered.induct) auto

lemma ordered_sorted: "ordered k len rs \<Longrightarrow> sorted (map fst rs) \<and> (\<forall>r\<in>set rs. k \<le> fst r)"
  by (induction k len rs rule: ordered.induct) force+

lemma apply_replacements_splice:
  "ordered k (length ls) rs \<Longrightarrow> apply_replacements ls rs = Some (take k ls @ splice_lines k ls rs)"
proof (induction rs arbitrary: k)
  case Nil
  then show ?case by (simp add: apply_replacements_def)
next
  case (Cons r rs)
  obtain s n seg where r: "r = (s, n, seg)" by (cases r)
  with Cons.prems have le: "k \<le> s" "s + n \<le> length ls" and ord: "ordered (s + n) (length ls) rs"
    by (auto dest: ordered_le)
  have "take s ls = take k ls @ take (s - k) (drop k ls)"
    using le take_add [of k "s - k" ls] by simp
  with Cons.IH [OF ord] r le show ?case
    by (simp add: apply_replacements_Cons apply_one_eq del: apply_one.simps)
qed

section \<open>What the search yields\<close>

lemma locate_chunk_Some:
  assumes "locate_chunk ls ch k = (pattern, seg, Some s)" "k \<le> length ls"
  shows "s + length pattern \<le> length ls \<and> (is_end_of_file ch \<or> k \<le> s) \<and> fuzzy_match_at ls pattern s \<and>
    ((pattern = old_lines ch \<and> seg = new_lines ch) \<or>
     (old_lines ch = pattern @ [[]] \<and>
      seg = (if ends_empty (new_lines ch) then butlast (new_lines ch) else new_lines ch)))"
proof -
  have trailing: "old_lines ch \<noteq> [] \<Longrightarrow> last (old_lines ch) = [] \<Longrightarrow> old_lines ch = butlast (old_lines ch) @ [[]]"
    by (metis append_butlast_last_id)
  have "seek_sequence ls pattern k (is_end_of_file ch) = Some s"
    using assms(1) by (auto simp: locate_chunk_def Let_def split: if_splits)
  moreover from this have "is_end_of_file ch \<or> k \<le> s"
    using seek_sequence_bounds [OF _ assms(2)] by (fastforce simp: seek_sequence_def)
  moreover have "(pattern = old_lines ch \<and> seg = new_lines ch) \<or>
     (old_lines ch = pattern @ [[]] \<and>
      seg = (if ends_empty (new_lines ch) then butlast (new_lines ch) else new_lines ch))"
    using assms(1) trailing
    by (auto simp: locate_chunk_def ends_empty_def Let_def split: if_splits)
  ultimately show ?thesis
    using seek_sequence_bounds [OF _ assms(2)] by blast
qed

text \<open>The replacement made for a chunk: its old lines, possibly without a trailing empty one, matched
  at the position, and its new lines, possibly without one, take their place.\<close>

definition replaces :: "string list \<Rightarrow> UpdateFileChunk \<Rightarrow> replacement \<Rightarrow> bool" where
  "replaces ls ch r \<longleftrightarrow>
    (case r of (s, n, seg) \<Rightarrow> s + n \<le> length ls \<and>
      (\<exists>pattern. n = length pattern \<and> fuzzy_match_at ls pattern s \<and>
        ((pattern = old_lines ch \<and> seg = new_lines ch) \<or>
         (old_lines ch = pattern @ [[]] \<and>
          seg = (if ends_empty (new_lines ch) then butlast (new_lines ch) else new_lines ch)))))"

lemma seek_context_index:
  assumes "seek_context ls path ch k = Ok k'" "k \<le> length ls"
  shows "k \<le> k' \<and> k' \<le> length ls"
proof (cases "change_context ch")
  case None
  with assms show ?thesis by (simp add: seek_context_def)
next
  case (Some ctx)
  with assms(1) obtain i where i: "seek_sequence ls [ctx] k False = Some i" "k' = i + 1"
    by (auto simp: seek_context_def split: option.splits)
  with seek_sequence_bounds [OF i(1) assms(2)] show ?thesis by simp
qed

lemma insertion_idx_le: "insertion_idx ls \<le> length ls"
  by (simp add: insertion_idx_def)

lemma replacements_loop_bounds:
  "replacements_loop ls path chs k acc = Ok rs \<Longrightarrow> k \<le> length ls \<Longrightarrow> \<forall>r\<in>set acc. fst r \<le> length ls \<Longrightarrow>
   \<forall>r\<in>set rs. fst r \<le> length ls"
proof (induction ls path chs k acc rule: replacements_loop.induct)
  case (2 ls path ch chs k acc)
  from "2.prems"(1) obtain k' where
    k': "seek_context ls path ch k = Ok k'"
    by (auto split: sum.splits)
  with seek_context_index [OF k'] "2.prems"(2) have le: "k' \<le> length ls" by simp
  show ?case
  proof (cases "old_lines ch = []")
    case True
    with "2.IH"(1) [OF k' True] "2.prems" k' le show ?thesis
      by (auto simp: insertion_idx_le)
  next
    case False
    obtain pattern seg found where loc: "locate_chunk ls ch k' = (pattern, seg, found)"
      by (cases "locate_chunk ls ch k'")
    with "2.prems"(1) k' False obtain s where s: "found = Some s"
      by (cases found) auto
    with loc have "s + length pattern \<le> length ls" using locate_chunk_Some le by blast
    with "2.IH"(2) [OF k' False loc [symmetric] refl s] "2.prems" k' loc s False show ?thesis
      by auto
  qed
qed auto

lemma replacements_loop_ordered:
  "replacements_loop ls path chs k acc = Ok rs \<Longrightarrow> k \<le> length ls \<Longrightarrow>
   \<forall>ch\<in>set chs. old_lines ch \<noteq> [] \<and> \<not> is_end_of_file ch \<Longrightarrow>
   \<exists>rs'. rs = acc @ rs' \<and> ordered k (length ls) rs' \<and> list_all2 (replaces ls) chs rs'"
proof (induction ls path chs k acc rule: replacements_loop.induct)
  case (2 ls path ch chs k acc)
  from "2.prems"(1) obtain k' where
    k': "seek_context ls path ch k = Ok k'"
    by (auto split: sum.splits)
  with seek_context_index [OF k'] "2.prems"(2) have le: "k \<le> k'" "k' \<le> length ls" by auto
  have old: "old_lines ch \<noteq> []" and no_eof: "\<not> is_end_of_file ch" using "2.prems"(3) by auto
  obtain pattern seg found where loc: "locate_chunk ls ch k' = (pattern, seg, found)"
    by (cases "locate_chunk ls ch k'")
  with "2.prems"(1) k' old obtain s where s: "found = Some s"
    by (cases found) auto
  with locate_chunk_Some [of ls ch k'] loc le no_eof
  have ks: "k' \<le> s" and rep: "replaces ls ch (s, length pattern, seg)" by (auto simp: replaces_def)
  from rep have "s + length pattern \<le> length ls" by (auto simp: replaces_def)
  with "2.IH"(2) [OF k' old loc [symmetric] refl s] "2.prems" k' loc s old
  obtain rs' where "rs = acc @ (s, length pattern, seg) # rs'" "ordered (s + length pattern) (length ls) rs'"
    "list_all2 (replaces ls) chs rs'" by auto
  with ks le rep show ?case by auto
qed auto

lemma sort_key_id: "sorted (map f xs) \<Longrightarrow> sort_key f xs = xs"
  by (induction xs) (simp_all add: insort_is_Cons)

text \<open>
  Without these restrictions the replacements may overlap: a chunk that only adds lines goes before
  a final empty line of the file, and a later chunk whose old lines end with that empty line then
  removes what was added.
\<close>

lemma added_line_removed:
  "new_contents_from_chunks (''a'' @ [LF, LF]) ''f''
     [\<lparr>change_context = None, old_lines = [], new_lines = [''new''], is_end_of_file = False\<rparr>,
      \<lparr>change_context = None, old_lines = [''a'', []], new_lines = [''b'', []], is_end_of_file = False\<rparr>] =
   Ok (''b'' @ [LF, LF])"
  by code_simp

section \<open>Properties\<close>

text \<open>C37: Applying computed replacements never runs \<open>Vec::insert\<close> out of range, whatever the file and
  the chunks: \<open>apply_replacements\<close> always returns.\<close>

theorem apply_replacements_total:
  assumes "compute_replacements ls path chunks = Ok rs"
  shows "\<exists>ls'. apply_replacements ls rs = Some ls'"
proof -
  obtain rs0 where rs0: "replacements_loop ls path chunks 0 [] = Ok rs0" and rs: "rs = sort_key fst rs0"
    using assms by (cases "replacements_loop ls path chunks 0 []") (auto simp: compute_replacements_def)
  have "\<forall>r\<in>set rs. fst r \<le> length ls"
    using replacements_loop_bounds [OF rs0] rs by simp
  moreover have "sorted (map fst rs)" using rs by simp
  ultimately show ?thesis using apply_replacements_sorted by blast
qed

definition sample_chunk :: UpdateFileChunk where
  "sample_chunk = \<lparr>change_context = None, old_lines = [''b''], new_lines = [''x'', ''y''], is_end_of_file = False\<rparr>"

lemma sample_replacements:
  "compute_replacements [''a'', ''b'', ''c''] ''f'' [sample_chunk] = Ok [(1, 1, [''x'', ''y''])]"
  by code_simp

theorem apply_replacements_total_witness:
  "\<exists>ls'. apply_replacements [''a'', ''b'', ''c''] [(1, 1, [''x'', ''y''])] = Some ls'"
  by (rule apply_replacements_total [OF sample_replacements])

text \<open>C17: For chunks with old lines and without the end-of-file marker, the computed replacements are
  in file order and do not overlap, each one covers lines that match its chunk's old lines and
  inserts its new lines, and the edited file is the original with exactly these segments replaced.\<close>

theorem update_is_splice:
  assumes "compute_replacements ls path chunks = Ok rs"
    and "\<forall>ch\<in>set chunks. old_lines ch \<noteq> [] \<and> \<not> is_end_of_file ch"
  shows "ordered 0 (length ls) rs \<and> list_all2 (replaces ls) chunks rs \<and>
    apply_replacements ls rs = Some (splice_lines 0 ls rs)"
proof -
  obtain rs0 where rs0: "replacements_loop ls path chunks 0 [] = Ok rs0" and rs: "rs = sort_key fst rs0"
    using assms by (cases "replacements_loop ls path chunks 0 []") (auto simp: compute_replacements_def)
  have ord: "ordered 0 (length ls) rs0" "list_all2 (replaces ls) chunks rs0"
    using replacements_loop_ordered [OF rs0 _ assms(2)] by auto
  then have "rs = rs0"
    using rs ordered_sorted sort_key_id by blast
  with ord show ?thesis by (simp add: apply_replacements_splice)
qed

theorem update_is_splice_witness:
  "apply_replacements [''a'', ''b'', ''c''] [(1, 1, [''x'', ''y''])] = Some [''a'', ''x'', ''y'', ''c''] \<and>
   list_all2 (replaces [''a'', ''b'', ''c'']) [sample_chunk] [(1, 1, [''x'', ''y''])]"
  using update_is_splice [OF sample_replacements] by (simp add: sample_chunk_def)

end
