(* ===== verification/File_System.thy ===== *)
theory File_System
  imports Abs_Path Utf8 Patch_Replace "HOL-Library.AList"
begin

text \<open>
  The file system interface of the patch engine (file-system/src/lib.rs) and its direct
  implementation (exec-server/src/local_file_system.rs).  The trait is a record of functions over a
  state; the direct implementation runs on a tree of files and directories that follows the
  standard library's \<open>std::fs\<close> on Unix, without symbolic links, permissions or times.  An
  \<open>AbsolutePathBuf\<close> is the list of its names, since resolution yields normal absolute paths
  (theory \<open>Abs_Path\<close>).  The sandbox argument, which callers pass through unchanged, is part
  of the chosen implementation.
\<close>

section \<open>The interface\<close>

type_synonym AbsolutePathBuf = "string list"

record FileMetadata =
  is_directory :: bool
  is_file :: bool
  is_symlink :: bool

record 'fs ExecutorFileSystem =
  fs_read_file :: "'fs \<Rightarrow> AbsolutePathBuf \<Rightarrow> (io_error, string) result"
  fs_write_file :: "'fs \<Rightarrow> AbsolutePathBuf \<Rightarrow> string \<Rightarrow> 'fs \<times> (io_error, unit) result"
  fs_create_directory :: "'fs \<Rightarrow> AbsolutePathBuf \<Rightarrow> bool \<Rightarrow> 'fs \<times> (io_error, unit) result"
  fs_get_metadata :: "'fs \<Rightarrow> AbsolutePathBuf \<Rightarrow> (io_error, FileMetadata) result"
  fs_remove :: "'fs \<Rightarrow> AbsolutePathBuf \<Rightarrow> bool \<Rightarrow> bool \<Rightarrow> 'fs \<times> (io_error, unit) result"

text \<open>The provided method \<open>read_file_text\<close>.\<close>

definition utf8_error_msg :: "nat \<Rightarrow> nat option \<Rightarrow> string" where
  "utf8_error_msg valid_up_to error_len =
    (case error_len of
       Some n \<Rightarrow> ''invalid utf-8 sequence of '' @ show_nat n @ '' bytes from index '' @ show_nat valid_up_to
     | None \<Rightarrow> ''incomplete utf-8 byte sequence from index '' @ show_nat valid_up_to)"

definition read_file_text :: "'fs ExecutorFileSystem \<Rightarrow> 'fs \<Rightarrow> AbsolutePathBuf \<Rightarrow> (io_error, string) result" where
  "read_file_text fs s path =
    (case fs_read_file fs s path of
       Err e \<Rightarrow> Err e
     | Ok bytes \<Rightarrow>
         (case from_utf8 bytes of
            Utf8Valid \<Rightarrow> Ok bytes
          | Utf8Error k e \<Rightarrow> Err (IoErr InvalidData (utf8_error_msg k e))))"

text \<open>
  What the patch engine relies on, stated over the regular files of a state: a successful operation
  does what it says, a failed one leaves other files alone, and making directories touches no file.
\<close>

locale executor_file_system =
  fixes fs :: "'fs ExecutorFileSystem"
    and files :: "'fs \<Rightarrow> AbsolutePathBuf \<Rightarrow> string option"
  assumes read_ok: "fs_read_file fs s p = Ok c \<Longrightarrow> files s p = Some c"
    and write_ok: "fs_write_file fs s p c = (s', Ok ()) \<Longrightarrow> files s' = (files s)(p \<mapsto> c)"
    and write_err: "fs_write_file fs s p c = (s', Err e) \<Longrightarrow> q \<noteq> p \<Longrightarrow> files s' q = files s q"
    and mkdir: "files (fst (fs_create_directory fs s p r)) = files s"
    and metadata_file: "fs_get_metadata fs s p = Ok md \<Longrightarrow> \<not> is_directory md \<Longrightarrow> files s p \<noteq> None"
    and remove_ok: "fs_remove fs s p False False = (s', Ok ()) \<Longrightarrow> files s' = (files s)(p := None)"
    and remove_err: "fs_remove fs s p False False = (s', Err e) \<Longrightarrow> q \<noteq> p \<Longrightarrow> files s' q = files s q"
begin

lemma read_text_ok: "read_file_text fs s p = Ok c \<Longrightarrow> files s p = Some c \<and> from_utf8 c = Utf8Valid"
  by (auto simp: read_file_text_def split: sum.splits utf8_result.splits dest: read_ok)

lemma write_frame: "q \<noteq> p \<Longrightarrow> files (fst (fs_write_file fs s p c)) q = files s q"
  by (cases "fs_write_file fs s p c"; cases "snd (fs_write_file fs s p c)") (auto dest: write_ok write_err)

lemma remove_frame: "q \<noteq> p \<Longrightarrow> files (fst (fs_remove fs s p False False)) q = files s q"
  by (cases "fs_remove fs s p False False"; cases "snd (fs_remove fs s p False False)")
    (auto dest: remove_ok remove_err)

end

section \<open>A Unix file tree\<close>

datatype node = FileNode string | DirNode

type_synonym tree = "(AbsolutePathBuf \<times> node) list"

text \<open>Path lookup fails at the first ancestor that is not a directory.\<close>

definition walk_error :: "tree \<Rightarrow> AbsolutePathBuf \<Rightarrow> io_error option" where
  "walk_error t p =
    map_option (\<lambda>k. if map_of t (take k p) = None then IoErr NotFound ''No such file or directory (os error 2)''
                    else IoErr NotADirectory ''Not a directory (os error 20)'')
      (find (\<lambda>k. map_of t (take k p) \<noteq> Some DirNode) [0..<length p])"

definition std_metadata :: "tree \<Rightarrow> AbsolutePathBuf \<Rightarrow> (io_error, node) result" where
  "std_metadata t p =
    (case walk_error t p of
       Some e \<Rightarrow> Err e
     | None \<Rightarrow> (case map_of t p of None \<Rightarrow> Err (IoErr NotFound ''No such file or directory (os error 2)'') | Some n \<Rightarrow> Ok n))"

definition std_read :: "tree \<Rightarrow> AbsolutePathBuf \<Rightarrow> (io_error, string) result" where
  "std_read t p =
    (case std_metadata t p of
       Err e \<Rightarrow> Err e
     | Ok DirNode \<Rightarrow> Err (IoErr IsADirectory ''Is a directory (os error 21)'')
     | Ok (FileNode c) \<Rightarrow> Ok c)"

definition std_write :: "tree \<Rightarrow> AbsolutePathBuf \<Rightarrow> string \<Rightarrow> tree \<times> (io_error, unit) result" where
  "std_write t p c =
    (case walk_error t p of
       Some e \<Rightarrow> (t, Err e)
     | None \<Rightarrow> if map_of t p = Some DirNode then (t, Err (IoErr IsADirectory ''Is a directory (os error 21)''))
               else (AList.update p (FileNode c) t, Ok ()))"

definition std_create_dir :: "tree \<Rightarrow> AbsolutePathBuf \<Rightarrow> tree \<times> (io_error, unit) result" where
  "std_create_dir t p =
    (case walk_error t p of
       Some e \<Rightarrow> (t, Err e)
     | None \<Rightarrow> if map_of t p \<noteq> None then (t, Err (IoErr AlreadyExists ''File exists (os error 17)''))
               else (AList.update p DirNode t, Ok ()))"

text \<open>\<open>create_dir_all\<close>: the directory is made when its parent exists, else after its parent; a
  directory that exists already is fine.\<close>

function std_create_dir_all :: "tree \<Rightarrow> AbsolutePathBuf \<Rightarrow> tree \<times> (io_error, unit) result" where
  "std_create_dir_all t p =
    (if p = [] then (t, Ok ())
     else (case std_create_dir t p of
        (t', Ok _) \<Rightarrow> (t', Ok ())
      | (t', Err (IoErr NotFound _)) \<Rightarrow>
          (case std_create_dir_all t (butlast p) of
             (t'', Err e) \<Rightarrow> (t'', Err e)
           | (t'', Ok _) \<Rightarrow>
               (case std_create_dir t'' p of
                  (t3, Ok _) \<Rightarrow> (t3, Ok ())
                | (t3, Err e) \<Rightarrow> if map_of t3 p = Some DirNode then (t3, Ok ()) else (t3, Err e)))
      | (t', Err e) \<Rightarrow> if map_of t' p = Some DirNode then (t', Ok ()) else (t', Err e)))"
  by pat_completeness auto
termination
  by (relation "measure (\<lambda>(_, p). length p)") auto

declare std_create_dir_all.simps [simp del]

definition std_remove_file :: "tree \<Rightarrow> AbsolutePathBuf \<Rightarrow> tree \<times> (io_error, unit) result" where
  "std_remove_file t p =
    (case std_metadata t p of
       Err e \<Rightarrow> (t, Err e)
     | Ok DirNode \<Rightarrow> (t, Err (IoErr IsADirectory ''Is a directory (os error 21)''))
     | Ok (FileNode _) \<Rightarrow> (AList.delete p t, Ok ()))"

definition std_remove_dir :: "tree \<Rightarrow> AbsolutePathBuf \<Rightarrow> tree \<times> (io_error, unit) result" where
  "std_remove_dir t p =
    (case std_metadata t p of
       Err e \<Rightarrow> (t, Err e)
     | Ok (FileNode _) \<Rightarrow> (t, Err (IoErr NotADirectory ''Not a directory (os error 20)''))
     | Ok DirNode \<Rightarrow>
         if p = [] then (t, Err (IoErr Other ''Device or resource busy (os error 16)''))
         else if list_ex (\<lambda>(q, _). q \<noteq> [] \<and> butlast q = p) t
         then (t, Err (IoErr DirectoryNotEmpty ''Directory not empty (os error 39)''))
         else (AList.delete p t, Ok ()))"

definition std_remove_dir_all :: "tree \<Rightarrow> AbsolutePathBuf \<Rightarrow> tree \<times> (io_error, unit) result" where
  "std_remove_dir_all t p =
    (case std_metadata t p of
       Err e \<Rightarrow> (t, Err e)
     | Ok (FileNode _) \<Rightarrow> (t, Err (IoErr NotADirectory ''Not a directory (os error 20)''))
     | Ok DirNode \<Rightarrow>
         if p = [] then (filter (\<lambda>(q, _). q = []) t, Err (IoErr Other ''Device or resource busy (os error 16)''))
         else (filter (\<lambda>(q, _). \<not> prefix p q) t, Ok ()))"

section \<open>DirectFileSystem\<close>

definition MAX_READ_FILE_BYTES :: int where
  "MAX_READ_FILE_BYTES = 512 * 1024 * 1024"

text \<open>A directory's reported length is below the limit, so reading one fails in \<open>std_read\<close>.\<close>

definition direct_read_file :: "tree \<Rightarrow> AbsolutePathBuf \<Rightarrow> (io_error, string) result" where
  "direct_read_file t path =
    (case std_metadata t path of
       Err e \<Rightarrow> Err e
     | Ok node \<Rightarrow>
         if (case node of FileNode c \<Rightarrow> MAX_READ_FILE_BYTES < int (length c) | DirNode \<Rightarrow> False)
         then Err (IoErr InvalidInput
                (''file is too large to read: limit is '' @ show_nat (nat MAX_READ_FILE_BYTES) @ '' bytes''))
         else std_read t path)"

definition direct_create_directory :: "tree \<Rightarrow> AbsolutePathBuf \<Rightarrow> bool \<Rightarrow> tree \<times> (io_error, unit) result" where
  "direct_create_directory t path recursive =
    (if recursive then std_create_dir_all t path else std_create_dir t path)"

definition direct_get_metadata :: "tree \<Rightarrow> AbsolutePathBuf \<Rightarrow> (io_error, FileMetadata) result" where
  "direct_get_metadata t path =
    map_sum id (\<lambda>n. \<lparr>is_directory = (n = DirNode), is_file = (n \<noteq> DirNode), is_symlink = False\<rparr>) (std_metadata t path)"

definition direct_remove :: "tree \<Rightarrow> AbsolutePathBuf \<Rightarrow> bool \<Rightarrow> bool \<Rightarrow> tree \<times> (io_error, unit) result" where
  "direct_remove t path recursive force =
    (case std_metadata t path of
       Ok DirNode \<Rightarrow> if recursive then std_remove_dir_all t path else std_remove_dir t path
     | Ok (FileNode _) \<Rightarrow> std_remove_file t path
     | Err (IoErr NotFound m) \<Rightarrow> if force then (t, Ok ()) else (t, Err (IoErr NotFound m))
     | Err e \<Rightarrow> (t, Err e))"

definition direct_fs :: "tree ExecutorFileSystem" where
  "direct_fs =
    \<lparr>fs_read_file = direct_read_file, fs_write_file = std_write, fs_create_directory = direct_create_directory,
     fs_get_metadata = direct_get_metadata, fs_remove = direct_remove\<rparr>"

definition tree_files :: "tree \<Rightarrow> AbsolutePathBuf \<Rightarrow> string option" where
  "tree_files t p = (case map_of t p of Some (FileNode c) \<Rightarrow> Some c | _ \<Rightarrow> None)"

section \<open>The implementation meets the interface\<close>

lemma tree_files_update_file [simp]: "tree_files (AList.update p (FileNode c) t) = (tree_files t)(p \<mapsto> c)"
  by (auto simp: tree_files_def AList.update_conv' fun_eq_iff)

lemma tree_files_update_dir: "tree_files t p = None \<Longrightarrow> tree_files (AList.update p DirNode t) = tree_files t"
  by (auto simp: tree_files_def AList.update_conv' fun_eq_iff)

lemma tree_files_delete [simp]: "tree_files (AList.delete p t) = (tree_files t)(p := None)"
  by (auto simp: tree_files_def AList.delete_conv' fun_eq_iff)

lemma std_create_dir_files: "tree_files (fst (std_create_dir t p)) = tree_files t"
  by (auto simp: std_create_dir_def tree_files_def AList.update_conv' fun_eq_iff split: option.splits)

lemma std_create_dir_all_files: "tree_files (fst (std_create_dir_all t p)) = tree_files t"
proof (induction t p rule: std_create_dir_all.induct)
  case (1 t p)
  show ?case
    using std_create_dir_files [of t p] std_create_dir_files [of "fst (std_create_dir_all t (butlast p))" p] 1
    by (subst std_create_dir_all.simps)
      (auto split: prod.splits sum.splits io_error.splits io_error_kind.splits)
qed

interpretation direct: executor_file_system direct_fs tree_files
proof
  fix s :: tree and p q c s' e md r
  show "fs_read_file direct_fs s p = Ok c \<Longrightarrow> tree_files s p = Some c"
    by (auto simp: direct_fs_def direct_read_file_def std_read_def std_metadata_def tree_files_def
        split: sum.splits node.splits option.splits if_splits)
  show "fs_write_file direct_fs s p c = (s', Ok ()) \<Longrightarrow> tree_files s' = (tree_files s)(p \<mapsto> c)"
    and "fs_write_file direct_fs s p c = (s', Err e) \<Longrightarrow> q \<noteq> p \<Longrightarrow> tree_files s' q = tree_files s q"
    by (auto simp: direct_fs_def std_write_def split: option.splits if_splits)
  show "tree_files (fst (fs_create_directory direct_fs s p r)) = tree_files s"
    by (simp add: direct_fs_def direct_create_directory_def std_create_dir_files std_create_dir_all_files)
  show "fs_get_metadata direct_fs s p = Ok md \<Longrightarrow> \<not> is_directory md \<Longrightarrow> tree_files s p \<noteq> None"
    by (auto simp: direct_fs_def direct_get_metadata_def std_metadata_def tree_files_def map_sum_def
        split: option.splits sum.splits node.splits)
  show "fs_remove direct_fs s p False False = (s', Ok ()) \<Longrightarrow> tree_files s' = (tree_files s)(p := None)"
    and "fs_remove direct_fs s p False False = (s', Err e) \<Longrightarrow> q \<noteq> p \<Longrightarrow> tree_files s' q = tree_files s q"
    by (auto simp: direct_fs_def direct_remove_def std_remove_file_def std_remove_dir_def
        split: sum.splits node.splits io_error.splits io_error_kind.splits if_splits)
qed

end
