(* ===== verification/Patch_Apply.thy ===== *)
theory Patch_Apply
  imports File_System
begin

text \<open>
  Applying a patch to a file system (apply-patch/src/lib.rs).  Every operation takes the file system
  interface and its state and returns the state after the call with the result, since a failing
  patch leaves the hunks before the failure applied.  The two output writers are strings that never
  fail to grow.  \<open>anyhow\<close> errors are a message, an I/O error under a context, or an
  \<open>ApplyPatchError\<close>.
\<close>

section \<open>Operations\<close>

datatype anyhow_error =
    AnyMessage string
  | AnyIo string io_error
  | AnyPatch ApplyPatchError

record AffectedPaths =
  added :: "string list"
  modified :: "string list"
  deleted :: "string list"

text \<open>The names of a resolved path, and its display form.\<close>

definition path_names :: "string \<Rightarrow> AbsolutePathBuf" where
  "path_names p = concat (map (\<lambda>c. case c of Normal n \<Rightarrow> [n] | _ \<Rightarrow> []) (path_components p))"

definition display :: "AbsolutePathBuf \<Rightarrow> string" where
  "display p = path_str (RootDir # map Normal p)"

definition resolve_abs :: "string option \<Rightarrow> AbsolutePathBuf \<Rightarrow> string \<Rightarrow> AbsolutePathBuf" where
  "resolve_abs home cwd p = path_names (resolve_path_against_base home p (display cwd))"

definition abs_parent :: "AbsolutePathBuf \<Rightarrow> AbsolutePathBuf option" where
  "abs_parent p = (if p = [] then None else Some (butlast p))"

fun hunk_resolve_path :: "string option \<Rightarrow> AbsolutePathBuf \<Rightarrow> Hunk \<Rightarrow> AbsolutePathBuf" where
  "hunk_resolve_path home cwd (UpdateFile path m cs) = resolve_abs home cwd path"
| "hunk_resolve_path home cwd h = resolve_abs home cwd (hunk_path h)"

definition write_file_with_missing_parent_retry ::
  "'fs ExecutorFileSystem \<Rightarrow> 'fs \<Rightarrow> AbsolutePathBuf \<Rightarrow> string \<Rightarrow> 'fs \<times> (anyhow_error, unit) result" where
  "write_file_with_missing_parent_retry fs s path_abs contents =
    (let failed = AnyIo (''Failed to write file '' @ display path_abs) in
     case fs_write_file fs s path_abs contents of
       (s1, Ok _) \<Rightarrow> (s1, Ok ())
     | (s1, Err err) \<Rightarrow>
         (case err of
            IoErr NotFound _ \<Rightarrow>
              (case (case abs_parent path_abs of
                       Some parent_abs \<Rightarrow> fs_create_directory fs s1 parent_abs True
                     | None \<Rightarrow> (s1, Ok ())) of
                 (s2, Err e) \<Rightarrow>
                   (s2, Err (AnyIo (''Failed to create parent directories for '' @ display path_abs) e))
               | (s2, Ok _) \<Rightarrow>
                   (case fs_write_file fs s2 path_abs contents of
                      (s3, Ok _) \<Rightarrow> (s3, Ok ())
                    | (s3, Err e) \<Rightarrow> (s3, Err (failed e))))
          | _ \<Rightarrow> (s1, Err (failed err))))"

definition derive_new_contents_from_chunks ::
  "'fs ExecutorFileSystem \<Rightarrow> 'fs \<Rightarrow> AbsolutePathBuf \<Rightarrow> UpdateFileChunk list \<Rightarrow> (ApplyPatchError, string) result" where
  "derive_new_contents_from_chunks fs s path_abs chunks =
    (case read_file_text fs s path_abs of
       Err e \<Rightarrow> Err (IoError (''Failed to read file to update '' @ display path_abs) e)
     | Ok original_contents \<Rightarrow> new_contents_from_chunks original_contents (display path_abs) chunks)"

text \<open>The block that deletes and renames share: refuse a directory, then remove.\<close>

definition remove_regular ::
  "'fs ExecutorFileSystem \<Rightarrow> 'fs \<Rightarrow> AbsolutePathBuf \<Rightarrow> 'fs \<times> (io_error, unit) result" where
  "remove_regular fs s path_abs =
    (case fs_get_metadata fs s path_abs of
       Err e \<Rightarrow> (s, Err e)
     | Ok md \<Rightarrow>
         if is_directory md then (s, Err (IoErr InvalidInput ''path is a directory''))
         else fs_remove fs s path_abs False False)"

definition apply_hunk ::
  "'fs ExecutorFileSystem \<Rightarrow> string option \<Rightarrow> AbsolutePathBuf \<Rightarrow> 'fs \<Rightarrow> AffectedPaths \<Rightarrow> Hunk \<Rightarrow>
   'fs \<times> (anyhow_error, AffectedPaths) result" where
  "apply_hunk fs home cwd s aff hunk =
    (let affected_path = hunk_path hunk;
         path_abs = hunk_resolve_path home cwd hunk;
         is_modified = aff\<lparr>modified := modified aff @ [affected_path]\<rparr> in
     case hunk of
       AddFile _ contents \<Rightarrow>
         (case write_file_with_missing_parent_retry fs s path_abs contents of
            (s1, Err e) \<Rightarrow> (s1, Err e)
          | (s1, Ok _) \<Rightarrow> (s1, Ok (aff\<lparr>added := added aff @ [affected_path]\<rparr>)))
     | DeleteFile _ \<Rightarrow>
         (case remove_regular fs s path_abs of
            (s1, Err e) \<Rightarrow> (s1, Err (AnyIo (''Failed to delete file '' @ display path_abs) e))
          | (s1, Ok _) \<Rightarrow> (s1, Ok (aff\<lparr>deleted := deleted aff @ [affected_path]\<rparr>)))
     | UpdateFile _ move_path chunks \<Rightarrow>
         (case derive_new_contents_from_chunks fs s path_abs chunks of
            Err e \<Rightarrow> (s, Err (AnyPatch e))
          | Ok new_contents \<Rightarrow>
              (case move_path of
                 Some dest \<Rightarrow>
                   (case write_file_with_missing_parent_retry fs s (resolve_abs home cwd dest) new_contents of
                      (s1, Err e) \<Rightarrow> (s1, Err e)
                    | (s1, Ok _) \<Rightarrow>
                        (case remove_regular fs s1 path_abs of
                           (s2, Err e) \<Rightarrow> (s2, Err (AnyIo (''Failed to remove original '' @ display path_abs) e))
                         | (s2, Ok _) \<Rightarrow> (s2, Ok is_modified)))
               | None \<Rightarrow>
                   (case fs_write_file fs s path_abs new_contents of
                      (s1, Err e) \<Rightarrow> (s1, Err (AnyIo (''Failed to write file '' @ display path_abs) e))
                    | (s1, Ok _) \<Rightarrow> (s1, Ok is_modified)))))"

fun apply_hunks_loop ::
  "'fs ExecutorFileSystem \<Rightarrow> string option \<Rightarrow> AbsolutePathBuf \<Rightarrow> 'fs \<Rightarrow> AffectedPaths \<Rightarrow> Hunk list \<Rightarrow>
   'fs \<times> (anyhow_error, AffectedPaths) result" where
  "apply_hunks_loop fs home cwd s aff [] = (s, Ok aff)"
| "apply_hunks_loop fs home cwd s aff (h # hs) =
    (case apply_hunk fs home cwd s aff h of
       (s1, Err e) \<Rightarrow> (s1, Err e)
     | (s1, Ok aff1) \<Rightarrow> apply_hunks_loop fs home cwd s1 aff1 hs)"

definition apply_hunks_to_files ::
  "'fs ExecutorFileSystem \<Rightarrow> string option \<Rightarrow> AbsolutePathBuf \<Rightarrow> 'fs \<Rightarrow> Hunk list \<Rightarrow>
   'fs \<times> (anyhow_error, AffectedPaths) result" where
  "apply_hunks_to_files fs home cwd s hunks =
    (if hunks = [] then (s, Err (AnyMessage ''No files were modified.''))
     else apply_hunks_loop fs home cwd s \<lparr>added = [], modified = [], deleted = []\<rparr> hunks)"

definition print_summary :: "AffectedPaths \<Rightarrow> string \<Rightarrow> string" where
  "print_summary affected out =
    out @ ''Success. Updated the following files:'' @ [LF] @
    concat (map (\<lambda>p. ''A '' @ p @ [LF]) (added affected)) @
    concat (map (\<lambda>p. ''M '' @ p @ [LF]) (modified affected)) @
    concat (map (\<lambda>p. ''D '' @ p @ [LF]) (deleted affected))"

fun patch_error_str :: "ApplyPatchError \<Rightarrow> string" where
  "patch_error_str (PatchParseError (InvalidPatchError m)) = ''invalid patch: '' @ m"
| "patch_error_str (PatchParseError (InvalidHunkError m n)) = ''invalid hunk at line '' @ show_nat n @ '', '' @ m"
| "patch_error_str (IoError context (IoErr k m)) = context @ '': '' @ m"
| "patch_error_str (ComputeReplacements m) = m"
| "patch_error_str ImplicitInvocation =
    ''patch detected without explicit call to apply_patch. Rerun as ['' @ [CHR 0x22] @ ''apply_patch'' @ [CHR 0x22] @
    '', '' @ [CHR 0x22] @ ''<patch>'' @ [CHR 0x22] @ '']''"

text \<open>\<open>to_string\<close> of an \<open>anyhow\<close> error shows the outermost context only.\<close>

fun anyhow_str :: "anyhow_error \<Rightarrow> string" where
  "anyhow_str (AnyMessage m) = m"
| "anyhow_str (AnyIo context e) = context"
| "anyhow_str (AnyPatch e) = patch_error_str e"

text \<open>\<open>apply_hunks\<close>: the state, the two outputs and the result.\<close>

definition apply_hunks ::
  "'fs ExecutorFileSystem \<Rightarrow> string option \<Rightarrow> AbsolutePathBuf \<Rightarrow> 'fs \<Rightarrow> Hunk list \<Rightarrow> string \<Rightarrow> string \<Rightarrow>
   'fs \<times> string \<times> string \<times> (ApplyPatchError, unit) result" where
  "apply_hunks fs home cwd s hunks stdout stderr =
    (case apply_hunks_to_files fs home cwd s hunks of
       (s1, Ok affected) \<Rightarrow> (s1, print_summary affected stdout, stderr, Ok ())
     | (s1, Err err) \<Rightarrow>
         (let msg = anyhow_str err in
          (s1, stdout, stderr @ msg @ [LF],
           Err (case err of
                  AnyIo _ io \<Rightarrow> IoError ''I/O error'' io
                | _ \<Rightarrow> IoError msg (IoErr Other msg)))))"

definition apply_patch ::
  "'fs ExecutorFileSystem \<Rightarrow> string option \<Rightarrow> AbsolutePathBuf \<Rightarrow> 'fs \<Rightarrow> string \<Rightarrow> string \<Rightarrow> string \<Rightarrow>
   'fs \<times> string \<times> string \<times> (ApplyPatchError, unit) result" where
  "apply_patch fs home cwd s patch stdout stderr =
    (case parse_patch patch of
       Ok source \<Rightarrow> apply_hunks fs home cwd s (args_hunks source) stdout stderr
     | Err e \<Rightarrow>
         (s, stdout,
          stderr @ (case e of
             InvalidPatchError message \<Rightarrow> ''Invalid patch: '' @ message @ [LF]
           | InvalidHunkError message line_number \<Rightarrow>
               ''Invalid patch hunk on line '' @ show_nat line_number @ '': '' @ message @ [LF]),
          Err (PatchParseError e)))"

section \<open>Specification\<close>

text \<open>The effect of hunks on the files of a system, as a partial function on file maps.\<close>

definition updated_contents :: "(AbsolutePathBuf \<Rightarrow> string option) \<Rightarrow> AbsolutePathBuf \<Rightarrow> UpdateFileChunk list \<Rightarrow> string option" where
  "updated_contents m p chunks =
    (case m p of
       None \<Rightarrow> None
     | Some old \<Rightarrow>
         if from_utf8 old = Utf8Valid
         then (case new_contents_from_chunks old (display p) chunks of Err _ \<Rightarrow> None | Ok c \<Rightarrow> Some c)
         else None)"

fun spec_hunk :: "string option \<Rightarrow> AbsolutePathBuf \<Rightarrow> (AbsolutePathBuf \<Rightarrow> string option) \<Rightarrow> Hunk \<Rightarrow>
    (AbsolutePathBuf \<Rightarrow> string option) option" where
  "spec_hunk home cwd m (AddFile p c) = Some (m(resolve_abs home cwd p \<mapsto> c))"
| "spec_hunk home cwd m (DeleteFile p) =
    (if m (resolve_abs home cwd p) = None then None else Some (m(resolve_abs home cwd p := None)))"
| "spec_hunk home cwd m (UpdateFile p None cs) =
    map_option (\<lambda>c. m(resolve_abs home cwd p \<mapsto> c)) (updated_contents m (resolve_abs home cwd p) cs)"
| "spec_hunk home cwd m (UpdateFile p (Some d) cs) =
    map_option (\<lambda>c. m(resolve_abs home cwd d \<mapsto> c, resolve_abs home cwd p := None))
      (updated_contents m (resolve_abs home cwd p) cs)"

fun spec_hunks :: "string option \<Rightarrow> AbsolutePathBuf \<Rightarrow> (AbsolutePathBuf \<Rightarrow> string option) \<Rightarrow> Hunk list \<Rightarrow>
    (AbsolutePathBuf \<Rightarrow> string option) option" where
  "spec_hunks home cwd m [] = Some m"
| "spec_hunks home cwd m (h # hs) = Option.bind (spec_hunk home cwd m h) (\<lambda>m'. spec_hunks home cwd m' hs)"

text \<open>The paths a hunk names.\<close>

fun touched :: "string option \<Rightarrow> AbsolutePathBuf \<Rightarrow> Hunk \<Rightarrow> AbsolutePathBuf set" where
  "touched home cwd (UpdateFile p (Some d) cs) = {resolve_abs home cwd p, resolve_abs home cwd d}"
| "touched home cwd h = {hunk_resolve_path home cwd h}"

section \<open>The engine over any file system\<close>

context executor_file_system
begin

lemma write_retry_ok:
  "write_file_with_missing_parent_retry fs s p c = (s', Ok ()) \<Longrightarrow> files s' = (files s)(p \<mapsto> c)"
proof -
  assume *: "write_file_with_missing_parent_retry fs s p c = (s', Ok ())"
  obtain s1 r1 where w1: "fs_write_file fs s p c = (s1, r1)" by fastforce
  show ?thesis
  proof (cases r1)
    case (Inr u)
    with * w1 write_ok show ?thesis by (simp add: write_file_with_missing_parent_retry_def)
  next
    case (Inl e)
    define mk where "mk = (case abs_parent p of Some d \<Rightarrow> fs_create_directory fs s1 d True | None \<Rightarrow> (s1, Ok ()))"
    obtain s2 r2 where mk2: "mk = (s2, r2)" by fastforce
    have s2: "files s2 = files s1"
      using mk2 mkdir [of s1] by (cases "abs_parent p") (auto simp: mk_def, metis fst_conv)
    have "fs_write_file fs s2 p c = (s', Ok ())"
      using * w1 Inl mk2
      by (auto simp: write_file_with_missing_parent_retry_def mk_def Let_def
          split: io_error.splits io_error_kind.splits sum.splits prod.splits)
    then have "files s' = (files s2)(p \<mapsto> c)" by (rule write_ok)
    moreover have "files s1 q = files s q" if "q \<noteq> p" for q
      using write_frame [OF that, of s c] w1 by simp
    ultimately show ?thesis using s2 by (auto simp: fun_eq_iff)
  qed
qed

lemma write_retry_frame:
  assumes "q \<noteq> p"
  shows "files (fst (write_file_with_missing_parent_retry fs s p c)) q = files s q"
proof -
  have w: "files s' q = files u q" if "fs_write_file fs u p c = (s', r)" for u s' r
    using write_frame [OF assms, of u c] that by simp
  have m: "files s' = files u" if "fs_create_directory fs u d True = (s', r)" for u s' r d
    using mkdir [of u d True] that by simp
  show ?thesis
    unfolding write_file_with_missing_parent_retry_def Let_def
    by (auto split: prod.splits sum.splits io_error.splits io_error_kind.splits option.splits
        simp: w dest!: w m)
qed

lemma remove_regular_ok:
  "remove_regular fs s p = (s', Ok ()) \<Longrightarrow> files s p \<noteq> None \<and> files s' = (files s)(p := None)"
  using metadata_file [of s p]
  by (auto simp: remove_regular_def split: sum.splits if_splits dest: remove_ok)

lemma remove_regular_frame: "q \<noteq> p \<Longrightarrow> files (fst (remove_regular fs s p)) q = files s q"
  by (auto simp: remove_regular_def remove_frame split: sum.splits)

lemma derive_updated:
  "derive_new_contents_from_chunks fs s p cs = Ok c \<Longrightarrow> updated_contents (files s) p cs = Some c"
  by (auto simp: derive_new_contents_from_chunks_def updated_contents_def split: sum.splits dest: read_text_ok)

lemma move_ok:
  assumes "write_file_with_missing_parent_retry fs s d c = (s1, Ok u)" "remove_regular fs s1 p = (s2, Ok v)"
  shows "files s2 = (files s)(d \<mapsto> c, p := None)"
  using write_retry_ok [of s d c s1] remove_regular_ok [of s1 p s2] assms by simp

lemma move_frame:
  assumes "write_file_with_missing_parent_retry fs s d c = (s1, r)" "remove_regular fs s1 p = (s2, r')"
    "q \<noteq> d" "q \<noteq> p"
  shows "files s2 q = files s q"
  using write_retry_frame [of q d s c] remove_regular_frame [of q p s1] assms by simp

lemma apply_hunk_ok:
  assumes "apply_hunk fs home cwd s aff h = (s', Ok aff')"
  shows "spec_hunk home cwd (files s) h = Some (files s')"
proof (cases h)
  case (AddFile p c)
  with assms show ?thesis
    by (auto simp: apply_hunk_def Let_def split: prod.splits sum.splits dest: write_retry_ok)
next
  case (DeleteFile p)
  with assms show ?thesis
    by (auto simp: apply_hunk_def Let_def split: prod.splits sum.splits dest: remove_regular_ok)
next
  case (UpdateFile p m cs)
  with assms obtain c where c: "derive_new_contents_from_chunks fs s (resolve_abs home cwd p) cs = Ok c"
    by (cases "derive_new_contents_from_chunks fs s (resolve_abs home cwd p) cs") (auto simp: apply_hunk_def)
  show ?thesis
  proof (cases m)
    case None
    with assms UpdateFile c derive_updated [OF c] show ?thesis
      by (auto simp: apply_hunk_def Let_def split: prod.splits sum.splits dest: write_ok)
  next
    case (Some d)
    with assms UpdateFile c derive_updated [OF c] show ?thesis
      by (auto simp: apply_hunk_def Let_def split: prod.splits sum.splits dest: move_ok)
  qed
qed

lemma apply_hunk_frame:
  assumes "q \<notin> touched home cwd h"
  shows "files (fst (apply_hunk fs home cwd s aff h)) q = files s q"
proof (cases h)
  case (AddFile p c)
  with assms write_retry_frame [of q "resolve_abs home cwd p" s c] show ?thesis
    by (auto simp: apply_hunk_def Let_def split: prod.splits sum.splits)
next
  case (DeleteFile p)
  with assms remove_regular_frame [of q "resolve_abs home cwd p" s] show ?thesis
    by (auto simp: apply_hunk_def Let_def split: prod.splits sum.splits)
next
  case (UpdateFile p m cs)
  let ?p = "resolve_abs home cwd p"
  show ?thesis
  proof (cases "derive_new_contents_from_chunks fs s ?p cs")
    case (Inl e)
    with UpdateFile show ?thesis by (simp add: apply_hunk_def)
  next
    case (Inr c)
    show ?thesis
    proof (cases m)
      case None
      with UpdateFile Inr assms write_frame [of q ?p s c] show ?thesis
        by (auto simp: apply_hunk_def Let_def split: prod.splits sum.splits)
    next
      case (Some d)
      with UpdateFile Inr assms write_retry_frame [of q "resolve_abs home cwd d" s c] show ?thesis
        by (auto simp: apply_hunk_def Let_def split: prod.splits sum.splits dest: move_frame)
    qed
  qed
qed

lemma apply_hunks_loop_ok:
  "apply_hunks_loop fs home cwd s aff hs = (s', Ok aff') \<Longrightarrow> spec_hunks home cwd (files s) hs = Some (files s')"
  by (induction hs arbitrary: s aff) (auto split: prod.splits sum.splits dest!: apply_hunk_ok)

lemma apply_hunks_loop_frame:
  "\<forall>h\<in>set hs. q \<notin> touched home cwd h \<Longrightarrow> files (fst (apply_hunks_loop fs home cwd s aff hs)) q = files s q"
proof (induction hs arbitrary: s aff)
  case (Cons h hs)
  then show ?case
    using apply_hunk_frame [of q home cwd h s aff] by (auto split: prod.splits sum.splits)
qed simp

lemma apply_hunks_ok:
  assumes "apply_hunks fs home cwd s hs stdout stderr = (s', out, err, Ok ())"
  shows "spec_hunks home cwd (files s) hs = Some (files s') \<and> err = stderr \<and>
    (\<exists>aff. out = print_summary aff stdout)"
  using assms
  by (auto simp: apply_hunks_def apply_hunks_to_files_def Let_def split: prod.splits sum.splits if_splits
      dest: apply_hunks_loop_ok)

lemma apply_hunks_frame:
  assumes "\<forall>h\<in>set hs. q \<notin> touched home cwd h"
  shows "files (fst (apply_hunks fs home cwd s hs stdout stderr)) q = files s q"
  using apply_hunks_loop_frame [OF assms, of s "\<lparr>added = [], modified = [], deleted = []\<rparr>"]
  by (auto simp: apply_hunks_def apply_hunks_to_files_def Let_def split: prod.splits sum.splits)

lemma apply_patch_refines:
  assumes "apply_patch fs home cwd s patch stdout stderr = (s', out, err, Ok ())"
  shows "\<exists>args. parse_patch patch = Ok args \<and> spec_hunks home cwd (files s) (args_hunks args) = Some (files s')"
  using assms by (auto simp: apply_patch_def split: sum.splits dest: apply_hunks_ok)

lemma apply_patch_frame:
  assumes "\<forall>args. parse_patch patch = Ok args \<longrightarrow> (\<forall>h\<in>set (args_hunks args). q \<notin> touched home cwd h)"
  shows "files (fst (apply_patch fs home cwd s patch stdout stderr)) q = files s q"
  using assms apply_hunks_frame by (auto simp: apply_patch_def split: sum.splits)

end

section \<open>Missing parents\<close>

lemma walk_error_None: "walk_error t p = None \<longleftrightarrow> (\<forall>k<length p. map_of t (take k p) = Some DirNode)"
  by (auto simp: walk_error_def find_None_iff)

lemma walk_error_missing:
  assumes "\<forall>k<length p. map_of t (take k p) \<in> {None, Some DirNode}" "walk_error t p = Some e"
  shows "\<exists>m. e = IoErr NotFound m"
  using assms by (auto simp: walk_error_def find_Some_iff)

lemma std_create_dir_cases:
  assumes "\<forall>k\<le>length p. map_of t (take k p) \<in> {None, Some DirNode}"
  shows "(\<exists>m. std_create_dir t p = (t, Err (IoErr NotFound m))) \<or>
    (walk_error t p = None \<and> map_of t p = None \<and> std_create_dir t p = (AList.update p DirNode t, Ok ())) \<or>
    (walk_error t p = None \<and> map_of t p = Some DirNode \<and> (\<exists>m. std_create_dir t p = (t, Err (IoErr AlreadyExists m))))"
proof (cases "walk_error t p")
  case None
  with assms [rule_format, of "length p"] show ?thesis by (auto simp: std_create_dir_def)
next
  case (Some e)
  with walk_error_missing [of p t e] assms show ?thesis by (auto simp: std_create_dir_def)
qed

definition dirs_made :: "tree \<Rightarrow> AbsolutePathBuf \<Rightarrow> tree \<Rightarrow> bool" where
  "dirs_made t p t' \<longleftrightarrow> (\<forall>k\<le>length p. map_of t' (take k p) = Some DirNode) \<and>
    (\<forall>q. \<not> prefix q p \<longrightarrow> map_of t' q = map_of t q)"

lemma take_le_prefix: "k \<le> length p \<Longrightarrow> take k p = p \<longleftrightarrow> k = length p"
  by (metis length_take min.absorb2 take_all_iff order_refl)

lemma dirs_made_step:
  assumes "walk_error t p = None" "map_of t p \<in> {None, Some DirNode}"
  shows "dirs_made t p (AList.update p DirNode t)" "map_of t p = Some DirNode \<Longrightarrow> dirs_made t p t"
  using assms by (auto simp: dirs_made_def walk_error_None AList.update_conv' take_le_prefix le_less)

lemma std_create_dir_all_makes:
  assumes "\<forall>k\<le>length p. map_of t (take k p) \<in> {None, Some DirNode}" "map_of t [] = Some DirNode"
  shows "\<exists>t'. std_create_dir_all t p = (t', Ok ()) \<and> dirs_made t p t'"
  using assms
proof (induction p rule: rev_induct)
  case Nil
  then show ?case by (auto simp: std_create_dir_all.simps dirs_made_def)
next
  case (snoc x p)
  let ?p = "p @ [x]"
  have pre: "\<forall>k\<le>length p. map_of t (take k p) \<in> {None, Some DirNode}"
    using snoc.prems(1) by (auto dest: spec [of _ "_ :: nat"] simp: le_Suc_eq)
  then obtain t1 where t1: "std_create_dir_all t p = (t1, Ok ())" "dirs_made t p t1"
    using snoc.IH snoc.prems(2) by blast
  have x: "map_of t ?p \<in> {None, Some DirNode}" using snoc.prems(1) [rule_format, of "length ?p"] by simp
  have t1p: "map_of t1 ?p = map_of t ?p" and w1: "walk_error t1 ?p = None"
    using t1(2) by (auto simp: dirs_made_def walk_error_None less_Suc_eq_le)
  have lift: "dirs_made t ?p t'" if "dirs_made t1 ?p t'" for t'
    using that t1(2) by (auto simp: dirs_made_def)
  have again: "\<exists>t'. dirs_made t ?p t' \<and>
      (std_create_dir t1 ?p = (t', Ok ()) \<or> (\<exists>e. std_create_dir t1 ?p = (t', Err e) \<and> map_of t' ?p = Some DirNode))"
    using dirs_made_step [OF w1] x t1p w1 lift by (auto simp: std_create_dir_def)
  from std_create_dir_cases [OF snoc.prems(1)] show ?case
  proof (elim disjE conjE exE)
    fix m assume "std_create_dir t ?p = (t, Err (IoErr NotFound m))"
    with again t1(1) show ?thesis by (subst std_create_dir_all.simps) auto
  next
    assume "walk_error t ?p = None" "map_of t ?p = None" "std_create_dir t ?p = (AList.update ?p DirNode t, Ok ())"
    then show ?thesis using dirs_made_step(1) x by (subst std_create_dir_all.simps) auto
  next
    fix m assume "walk_error t ?p = None" "map_of t ?p = Some DirNode" "std_create_dir t ?p = (t, Err (IoErr AlreadyExists m))"
    then show ?thesis using dirs_made_step(2) x by (subst std_create_dir_all.simps) auto
  qed
qed

lemma write_retry_creates:
  assumes "p \<noteq> []" "map_of t [] = Some DirNode" "map_of t p \<noteq> Some DirNode"
    and pre: "\<forall>k<length p. map_of t (take k p) \<in> {None, Some DirNode}"
  shows "\<exists>t'. write_file_with_missing_parent_retry direct_fs t p c = (t', Ok ())"
proof (cases "walk_error t p")
  case None
  with assms show ?thesis
    by (simp add: write_file_with_missing_parent_retry_def direct_fs_def std_write_def)
next
  case (Some e)
  then obtain m where m: "e = IoErr NotFound m" using walk_error_missing pre by blast
  have take: "take k (butlast p) = take k p \<and> k < length p" if "k \<le> length (butlast p)" for k
    using that assms(1) by (cases p rule: rev_cases) auto
  with pre have "\<forall>k\<le>length (butlast p). map_of t (take k (butlast p)) \<in> {None, Some DirNode}"
    by metis
  then obtain t1 where t1: "std_create_dir_all t (butlast p) = (t1, Ok ())" "dirs_made t (butlast p) t1"
    using std_create_dir_all_makes assms(2) by blast
  have "walk_error t1 p = None"
    using t1(2) take by (auto simp: walk_error_None dirs_made_def)
  moreover have "\<not> prefix p (butlast p)"
    using assms(1) prefix_length_le [of p "butlast p"] by (cases p) auto
  then have "map_of t1 p \<noteq> Some DirNode" using t1(2) assms(3) by (simp add: dirs_made_def)
  ultimately show ?thesis
    using Some m t1(1) assms(1)
    by (simp add: write_file_with_missing_parent_retry_def direct_fs_def std_write_def abs_parent_def
        direct_create_directory_def)
qed

section \<open>Properties\<close>

text \<open>C1: A patch that applies successfully has exactly the specified effect on the files: the text
  parses, and the files afterwards are those before with every hunk's effect applied in order.\<close>

theorem apply_patch_refines_spec:
  assumes "apply_patch direct_fs home cwd t patch stdout stderr = (t', out, err, Ok ())"
  shows "\<exists>args. parse_patch patch = Ok args \<and>
    spec_hunks home cwd (tree_files t) (args_hunks args) = Some (tree_files t')"
  using assms by (rule direct.apply_patch_refines)

definition sample_tree :: tree where
  "sample_tree = [([], DirNode), ([''r''], DirNode), ([''r'', ''a''], FileNode (''x'' @ [LF])), ([''r'', ''k''], FileNode ''k'')]"

definition sample_patch :: string where
  "sample_patch = join_with [LF]
    [''*** Begin Patch'', ''*** Update File: a'', ''*** Move to: d/b'', ''@@'', ''-x'', ''+y'', ''*** End Patch'']"

definition sample_tree' :: tree where
  "sample_tree' = [([], DirNode), ([''r''], DirNode), ([''r'', ''k''], FileNode ''k''), ([''r'', ''d''], DirNode),
    ([''r'', ''d'', ''b''], FileNode (''y'' @ [LF]))]"

definition sample_summary :: string where
  "sample_summary = ''Success. Updated the following files:'' @ [LF] @ ''M d/b'' @ [LF]"

definition sample_update :: Hunk where
  "sample_update = UpdateFile ''a'' (Some ''d/b'')
    [\<lparr>change_context = None, old_lines = [''x''], new_lines = [''y''], is_end_of_file = False\<rparr>]"

lemma sample_patch_parses:
  "parse_patch sample_patch = Ok \<lparr>args_patch = sample_patch, args_hunks = [sample_update], args_workdir = None\<rparr>"
  by code_simp

lemma sample_update_applies:
  "apply_hunk direct_fs None [''r''] sample_tree \<lparr>added = [], modified = [], deleted = []\<rparr> sample_update =
   (sample_tree', Ok \<lparr>added = [], modified = [''d/b''], deleted = []\<rparr>)"
  by code_simp

lemma sample_patch_applies:
  "apply_patch direct_fs None [''r''] sample_tree sample_patch [] [] = (sample_tree', sample_summary, [], Ok ())"
  by (simp add: apply_patch_def sample_patch_parses apply_hunks_def apply_hunks_to_files_def sample_update_applies
      print_summary_def sample_summary_def)

theorem apply_patch_refines_spec_witness:
  "\<exists>args. parse_patch sample_patch = Ok args \<and>
    spec_hunks None [''r''] (tree_files sample_tree) (args_hunks args) = Some (tree_files sample_tree')"
  by (rule apply_patch_refines_spec [OF sample_patch_applies])

text \<open>C24: Whether it succeeds or fails, applying a patch leaves every file alone whose path no hunk names
  as its path or its move target; a patch that does not parse changes nothing.\<close>

theorem apply_patch_leaves_other_files:
  assumes "\<forall>args. parse_patch patch = Ok args \<longrightarrow> (\<forall>h\<in>set (args_hunks args). q \<notin> touched home cwd h)"
  shows "tree_files (fst (apply_patch direct_fs home cwd t patch stdout stderr)) q = tree_files t q"
  using assms by (rule direct.apply_patch_frame)

lemma sample_patch_untouched:
  "\<forall>args. parse_patch sample_patch = Ok args \<longrightarrow> (\<forall>h\<in>set (args_hunks args). [''r'', ''k''] \<notin> touched None [''r''] h)"
proof -
  have "resolve_abs None [''r''] ''a'' = [''r'', ''a'']" "resolve_abs None [''r''] ''d/b'' = [''r'', ''d'', ''b'']"
    by code_simp+
  then show ?thesis by (simp add: sample_patch_parses sample_update_def)
qed

theorem apply_patch_leaves_other_files_witness:
  "tree_files (fst (apply_patch direct_fs None [''r''] sample_tree sample_patch [] [])) [''r'', ''k''] =
   tree_files sample_tree [''r'', ''k'']"
  by (rule apply_patch_leaves_other_files [OF sample_patch_untouched])

text \<open>Adding a file succeeds even when directories on its path are missing: unless an ancestor is a
  regular file or the path is a directory, the parents are created and the file gets the contents.\<close>

theorem add_file_creates_parents:
  assumes "p = resolve_abs home cwd f" "p \<noteq> []" "map_of t [] = Some DirNode" "map_of t p \<noteq> Some DirNode"
    and "\<forall>k<length p. map_of t (take k p) \<in> {None, Some DirNode}"
  shows "\<exists>t'. apply_hunk direct_fs home cwd t aff (AddFile f c) =
      (t', Ok (aff\<lparr>added := added aff @ [f]\<rparr>)) \<and> tree_files t' = (tree_files t)(p \<mapsto> c)"
proof -
  obtain t' where t': "write_file_with_missing_parent_retry direct_fs t p c = (t', Ok ())"
    using write_retry_creates [of p t c] assms by blast
  with direct.write_retry_ok [OF t'] assms(1) show ?thesis by (simp add: apply_hunk_def)
qed

theorem add_file_creates_parents_witness:
  "\<exists>t'. apply_hunk direct_fs None [''r''] sample_tree \<lparr>added = [], modified = [], deleted = []\<rparr> (AddFile ''p/q/f'' ''z'') =
      (t', Ok \<lparr>added = [''p/q/f''], modified = [], deleted = []\<rparr>) \<and>
    tree_files t' [''r'', ''p'', ''q'', ''f''] = Some ''z''"
proof -
  have path: "[''r'', ''p'', ''q'', ''f''] = resolve_abs None [''r''] ''p/q/f''" by code_simp
  have "map_of sample_tree [] = Some DirNode" "map_of sample_tree [''r'', ''p'', ''q'', ''f''] \<noteq> Some DirNode"
    "\<forall>k<length [''r'', ''p'', ''q'', ''f'']. map_of sample_tree (take k [''r'', ''p'', ''q'', ''f'']) \<in> {None, Some DirNode}"
    by (simp_all add: sample_tree_def All_less_Suc)
  from add_file_creates_parents [OF path _ this, of "\<lparr>added = [], modified = [], deleted = []\<rparr>" "''z''"]
  show ?thesis by auto
qed

text \<open>A rename hunk whose move target resolves to the file itself removes the file: the new contents
  are written and then the original path is removed.\<close>

theorem move_to_self_removes:
  assumes "apply_hunk direct_fs home cwd t aff (UpdateFile f (Some d) chunks) = (t', Ok aff')"
    and "resolve_abs home cwd d = resolve_abs home cwd f"
  shows "tree_files t' (resolve_abs home cwd f) = None"
  using direct.apply_hunk_ok [OF assms(1)] assms(2) by (auto dest: fun_cong [of _ _ "resolve_abs home cwd f"])

lemma self_move_applies:
  "apply_hunk direct_fs None [''r''] sample_tree \<lparr>added = [], modified = [], deleted = []\<rparr>
     (UpdateFile ''a'' (Some ''./a'')
       [\<lparr>change_context = None, old_lines = [''x''], new_lines = [''y''], is_end_of_file = False\<rparr>]) =
   ([([], DirNode), ([''r''], DirNode), ([''r'', ''k''], FileNode ''k'')],
    Ok \<lparr>added = [], modified = [''./a''], deleted = []\<rparr>)"
  by code_simp

lemma self_move_same: "resolve_abs None [''r''] ''./a'' = resolve_abs None [''r''] ''a''"
  by code_simp

theorem move_to_self_removes_witness:
  "tree_files [([], DirNode), ([''r''], DirNode), ([''r'', ''k''], FileNode ''k'')] (resolve_abs None [''r''] ''a'') = None"
  by (rule move_to_self_removes [OF self_move_applies self_move_same])

end
