(* ===== verification/Exec_Rule.thy ===== *)
theory Exec_Rule
  imports Abs_Path
begin

text \<open>
  Execution-policy rules (execpolicy/src/decision.rs, executable_name.rs, rule.rs): decisions with
  their order, prefix patterns, the rule trait, and the normalisation of network hosts.
\<close>

section \<open>Decisions\<close>

datatype Decision = Allow | Prompt | Forbidden

text \<open>The derived order is the order of declaration.\<close>

fun decision_rank :: "Decision \<Rightarrow> nat" where
  "decision_rank Allow = 0"
| "decision_rank Prompt = 1"
| "decision_rank Forbidden = 2"

lemma decision_rank_inj: "decision_rank a = decision_rank b \<Longrightarrow> a = b"
  by (cases a; cases b; simp)

instantiation Decision :: linorder
begin

definition less_eq_Decision :: "Decision \<Rightarrow> Decision \<Rightarrow> bool" where
  "a \<le> b \<longleftrightarrow> decision_rank a \<le> decision_rank b"

definition less_Decision :: "Decision \<Rightarrow> Decision \<Rightarrow> bool" where
  "a < b \<longleftrightarrow> decision_rank a < decision_rank b"

instance
proof (intro_classes, goal_cases)
  case (4 a b)
  then show ?case
    by (intro decision_rank_inj) (simp add: less_eq_Decision_def)
qed (auto simp: less_eq_Decision_def less_Decision_def)

end

lemma decision_le_iff [simp]:
  "Allow \<le> d" "d \<le> Forbidden" "Prompt \<le> d \<longleftrightarrow> d \<noteq> Allow" "Forbidden \<le> d \<longleftrightarrow> d = Forbidden"
  "d \<le> Allow \<longleftrightarrow> d = Allow" "d \<le> Prompt \<longleftrightarrow> d \<noteq> Forbidden"
  by (cases d; simp add: less_eq_Decision_def)+

datatype policy_error =
    InvalidDecision string
  | InvalidPattern string
  | InvalidRule string

definition decision_parse :: "string \<Rightarrow> (policy_error, Decision) result" where
  "decision_parse raw =
    (if raw = ''allow'' then Ok Allow
     else if raw = ''prompt'' then Ok Prompt
     else if raw = ''forbidden'' then Ok Forbidden
     else Err (InvalidDecision raw))"

text \<open>Executable names, on platforms other than Windows.\<close>

definition executable_lookup_key :: "string \<Rightarrow> string" where
  "executable_lookup_key raw = raw"

definition executable_path_lookup_key :: "string \<Rightarrow> string option" where
  "executable_path_lookup_key path = map_option executable_lookup_key (path_file_name path)"

section \<open>Patterns and rules\<close>

datatype PatternToken = Single string | Alts "string list"

fun token_matches :: "PatternToken \<Rightarrow> string \<Rightarrow> bool" where
  "token_matches (Single expected) token \<longleftrightarrow> expected = token"
| "token_matches (Alts alternatives) token \<longleftrightarrow> list_ex (\<lambda>alt. alt = token) alternatives"

fun token_alternatives :: "PatternToken \<Rightarrow> string list" where
  "token_alternatives (Single expected) = [expected]"
| "token_alternatives (Alts alternatives) = alternatives"

record PrefixPattern =
  pat_first :: string
  pat_rest :: "PatternToken list"

definition matches_prefix :: "PrefixPattern \<Rightarrow> string list \<Rightarrow> string list option" where
  "matches_prefix pat cmd =
    (let pattern_length = length (pat_rest pat) + 1 in
     if length cmd < pattern_length \<or> hd cmd \<noteq> pat_first pat then None
     else if list_all2 token_matches (pat_rest pat) (take (length (pat_rest pat)) (tl cmd))
     then Some (take pattern_length cmd)
     else None)"

datatype RuleMatch =
    PrefixRuleMatch "string list" Decision "string option" "string option"
  | HeuristicsRuleMatch "string list" Decision

fun match_decision :: "RuleMatch \<Rightarrow> Decision" where
  "match_decision (PrefixRuleMatch _ d _ _) = d"
| "match_decision (HeuristicsRuleMatch _ d) = d"

fun with_resolved_program :: "string \<Rightarrow> RuleMatch \<Rightarrow> RuleMatch" where
  "with_resolved_program prog (PrefixRuleMatch mp d _ j) = PrefixRuleMatch mp d (Some prog) j"
| "with_resolved_program prog m = m"

record PrefixRule =
  rule_pattern :: PrefixPattern
  rule_decision :: Decision
  rule_justification :: "string option"

definition rule_program :: "PrefixRule \<Rightarrow> string" where
  "rule_program r = pat_first (rule_pattern r)"

definition rule_matches :: "PrefixRule \<Rightarrow> string list \<Rightarrow> RuleMatch option" where
  "rule_matches r cmd =
    map_option (\<lambda>mp. PrefixRuleMatch mp (rule_decision r) None (rule_justification r))
      (matches_prefix (rule_pattern r) cmd)"

datatype NetworkRuleProtocol = Http | Https | Socks5Tcp | Socks5Udp

definition protocol_parse :: "string \<Rightarrow> (policy_error, NetworkRuleProtocol) result" where
  "protocol_parse raw =
    (if raw = ''http'' then Ok Http
     else if raw = ''https'' \<or> raw = ''https_connect'' \<or> raw = ''http-connect'' then Ok Https
     else if raw = ''socks5_tcp'' then Ok Socks5Tcp
     else if raw = ''socks5_udp'' then Ok Socks5Udp
     else Err (InvalidRule
       (''network_rule protocol must be one of http, https, socks5_tcp, socks5_udp (got '' @ raw @ '')'')))"

fun as_policy_string :: "NetworkRuleProtocol \<Rightarrow> string" where
  "as_policy_string Http = ''http''"
| "as_policy_string Https = ''https''"
| "as_policy_string Socks5Tcp = ''socks5_tcp''"
| "as_policy_string Socks5Udp = ''socks5_udp''"

record NetworkRule =
  net_host :: string
  net_protocol :: NetworkRuleProtocol
  net_decision :: Decision
  net_justification :: "string option"

definition all_digits :: "string \<Rightarrow> bool" where
  "all_digits s \<longleftrightarrow> s \<noteq> [] \<and> list_all is_ascii_digit s"

definition port_suffix_ok :: "string \<Rightarrow> bool" where
  "port_suffix_ok s \<longleftrightarrow> (case strip_prefix '':'' s of Some port \<Rightarrow> all_digits port | None \<Rightarrow> False)"

text \<open>The host without brackets or port.\<close>

definition host_part :: "string \<Rightarrow> string \<Rightarrow> (policy_error, string) result" where
  "host_part raw host =
    (case strip_prefix ''['' host of
       Some stripped \<Rightarrow>
         (case split_once (CHR '']'') stripped of
            None \<Rightarrow> Err (InvalidRule ''network_rule host has an invalid bracketed IPv6 literal'')
          | Some (inside, rest) \<Rightarrow>
              if rest \<noteq> [] \<and> \<not> port_suffix_ok rest
              then Err (InvalidRule (''network_rule host contains an unsupported suffix: '' @ raw))
              else Ok inside)
     | None \<Rightarrow>
         if length (filter (\<lambda>c. c = CHR '':'') host) = 1
         then (case rsplit_once (CHR '':'') host of
            Some (candidate, port) \<Rightarrow> if candidate \<noteq> [] \<and> all_digits port then Ok candidate else Ok host
          | None \<Rightarrow> Ok host)
         else Ok host)"

definition normalize_network_rule_host :: "string \<Rightarrow> (policy_error, string) result" where
  "normalize_network_rule_host raw =
    (let host = trim raw in
     if host = [] then Err (InvalidRule ''network_rule host cannot be empty'')
     else if contains ''://'' host \<or> contains ''/'' host \<or> contains ''?'' host \<or> contains ''#'' host
     then Err (InvalidRule ''network_rule host must be a hostname or IP literal (without scheme or path)'')
     else (case host_part raw host of
        Err e \<Rightarrow> Err e
      | Ok host \<Rightarrow>
          (let normalized = to_ascii_lowercase (trim (trim_end_matches (CHR ''.'') host)) in
           if normalized = [] then Err (InvalidRule ''network_rule host cannot be empty'')
           else if contains ''*'' normalized
           then Err (InvalidRule ''network_rule host must be a specific host; wildcards are not allowed'')
           else if has_whitespace normalized
           then Err (InvalidRule ''network_rule host cannot contain whitespace'')
           else Ok normalized)))"

section \<open>The rule interface\<close>

text \<open>
  What the policy relies on when it files rules under the program they name: a rule matches no
  command of another program, and what it reports as matched is a non-empty prefix of the command.
\<close>

fun matched_prefix :: "RuleMatch \<Rightarrow> string list" where
  "matched_prefix (PrefixRuleMatch mp _ _ _) = mp"
| "matched_prefix (HeuristicsRuleMatch cmd _) = cmd"

locale rule =
  fixes program :: "'r \<Rightarrow> string"
    and matches :: "'r \<Rightarrow> string list \<Rightarrow> RuleMatch option"
  assumes matches_program: "matches r cmd = Some m \<Longrightarrow> cmd \<noteq> [] \<and> hd cmd = program r"
    and matches_is_prefix: "matches r cmd = Some m \<Longrightarrow> prefix (matched_prefix m) cmd \<and> matched_prefix m \<noteq> []"
    and matches_extend: "matches r cmd = Some m \<Longrightarrow> matches r (cmd @ args) = Some m"
begin

lemma only_program_rules:
  assumes "\<forall>(key, rs)\<in>set table. \<forall>r\<in>set rs. program r = key" "distinct (map fst table)"
    "(key, rs) \<in> set table" "r \<in> set rs" "matches r cmd = Some m"
  shows "map_of table (hd cmd) = Some rs"
  using assms matches_program [OF assms(5)] by (auto dest: map_of_is_SomeI)

end

lemma matches_prefix_Some:
  "matches_prefix pat cmd = Some mp \<longleftrightarrow>
    cmd \<noteq> [] \<and> hd cmd = pat_first pat \<and> mp = take (length (pat_rest pat) + 1) cmd \<and>
    list_all2 token_matches (pat_rest pat) (take (length (pat_rest pat)) (tl cmd))"
  by (cases cmd) (auto simp: matches_prefix_def Let_def dest: list_all2_lengthD)

interpretation prefix_rule: rule rule_program rule_matches
proof
  fix r cmd m args
  assume m: "rule_matches r cmd = Some m"
  then obtain mp where mp: "matches_prefix (rule_pattern r) cmd = Some mp"
    and m': "m = PrefixRuleMatch mp (rule_decision r) None (rule_justification r)"
    by (auto simp: rule_matches_def)
  show "cmd \<noteq> [] \<and> hd cmd = rule_program r"
    using mp by (simp add: matches_prefix_Some rule_program_def)
  show "prefix (matched_prefix m) cmd \<and> matched_prefix m \<noteq> []"
    using mp m' by (auto simp: matches_prefix_Some take_is_prefix)
  let ?n = "length (pat_rest (rule_pattern r))"
  have len: "?n \<le> length (tl cmd)" and ne: "cmd \<noteq> []"
    using mp by (auto simp: matches_prefix_Some dest: list_all2_lengthD)
  then have "take ?n (tl (cmd @ args)) = take ?n (tl cmd)" "take (?n + 1) (cmd @ args) = take (?n + 1) cmd"
    by (cases cmd; simp)+
  with mp ne have "matches_prefix (rule_pattern r) (cmd @ args) = Some mp"
    by (simp add: matches_prefix_Some del: take_append tl_append2)
  with m' show "rule_matches r (cmd @ args) = Some m" by (simp add: rule_matches_def)
qed

section \<open>Hosts\<close>

lemma host_part_set: "host_part raw host = Ok h \<Longrightarrow> set h \<subseteq> set host"
  by (auto simp: host_part_def strip_prefix_Some_iff split: option.splits if_splits prod.splits
      dest!: split_once_set rsplit_once_set)

section \<open>Properties\<close>

text \<open>An accepted network-rule host is not empty and has no white space, no wildcard and none of
  \<open>/\<close>, \<open>?\<close>, \<open>#\<close>, and it is in lower case.\<close>

theorem normalized_host_ok:
  assumes "normalize_network_rule_host raw = Ok h"
  shows "h \<noteq> [] \<and> \<not> has_whitespace h \<and> set h \<inter> {CHR ''*'', CHR ''/'', CHR ''?'', CHR ''#''} = {} \<and>
    to_ascii_lowercase h = h"
proof -
  from assms obtain host where host: "host_part raw (trim raw) = Ok host"
    and h: "h = to_ascii_lowercase (trim (trim_end_matches (CHR ''.'') host))"
    and ok: "h \<noteq> []" "CHR ''*'' \<notin> set h" "\<not> has_whitespace h"
    and url: "CHR ''/'' \<notin> set (trim raw)" "CHR ''?'' \<notin> set (trim raw)" "CHR ''#'' \<notin> set (trim raw)"
    by (auto simp: normalize_network_rule_host_def Let_def contains_single split: if_splits sum.splits)
  have "c \<in> set (trim raw)" if "c \<in> set h" "\<not> (97 \<le> (of_char c :: nat) \<and> of_char c \<le> (122 :: nat))" for c
    using that h set_to_ascii_lowercase set_trim set_trim_end_matches host_part_set [OF host] by blast
  from this [of "CHR ''/''"] this [of "CHR ''?''"] this [of "CHR ''#''"] ok url h show ?thesis by auto
qed

theorem normalized_host_ok_witness:
  "normalize_network_rule_host '' Example.COM:443 '' = Ok ''example.com'' \<and> ''example.com'' \<noteq> []"
proof -
  have "normalize_network_rule_host '' Example.COM:443 '' = Ok ''example.com''" by code_simp
  with normalized_host_ok [OF this] show ?thesis by blast
qed

end
