(* ===== verification/Exec_Policy.thy ===== *)
theory Exec_Policy
  imports Exec_Rule "HOL-Library.AList" "HOL-Library.Char_ord" "HOL-Library.List_Lexorder"
begin

text \<open>
  The execution policy (execpolicy/src/policy.rs): rules filed by program, their evaluation on
  commands, overlays, and the compiled network domains.  The multimap and the hash map are
  association lists; their iteration order, which Rust leaves open, is the list order, and no
  property below depends on it.  \<open>Evaluation::from_matches\<close> panics on an empty list, so evaluations
  are optional.  The environment a host executable is looked up in (home and current directory) is
  an argument.
\<close>

section \<open>State\<close>

record Policy =
  rules_by_program :: "(string \<times> PrefixRule list) list"
  network_rules :: "NetworkRule list"
  host_executables :: "(string \<times> string list) list"

record Evaluation =
  decision :: Decision
  matched_rules :: "RuleMatch list"

record host_env =
  env_home :: "string option"
  env_cwd :: "string option"

definition policy_empty :: Policy where
  "policy_empty = \<lparr>rules_by_program = [], network_rules = [], host_executables = []\<rparr>"

fun mm_insert :: "'k \<Rightarrow> 'v \<Rightarrow> ('k \<times> 'v list) list \<Rightarrow> ('k \<times> 'v list) list" where
  "mm_insert k v [] = [(k, [v])]"
| "mm_insert k v ((k', vs) # m) = (if k = k' then (k, vs @ [v]) # m else (k', vs) # mm_insert k v m)"

section \<open>Operations\<close>

fun render_pattern_token :: "PatternToken \<Rightarrow> string" where
  "render_pattern_token (Single value) = value"
| "render_pattern_token (Alts alternatives) = ''['' @ join_with ''|'' alternatives @ '']''"

definition rendered_prefix :: "PrefixRule \<Rightarrow> string list" where
  "rendered_prefix r = pat_first (rule_pattern r) # map render_pattern_token (pat_rest (rule_pattern r))"

definition get_allowed_prefixes :: "Policy \<Rightarrow> string list list" where
  "get_allowed_prefixes p =
    remdups_adj (sort (concat (map (\<lambda>(_, rules).
      map rendered_prefix (filter (\<lambda>r. rule_decision r = Allow) rules)) (rules_by_program p))))"

definition add_prefix_rule :: "Policy \<Rightarrow> string list \<Rightarrow> Decision \<Rightarrow> (policy_error, Policy) result" where
  "add_prefix_rule p prefix_tokens d =
    (case prefix_tokens of
       [] \<Rightarrow> Err (InvalidPattern ''prefix cannot be empty'')
     | first_token # others \<Rightarrow>
         (let r = \<lparr>rule_pattern = \<lparr>pat_first = first_token, pat_rest = map Single others\<rparr>,
                   rule_decision = d, rule_justification = None\<rparr> in
          Ok (p\<lparr>rules_by_program := mm_insert first_token r (rules_by_program p)\<rparr>)))"

definition add_network_rule ::
  "Policy \<Rightarrow> string \<Rightarrow> NetworkRuleProtocol \<Rightarrow> Decision \<Rightarrow> string option \<Rightarrow> (policy_error, Policy) result" where
  "add_network_rule p host protocol d justification =
    (case normalize_network_rule_host host of
       Err e \<Rightarrow> Err e
     | Ok host \<Rightarrow>
         if (case justification of Some raw \<Rightarrow> trim raw = [] | None \<Rightarrow> False)
         then Err (InvalidRule ''justification cannot be empty'')
         else Ok (p\<lparr>network_rules := network_rules p @
           [\<lparr>net_host = host, net_protocol = protocol, net_decision = d, net_justification = justification\<rparr>]\<rparr>))"

definition set_host_executable_paths :: "Policy \<Rightarrow> string \<Rightarrow> string list \<Rightarrow> Policy" where
  "set_host_executable_paths p name paths = p\<lparr>host_executables := AList.update name paths (host_executables p)\<rparr>"

definition merge_rules ::
  "(string \<times> PrefixRule list) list \<Rightarrow> (string \<times> PrefixRule list) list \<Rightarrow> (string \<times> PrefixRule list) list" where
  "merge_rules base overlay =
    foldl (\<lambda>m (program, rules). foldl (\<lambda>m r. mm_insert program r m) m rules) base overlay"

definition merge_overlay :: "Policy \<Rightarrow> Policy \<Rightarrow> Policy" where
  "merge_overlay p overlay =
    \<lparr>rules_by_program = merge_rules (rules_by_program p) (rules_by_program overlay),
     network_rules = network_rules p @ network_rules overlay,
     host_executables = foldl (\<lambda>m (name, paths). AList.update name paths m) (host_executables p) (host_executables overlay)\<rparr>"

definition upsert_domain :: "string list \<Rightarrow> string \<Rightarrow> string list" where
  "upsert_domain entries host = filter (\<lambda>e. e \<noteq> host) entries @ [host]"

fun compile_step :: "string list \<times> string list \<Rightarrow> NetworkRule \<Rightarrow> string list \<times> string list" where
  "compile_step (allowed, denied) r =
    (case net_decision r of
       Allow \<Rightarrow> (upsert_domain allowed (net_host r), filter (\<lambda>e. e \<noteq> net_host r) denied)
     | Forbidden \<Rightarrow> (filter (\<lambda>e. e \<noteq> net_host r) allowed, upsert_domain denied (net_host r))
     | Prompt \<Rightarrow> (allowed, denied))"

definition compiled_network_domains :: "Policy \<Rightarrow> string list \<times> string list" where
  "compiled_network_domains p = foldl compile_step ([], []) (network_rules p)"

definition match_exact_rules :: "Policy \<Rightarrow> string list \<Rightarrow> RuleMatch list option" where
  "match_exact_rules p cmd =
    (case cmd of
       [] \<Rightarrow> None
     | first # _ \<Rightarrow>
         Some (case map_of (rules_by_program p) first of
                 Some rules \<Rightarrow> List.map_filter (\<lambda>r. rule_matches r cmd) rules
               | None \<Rightarrow> []))"

definition match_host_executable_rules :: "host_env \<Rightarrow> Policy \<Rightarrow> string list \<Rightarrow> RuleMatch list" where
  "match_host_executable_rules env p cmd =
    (case cmd of
       [] \<Rightarrow> []
     | first # args \<Rightarrow>
    (case from_absolute_path (env_home env) (env_cwd env) first of
       None \<Rightarrow> []
     | Some program \<Rightarrow>
    (case executable_path_lookup_key program of
       None \<Rightarrow> []
     | Some basename \<Rightarrow>
    (case map_of (rules_by_program p) basename of
       None \<Rightarrow> []
     | Some rules \<Rightarrow>
         if (case map_of (host_executables p) basename of
               Some paths \<Rightarrow> \<not> list_ex (\<lambda>path. path = program) paths
             | None \<Rightarrow> False)
         then []
         else map (with_resolved_program program) (List.map_filter (\<lambda>r. rule_matches r (basename # args)) rules)))))"

definition matches_for_command_with_options ::
  "host_env \<Rightarrow> Policy \<Rightarrow> string list \<Rightarrow> (string list \<Rightarrow> Decision) option \<Rightarrow> bool \<Rightarrow> RuleMatch list" where
  "matches_for_command_with_options env p cmd heuristics_fallback resolve_host_executables =
    (let matched = (case match_exact_rules p cmd of
                      Some (m # ms) \<Rightarrow> m # ms
                    | _ \<Rightarrow> if resolve_host_executables then match_host_executable_rules env p cmd else []) in
     case (matched, heuristics_fallback) of
       ([], Some f) \<Rightarrow> [HeuristicsRuleMatch cmd (f cmd)]
     | _ \<Rightarrow> matched)"

definition max_decision :: "RuleMatch list \<Rightarrow> Decision option" where
  "max_decision ms =
    (case map match_decision ms of
       [] \<Rightarrow> None
     | d # ds \<Rightarrow> Some (foldl max d ds))"

definition from_matches :: "RuleMatch list \<Rightarrow> Evaluation option" where
  "from_matches ms = map_option (\<lambda>d. \<lparr>decision = d, matched_rules = ms\<rparr>) (max_decision ms)"

definition evaluation_is_match :: "Evaluation \<Rightarrow> bool" where
  "evaluation_is_match ev \<longleftrightarrow>
    list_ex (\<lambda>m. case m of HeuristicsRuleMatch _ _ \<Rightarrow> False | _ \<Rightarrow> True) (matched_rules ev)"

definition check_with_options ::
  "host_env \<Rightarrow> Policy \<Rightarrow> string list \<Rightarrow> (string list \<Rightarrow> Decision) \<Rightarrow> bool \<Rightarrow> Evaluation option" where
  "check_with_options env p cmd f resolve =
    from_matches (matches_for_command_with_options env p cmd (Some f) resolve)"

definition check :: "host_env \<Rightarrow> Policy \<Rightarrow> string list \<Rightarrow> (string list \<Rightarrow> Decision) \<Rightarrow> Evaluation option" where
  "check env p cmd f = check_with_options env p cmd f False"

definition check_multiple_with_options ::
  "host_env \<Rightarrow> Policy \<Rightarrow> string list list \<Rightarrow> (string list \<Rightarrow> Decision) \<Rightarrow> bool \<Rightarrow> Evaluation option" where
  "check_multiple_with_options env p commands f resolve =
    from_matches (concat (map (\<lambda>cmd. matches_for_command_with_options env p cmd (Some f) resolve) commands))"

definition check_multiple ::
  "host_env \<Rightarrow> Policy \<Rightarrow> string list list \<Rightarrow> (string list \<Rightarrow> Decision) \<Rightarrow> Evaluation option" where
  "check_multiple env p commands f = check_multiple_with_options env p commands f False"

section \<open>Multimaps\<close>

definition mm_get :: "('k \<times> 'v list) list \<Rightarrow> 'k \<Rightarrow> 'v list" where
  "mm_get m k = (case map_of m k of None \<Rightarrow> [] | Some vs \<Rightarrow> vs)"

lemma mm_get_insert: "mm_get (mm_insert k v m) k' = (if k' = k then mm_get m k @ [v] else mm_get m k')"
  by (induction k v m rule: mm_insert.induct) (auto simp: mm_get_def)

lemma keys_mm_insert: "set (map fst (mm_insert k v m)) = insert k (set (map fst m))"
  by (induction k v m rule: mm_insert.induct) auto

lemma distinct_mm_insert: "distinct (map fst m) \<Longrightarrow> distinct (map fst (mm_insert k v m))"
proof (induction k v m rule: mm_insert.induct)
  case (2 k v k' vs m)
  with keys_mm_insert [of k v m] show ?case by auto
qed simp

lemma mm_get_inserts:
  "mm_get (foldl (\<lambda>m r. mm_insert k r m) m vs) k' = (if k' = k then mm_get m k @ vs else mm_get m k')"
  by (induction vs arbitrary: m) (auto simp: mm_get_insert)

lemma mm_get_merge_all:
  "mm_get (merge_rules a b) k = mm_get a k @ concat (map snd (filter (\<lambda>e. fst e = k) b))"
  unfolding merge_rules_def by (induction b arbitrary: a) (auto simp: mm_get_inserts)

lemma filter_key_distinct:
  "distinct (map fst m) \<Longrightarrow> concat (map snd (filter (\<lambda>e. fst e = k) m)) = mm_get m k"
proof (induction m)
  case (Cons e m)
  obtain k' vs where e: "e = (k', vs)" by (cases e)
  have "k' = k \<Longrightarrow> mm_get m k = []"
    using Cons.prems e map_of_eq_None_iff [of m k] by (auto simp: mm_get_def)
  with Cons e show ?case by (auto simp: mm_get_def)
qed (simp add: mm_get_def)

lemma mm_get_merge:
  "distinct (map fst b) \<Longrightarrow> mm_get (merge_rules a b) k = mm_get a k @ mm_get b k"
  by (simp add: mm_get_merge_all filter_key_distinct)

lemma distinct_merge: "distinct (map fst a) \<Longrightarrow> distinct (map fst (merge_rules a b))"
proof -
  have inner: "distinct (map fst m) \<Longrightarrow> distinct (map fst (foldl (\<lambda>m r. mm_insert k r m) m vs))" for m :: "(string \<times> PrefixRule list) list" and k vs
    by (induction vs arbitrary: m) (simp_all add: distinct_mm_insert)
  show "distinct (map fst a) \<Longrightarrow> distinct (map fst (merge_rules a b))"
    unfolding merge_rules_def by (induction b arbitrary: a) (auto simp: inner)
qed

section \<open>Well-formed policies\<close>

definition wf_policy :: "Policy \<Rightarrow> bool" where
  "wf_policy p \<longleftrightarrow> distinct (map fst (rules_by_program p)) \<and>
    (\<forall>k. \<forall>r\<in>set (mm_get (rules_by_program p) k). rule_program r = k)"

text \<open>The rules of a policy.\<close>

definition policy_rules :: "Policy \<Rightarrow> PrefixRule set" where
  "policy_rules p = (\<Union>k. set (mm_get (rules_by_program p) k))"

lemma wf_policy_empty: "wf_policy policy_empty"
  by (simp add: wf_policy_def policy_empty_def mm_get_def)

lemma wf_merge_overlay: "wf_policy p \<Longrightarrow> wf_policy q \<Longrightarrow> wf_policy (merge_overlay p q)"
  by (auto simp: wf_policy_def merge_overlay_def mm_get_merge distinct_merge)

lemma wf_add_prefix_rule: "wf_policy p \<Longrightarrow> add_prefix_rule p ts d = Ok p' \<Longrightarrow> wf_policy p'"
  by (auto simp: wf_policy_def add_prefix_rule_def Let_def mm_get_insert distinct_mm_insert rule_program_def
      split: list.splits if_splits)

section \<open>Matching\<close>

lemma match_exact_rules_get:
  "cmd \<noteq> [] \<Longrightarrow> match_exact_rules p cmd =
    Some (List.map_filter (\<lambda>r. rule_matches r cmd) (mm_get (rules_by_program p) (hd cmd)))"
  by (cases cmd) (auto simp: match_exact_rules_def mm_get_def List.map_filter_def split: option.splits)

lemma exact_match_complete:
  assumes "wf_policy p" "r \<in> policy_rules p" "rule_matches r cmd = Some m"
  shows "\<exists>ms. match_exact_rules p cmd = Some ms \<and> m \<in> set ms"
proof -
  obtain k where k: "r \<in> set (mm_get (rules_by_program p) k)" using assms(2) by (auto simp: policy_rules_def)
  moreover have "k = hd cmd" "cmd \<noteq> []"
    using prefix_rule.matches_program [OF assms(3)] assms(1) k by (auto simp: wf_policy_def)
  ultimately show ?thesis
    using assms(3) by (auto simp: match_exact_rules_get set_map_filter)
qed

lemma matches_with_exact:
  "match_exact_rules p cmd = Some ms \<Longrightarrow> ms \<noteq> [] \<Longrightarrow> matches_for_command_with_options env p cmd f res = ms"
  by (auto simp: matches_for_command_with_options_def Let_def split: list.splits)

lemma matches_nonempty: "matches_for_command_with_options env p cmd (Some f) res \<noteq> []"
  by (auto simp: matches_for_command_with_options_def Let_def split: list.splits option.splits)

lemma max_decision_Max: "ms \<noteq> [] \<Longrightarrow> max_decision ms = Some (Max (match_decision ` set ms))"
proof -
  assume "ms \<noteq> []"
  then obtain d ds where d: "map match_decision ms = d # ds" by (cases ms) auto
  have "foldl max d ds = fold max ds d"
    by (simp add: foldl_conv_fold max.commute)
  also have "\<dots> = Max (set (d # ds))" by (simp only: Max.set_eq_fold)
  also have "set (d # ds) = match_decision ` set ms" using d by (metis set_map)
  finally show ?thesis using d by (simp add: max_decision_def)
qed

lemma from_matches_Max:
  "ms \<noteq> [] \<Longrightarrow> from_matches ms = Some \<lparr>decision = Max (match_decision ` set ms), matched_rules = ms\<rparr>"
  by (simp add: from_matches_def max_decision_Max)

lemma from_matches_None: "from_matches ms = None \<longleftrightarrow> ms = []"
  by (cases ms) (auto simp: from_matches_Max, simp add: from_matches_def max_decision_def)

lemma check_Some:
  "check_with_options env p cmd f res =
    Some \<lparr>decision = Max (match_decision ` set (matches_for_command_with_options env p cmd (Some f) res)),
          matched_rules = matches_for_command_with_options env p cmd (Some f) res\<rparr>"
  by (simp add: check_with_options_def from_matches_Max matches_nonempty)

section \<open>Network domains\<close>

text \<open>The decision of the last rule for a host that allows or forbids.\<close>

definition effective_decision :: "NetworkRule list \<Rightarrow> string \<Rightarrow> Decision option" where
  "effective_decision rules host =
    map_option net_decision (last_opt (filter (\<lambda>r. net_host r = host \<and> net_decision r \<noteq> Prompt) rules))"

lemma effective_decision_snoc:
  "effective_decision (rules @ [r]) host =
    (if net_host r = host \<and> net_decision r \<noteq> Prompt then Some (net_decision r) else effective_decision rules host)"
  by (simp add: effective_decision_def)

lemma compile_step_inv:
  assumes "compile_step (a, d) r = (a', d')" "distinct a" "distinct d" "set a \<inter> set d = {}"
  shows "distinct a' \<and> distinct d' \<and> set a' \<inter> set d' = {}"
  using assms by (cases "net_decision r") (auto simp: upsert_domain_def simp del: filter_True)

lemma compiled_domains_inv:
  "foldl compile_step ([], []) rules = (a, d) \<Longrightarrow> distinct a \<and> distinct d \<and> set a \<inter> set d = {} \<and>
    (\<forall>h. (h \<in> set a \<longleftrightarrow> effective_decision rules h = Some Allow) \<and>
         (h \<in> set d \<longleftrightarrow> effective_decision rules h = Some Forbidden))"
proof (induction rules arbitrary: a d rule: rev_induct)
  case Nil
  then show ?case by (simp add: effective_decision_def)
next
  case (snoc r rules)
  obtain a0 d0 where 0: "foldl compile_step ([], []) rules = (a0, d0)" by fastforce
  with snoc.prems have step: "compile_step (a0, d0) r = (a, d)" by simp
  note IH = snoc.IH [OF 0]
  from compile_step_inv [OF step] IH have "distinct a \<and> distinct d \<and> set a \<inter> set d = {}" by blast
  moreover have "(h \<in> set a \<longleftrightarrow> effective_decision (rules @ [r]) h = Some Allow) \<and>
         (h \<in> set d \<longleftrightarrow> effective_decision (rules @ [r]) h = Some Forbidden)" for h
  proof -
    have h: "h \<in> set a0 \<longleftrightarrow> effective_decision rules h = Some Allow" "h \<in> set d0 \<longleftrightarrow> effective_decision rules h = Some Forbidden"
      using IH by blast+
    show ?thesis
      using step h by (cases "net_decision r"; cases "net_host r = h") (auto simp: upsert_domain_def effective_decision_snoc)
  qed
  ultimately show ?case by blast
qed

lemma distinct_remdups_adj_sorted: "sorted xs \<Longrightarrow> distinct (remdups_adj xs)"
proof (induction xs rule: remdups_adj.induct)
  case (3 x y xs)
  then show ?case
  proof (cases "x = y")
    case False
    with "3.prems" have "x \<notin> set (y # xs)" by (auto simp: antisym)
    with False 3 show ?thesis by simp
  qed simp
qed simp_all

section \<open>Properties\<close>

text \<open>C4: No rule is overlooked: in a well-formed policy, whenever some rule matches a command, the
  evaluation lists that match and decides at least as strictly, with or without host-executable
  resolution and whatever the heuristics say.  In particular a matching forbidden rule always forbids.\<close>

theorem no_rule_overlooked:
  assumes "wf_policy p" "r \<in> policy_rules p" "rule_matches r cmd = Some m"
  shows "\<exists>ev. check_with_options env p cmd f res = Some ev \<and> m \<in> set (matched_rules ev) \<and>
    rule_decision r \<le> decision ev"
proof -
  obtain ms where ms: "match_exact_rules p cmd = Some ms" "m \<in> set ms"
    using exact_match_complete [OF assms] by blast
  then have "matches_for_command_with_options env p cmd (Some f) res = ms"
    by (intro matches_with_exact) auto
  moreover have "rule_decision r = match_decision m" using assms(3) by (auto simp: rule_matches_def)
  ultimately show ?thesis using ms(2) by (simp add: check_Some)
qed

definition git_push_rule :: PrefixRule where
  "git_push_rule = \<lparr>rule_pattern = \<lparr>pat_first = ''git'', pat_rest = [Alts [''push'', ''fetch'']]\<rparr>,
    rule_decision = Forbidden, rule_justification = None\<rparr>"

definition git_policy :: Policy where
  "git_policy = \<lparr>rules_by_program = [(''git'', [git_push_rule])], network_rules = [], host_executables = []\<rparr>"

lemma wf_git_policy: "wf_policy git_policy"
  by (simp add: wf_policy_def git_policy_def mm_get_def rule_program_def git_push_rule_def)

lemma git_push_in_policy: "git_push_rule \<in> policy_rules git_policy"
  by (auto simp: policy_rules_def git_policy_def mm_get_def intro: exI [of _ "''git''"])

lemma git_push_matches:
  "rule_matches git_push_rule [''git'', ''push'', ''x''] = Some (PrefixRuleMatch [''git'', ''push''] Forbidden None None)"
  by code_simp

theorem no_rule_overlooked_witness:
  "\<exists>ev. check_with_options \<lparr>env_home = None, env_cwd = None\<rparr> git_policy [''git'', ''push'', ''x''] (\<lambda>_. Allow) False = Some ev \<and>
    decision ev = Forbidden"
  using no_rule_overlooked [OF wf_git_policy git_push_in_policy git_push_matches,
      of "\<lparr>env_home = None, env_cwd = None\<rparr>" "\<lambda>_. Allow" False]
  by (auto simp: git_push_rule_def)

text \<open>Checking several commands returns for every non-empty list (an empty one is the only input that
  panics), and decides as the strictest of the single checks.\<close>

theorem check_multiple_strictest:
  "check_multiple_with_options env p cmds f res =
    (if cmds = [] then None
     else Some \<lparr>decision = Max ((\<lambda>cmd. decision (the (check_with_options env p cmd f res))) ` set cmds),
                matched_rules = concat (map (\<lambda>cmd. matched_rules (the (check_with_options env p cmd f res))) cmds)\<rparr>)"
proof (cases "cmds = []")
  case False
  let ?M = "\<lambda>cmd. matches_for_command_with_options env p cmd (Some f) res"
  let ?ms = "concat (map ?M cmds)"
  have "?ms \<noteq> []" using False matches_nonempty by (cases cmds) auto
  moreover have "Max (match_decision ` set ?ms) = Max ((\<lambda>cmd. Max (match_decision ` set (?M cmd))) ` set cmds)"
  proof -
    have "match_decision ` set ?ms = (\<Union>cmd\<in>set cmds. match_decision ` set (?M cmd))" by auto
    moreover have "Max (\<Union>cmd\<in>C. match_decision ` set (?M cmd)) = Max ((\<lambda>cmd. Max (match_decision ` set (?M cmd))) ` C)"
      if "finite C" "C \<noteq> {}" for C
      using that by (induction C rule: finite_ne_induct) (auto simp: Max_Un matches_nonempty)
    ultimately show ?thesis using False by simp
  qed
  ultimately show ?thesis
    using False by (simp add: check_multiple_with_options_def from_matches_Max check_Some)
qed (simp add: check_multiple_with_options_def from_matches_def max_decision_def)

text \<open>C29: An overlay only adds: merging keeps policies well-formed, a command's exact matches are those of
  the base followed by those of the overlay, and a command the base has a rule for is decided at
  least as strictly after the merge.\<close>

theorem overlay_only_tightens:
  assumes "wf_policy p" "wf_policy q" "match_exact_rules p cmd = Some ms" "ms \<noteq> []"
  shows "wf_policy (merge_overlay p q) \<and>
    match_exact_rules (merge_overlay p q) cmd = Some (ms @ the (match_exact_rules q cmd)) \<and>
    decision (the (check_with_options env p cmd f res)) \<le>
      decision (the (check_with_options env (merge_overlay p q) cmd f' res'))"
proof -
  have cmd: "cmd \<noteq> []" using assms(3) by (auto simp: match_exact_rules_def)
  have "mm_get (rules_by_program (merge_overlay p q)) k =
      mm_get (rules_by_program p) k @ mm_get (rules_by_program q) k" for k
    using assms(2) by (simp add: merge_overlay_def mm_get_merge wf_policy_def)
  with assms(3) cmd have merged: "match_exact_rules (merge_overlay p q) cmd = Some (ms @ the (match_exact_rules q cmd))"
    by (simp add: match_exact_rules_get map_filter_append)
  have "matches_for_command_with_options env p cmd (Some f) res = ms"
    "matches_for_command_with_options env (merge_overlay p q) cmd (Some f') res' = ms @ the (match_exact_rules q cmd)"
    using matches_with_exact [OF assms(3,4)] matches_with_exact [OF merged] assms(4) by auto
  moreover have "Max (match_decision ` set ms) \<le> Max (match_decision ` set (ms @ the (match_exact_rules q cmd)))"
    using assms(4) by (intro Max_mono) auto
  ultimately show ?thesis
    using merged wf_merge_overlay [OF assms(1,2)] by (simp add: check_Some)
qed

lemma git_push_exact:
  "match_exact_rules git_policy [''git'', ''push'', ''x''] = Some [PrefixRuleMatch [''git'', ''push''] Forbidden None None]"
  by code_simp

theorem overlay_only_tightens_witness:
  "match_exact_rules (merge_overlay git_policy git_policy) [''git'', ''push'', ''x''] =
    Some [PrefixRuleMatch [''git'', ''push''] Forbidden None None, PrefixRuleMatch [''git'', ''push''] Forbidden None None]"
  using overlay_only_tightens [OF wf_git_policy wf_git_policy git_push_exact]
  by (simp add: git_push_exact)

text \<open>Adding a prefix rule succeeds exactly for non-empty prefixes, keeps the policy well-formed, and
  from then on every command that starts with the prefix has, after its earlier matches, the match of
  the new rule, and so is decided at least as strictly as the new rule says.\<close>

theorem add_prefix_rule_effect:
  assumes "wf_policy p" "prefix_tokens \<noteq> []"
  shows "\<exists>p'. add_prefix_rule p prefix_tokens d = Ok p' \<and> wf_policy p' \<and>
    (\<forall>args. match_exact_rules p' (prefix_tokens @ args) =
       Some (the (match_exact_rules p (prefix_tokens @ args)) @ [PrefixRuleMatch prefix_tokens d None None])) \<and>
    (\<forall>args env f res. d \<le> decision (the (check_with_options env p' (prefix_tokens @ args) f res)))"
proof -
  obtain t ts where ts: "prefix_tokens = t # ts" using assms(2) by (cases prefix_tokens) auto
  define r where "r = \<lparr>rule_pattern = \<lparr>pat_first = t, pat_rest = map Single ts\<rparr>, rule_decision = d, rule_justification = None\<rparr>"
  define p' where "p' = p\<lparr>rules_by_program := mm_insert t r (rules_by_program p)\<rparr>"
  have add: "add_prefix_rule p prefix_tokens d = Ok p'"
    by (simp add: add_prefix_rule_def ts r_def p'_def)
  have "rule_matches r (prefix_tokens @ args) = Some (PrefixRuleMatch prefix_tokens d None None)" for args
    by (simp add: rule_matches_def matches_prefix_def r_def ts list_all2_map1 list.rel_refl)
  then have exact: "match_exact_rules p' (prefix_tokens @ args) =
      Some (the (match_exact_rules p (prefix_tokens @ args)) @ [PrefixRuleMatch prefix_tokens d None None])" for args
    by (simp add: match_exact_rules_get ts p'_def mm_get_insert map_filter_append)
  have "d \<le> decision (the (check_with_options env p' (prefix_tokens @ args) f res))" for args env f res
    using matches_with_exact [OF exact, of args] by (simp add: check_Some)
  with add exact wf_add_prefix_rule [OF assms(1) add] show ?thesis by blast
qed

theorem add_prefix_rule_effect_witness:
  "\<exists>p'. add_prefix_rule policy_empty [''ls''] Allow = Ok p' \<and> wf_policy p' \<and>
    match_exact_rules p' [''ls'', ''-l''] = Some [PrefixRuleMatch [''ls''] Allow None None]"
proof -
  obtain p' where "add_prefix_rule policy_empty [''ls''] Allow = Ok p'" "wf_policy p'"
    "match_exact_rules p' ([''ls''] @ [''-l'']) =
      Some (the (match_exact_rules policy_empty ([''ls''] @ [''-l''])) @ [PrefixRuleMatch [''ls''] Allow None None])"
    using add_prefix_rule_effect [OF wf_policy_empty, of "[''ls'']" Allow] by blast
  then show ?thesis by (simp add: match_exact_rules_def policy_empty_def)
qed

text \<open>The compiled network domains list every host at most once and never in both lists: a host is
  allowed (denied) exactly when the last of its rules that is not a prompt allows (forbids) it.\<close>

theorem compiled_network_domains_last_wins:
  "\<exists>allowed denied. compiled_network_domains p = (allowed, denied) \<and>
    distinct allowed \<and> distinct denied \<and> set allowed \<inter> set denied = {} \<and>
    (\<forall>h. (h \<in> set allowed \<longleftrightarrow> effective_decision (network_rules p) h = Some Allow) \<and>
         (h \<in> set denied \<longleftrightarrow> effective_decision (network_rules p) h = Some Forbidden))"
proof -
  obtain a d where "compiled_network_domains p = (a, d)" by fastforce
  with compiled_domains_inv [of "network_rules p" a d] show ?thesis
    unfolding compiled_network_domains_def by blast
qed

text \<open>The allowed prefixes are sorted without repetition and are exactly the rendered patterns of the
  policy's allow rules.\<close>

theorem allowed_prefixes_exact:
  assumes "wf_policy p"
  shows "sorted (get_allowed_prefixes p) \<and> distinct (get_allowed_prefixes p) \<and>
    set (get_allowed_prefixes p) = rendered_prefix ` {r \<in> policy_rules p. rule_decision r = Allow}"
proof -
  have "mm_get (rules_by_program p) k = concat (map snd (filter (\<lambda>e. fst e = k) (rules_by_program p)))" for k
    using filter_key_distinct [of "rules_by_program p" k] assms by (simp add: wf_policy_def)
  then have rules: "policy_rules p = (\<Union>e\<in>set (rules_by_program p). set (snd e))"
    by (simp add: policy_rules_def set_eq_iff) (metis prod.collapse snd_conv)
  have "set (get_allowed_prefixes p) = rendered_prefix ` {r \<in> policy_rules p. rule_decision r = Allow}"
    by (auto simp: get_allowed_prefixes_def rules case_prod_beta)
  then show ?thesis
    by (simp add: get_allowed_prefixes_def sorted_remdups_adj distinct_remdups_adj_sorted)
qed

theorem allowed_prefixes_exact_witness:
  "wf_policy git_policy \<and> get_allowed_prefixes git_policy = [] \<and>
   set (get_allowed_prefixes git_policy) = rendered_prefix ` {r \<in> policy_rules git_policy. rule_decision r = Allow}"
  using allowed_prefixes_exact [OF wf_git_policy] wf_git_policy
  by (simp add: get_allowed_prefixes_def git_policy_def git_push_rule_def)

end
