(* ===== verification/Stream_Text.thy ===== *)
theory Stream_Text
  imports Utf8
begin

text \<open>
  Parsers of streamed text (utils/stream-parser/src/stream_text.rs) and the adapter that feeds them
  raw bytes (utf8_stream.rs).  A parser is a state with \<open>push_str\<close> and \<open>finish\<close>; the interface is a
  locale whose main law says that a chunk boundary changes nothing but where the output is cut.
  \<open>is_str\<close> is the invariant of Rust's \<open>str\<close>: valid UTF-8.
\<close>

section \<open>Chunks\<close>

record 'x StreamTextChunk =
  visible_text :: string
  extracted :: "'x list"

definition chunk_default :: "'x StreamTextChunk" where
  "chunk_default = \<lparr>visible_text = [], extracted = []\<rparr>"

definition stream_chunk_is_empty :: "'x StreamTextChunk \<Rightarrow> bool" where
  "stream_chunk_is_empty c \<longleftrightarrow> visible_text c = [] \<and> extracted c = []"

text \<open>Appending the output of a later call.\<close>

definition chunk_append :: "'x StreamTextChunk \<Rightarrow> 'x StreamTextChunk \<Rightarrow> 'x StreamTextChunk" where
  "chunk_append a b = \<lparr>visible_text = visible_text a @ visible_text b, extracted = extracted a @ extracted b\<rparr>"

lemma chunk_append_simps [simp]:
  "visible_text (chunk_append a b) = visible_text a @ visible_text b"
  "extracted (chunk_append a b) = extracted a @ extracted b"
  "chunk_append chunk_default c = c" "chunk_append c chunk_default = c"
  by (simp_all add: chunk_append_def chunk_default_def)

lemma chunk_append_assoc: "chunk_append (chunk_append a b) c = chunk_append a (chunk_append b c)"
  by (simp add: chunk_append_def)

lemma chunk_default_simps [simp]: "visible_text chunk_default = []" "extracted chunk_default = []"
  by (simp_all add: chunk_default_def)

section \<open>Strings\<close>

definition is_str :: "string \<Rightarrow> bool" where
  "is_str s \<longleftrightarrow> from_utf8 s = Utf8Valid"

lemma is_str_Nil [simp]: "is_str []"
  by (simp add: is_str_def)

lemma is_str_append: "is_str a \<Longrightarrow> is_str (a @ b) \<longleftrightarrow> is_str b"
  by (simp add: is_str_def from_utf8_valid_append)

lemma is_str_appendI: "is_str a \<Longrightarrow> is_str b \<Longrightarrow> is_str (a @ b)"
  by (simp add: is_str_append)

lemma is_str_concat: "\<forall>c\<in>set cs. is_str c \<Longrightarrow> is_str (concat cs)"
  by (induction cs) (simp_all add: is_str_append)

lemma is_str_hd: "is_str (a # s) \<Longrightarrow> \<not> cont_byte a"
  by (auto simp: is_str_def next_char.simps utf8_char_width_def byte_in_def split: if_splits)

lemma is_str_before:
  "is_str (x @ y) \<Longrightarrow> y = [] \<or> is_ascii (hd y) \<Longrightarrow> is_str x"
  by (cases y) (auto simp: is_str_def dest: from_utf8_before_ascii)

lemma is_str_ascii: "list_all is_ascii s \<Longrightarrow> is_str s"
  by (induction s) (simp_all add: is_str_def next_char.simps utf8_char_width_def is_ascii_def byte_in_def)

lemma ws_cont: "ws2 a b \<Longrightarrow> cont_byte b" "ws3 a b c \<Longrightarrow> cont_byte b \<and> cont_byte c"
  by (auto simp: ws2_def ws3_def byte_in_def)

lemma trim_start_append:
  "is_str y \<Longrightarrow> trim_start (x @ y) = (if trim_start x = [] then trim_start y else trim_start x @ y)"
  unfolding trim_start_def by (rule strip_ws_append) (cases y; auto dest: is_str_hd ws_cont)

lemma trim_end_append:
  assumes "is_str y"
  shows "trim_end (x @ y) = (if trim_end y = [] then trim_end x else x @ trim_end y)"
proof -
  have "strip_ws (\<lambda>a b. ws2 b a) (\<lambda>a b c. ws3 c b a) (rev y @ rev x) =
    (if strip_ws (\<lambda>a b. ws2 b a) (\<lambda>a b c. ws3 c b a) (rev y) = []
     then strip_ws (\<lambda>a b. ws2 b a) (\<lambda>a b c. ws3 c b a) (rev x)
     else strip_ws (\<lambda>a b. ws2 b a) (\<lambda>a b c. ws3 c b a) (rev y) @ rev x)"
    using assms by (intro strip_ws_append) (cases y; auto dest: is_str_hd ws_cont)
  then show ?thesis by (simp add: trim_end_def)
qed

lemma trimmed_prefix:
  "is_str y \<Longrightarrow> prefix (trim_end (trim_start x)) (trim_end (trim_start (x @ y)))"
  using trim_end_prefix [of "trim_start x"] by (auto simp: trim_start_append trim_end_append)

lemma utf8_chars_append: "is_str a \<Longrightarrow> utf8_chars (a @ b) = utf8_chars a @ utf8_chars b"
proof (induction a rule: utf8_chars.induct)
  case (2 c r)
  then obtain n where n: "next_char c r = Chr n" "is_str (drop (n - 1) r)"
    by (auto simp: is_str_def split: utf8_step.splits utf8_result.splits)
  with next_char_append [of c r b] next_char_Chr [OF n(1)] "2.IH" show ?case by simp
qed simp

lemma utf8_chars_str: "is_str s \<Longrightarrow> c \<in> set (utf8_chars s) \<Longrightarrow> is_str c"
proof (induction s rule: utf8_chars.induct)
  case (2 a r)
  then obtain n where n: "next_char a r = Chr n" "is_str (drop (n - 1) r)"
    by (auto simp: is_str_def split: utf8_step.splits utf8_result.splits)
  have "is_str (a # take (n - 1) r)" using next_char_Chr_take [OF n(1)] by (simp add: is_str_def)
  with n 2 show ?case by auto
qed simp

lemma is_str_take_chars: "is_str s \<Longrightarrow> utf8_chars s = xs @ ys \<Longrightarrow> is_str (concat xs) \<and> is_str (concat ys)"
  using utf8_chars_str [of s] by (auto intro!: is_str_concat)

section \<open>The interface\<close>

fun push_all :: "('p \<Rightarrow> string \<Rightarrow> 'p \<times> 'x StreamTextChunk) \<Rightarrow> 'p \<Rightarrow> string list \<Rightarrow> 'p \<times> 'x StreamTextChunk" where
  "push_all push_str p [] = (p, chunk_default)"
| "push_all push_str p (c # cs) =
    (let (p1, o1) = push_str p c; (p2, o2) = push_all push_str p1 cs in (p2, chunk_append o1 o2))"

lemma push_all_snoc:
  "push_all push_str p (cs @ [c]) =
    (let (p1, o1) = push_all push_str p cs; (p2, o2) = push_str p1 c in (p2, chunk_append o1 o2))"
  by (induction cs arbitrary: p) (simp_all add: chunk_append_def chunk_default_def split: prod.splits)

text \<open>
  \<open>norm\<close> identifies extracted payloads that differ only in how adjacent pieces are cut.
\<close>

locale stream_text_parser =
  fixes push_str :: "'p \<Rightarrow> string \<Rightarrow> 'p \<times> 'x StreamTextChunk"
    and invar :: "'p \<Rightarrow> bool"
    and norm :: "'x list \<Rightarrow> 'x list"
  assumes push_invar: "invar p \<Longrightarrow> is_str a \<Longrightarrow> invar (fst (push_str p a))"
    and push_empty: "invar p \<Longrightarrow> push_str p [] = (p, chunk_default)"
    and push_state: "invar p \<Longrightarrow> is_str a \<Longrightarrow> is_str b \<Longrightarrow>
      fst (push_str p (a @ b)) = fst (push_str (fst (push_str p a)) b)"
    and push_visible: "invar p \<Longrightarrow> is_str a \<Longrightarrow> is_str b \<Longrightarrow>
      visible_text (snd (push_str p (a @ b))) =
        visible_text (snd (push_str p a)) @ visible_text (snd (push_str (fst (push_str p a)) b))"
    and push_extracted: "invar p \<Longrightarrow> is_str a \<Longrightarrow> is_str b \<Longrightarrow>
      norm (extracted (snd (push_str p (a @ b)))) =
        norm (extracted (snd (push_str p a)) @ extracted (snd (push_str (fst (push_str p a)) b)))"
    and norm_left: "norm (norm xs @ ys) = norm (xs @ ys)"
    and norm_right: "norm (xs @ norm ys) = norm (xs @ ys)"
begin

definition same_output :: "'x StreamTextChunk \<Rightarrow> 'x StreamTextChunk \<Rightarrow> bool" where
  "same_output a b \<longleftrightarrow> visible_text a = visible_text b \<and> norm (extracted a) = norm (extracted b)"

lemma same_output_refl [simp]: "same_output a a"
  by (simp add: same_output_def)

lemma same_output_trans: "same_output a b \<Longrightarrow> same_output b c \<Longrightarrow> same_output a c"
  by (simp add: same_output_def)

lemma same_output_append:
  "same_output a a' \<Longrightarrow> same_output b b' \<Longrightarrow> same_output (chunk_append a b) (chunk_append a' b')"
  unfolding same_output_def by (metis chunk_append_simps(1,2) norm_left norm_right)

lemma push_append:
  assumes "invar p" "is_str a" "is_str b"
  shows "fst (push_str p (a @ b)) = fst (push_str (fst (push_str p a)) b)"
    and "same_output (snd (push_str p (a @ b))) (chunk_append (snd (push_str p a)) (snd (push_str (fst (push_str p a)) b)))"
  using push_state [OF assms] push_visible [OF assms] push_extracted [OF assms] by (simp_all add: same_output_def)

lemma push_all_concat:
  assumes "invar p" "\<forall>c\<in>set cs. is_str c"
  shows "fst (push_all push_str p cs) = fst (push_str p (concat cs))"
    and "same_output (snd (push_all push_str p cs)) (snd (push_str p (concat cs)))"
proof -
  have "fst (push_all push_str p cs) = fst (push_str p (concat cs)) \<and>
      same_output (snd (push_all push_str p cs)) (snd (push_str p (concat cs)))"
    using assms
  proof (induction cs arbitrary: p)
    case Nil
    then show ?case by (simp add: push_empty)
  next
    case (Cons c cs)
    obtain p1 o1 where 1: "push_str p c = (p1, o1)" by fastforce
    have p1: "invar p1" using push_invar [of p c] Cons.prems 1 by simp
    obtain p2 o2 where 2: "push_all push_str p1 cs = (p2, o2)" by fastforce
    have IH: "p2 = fst (push_str p1 (concat cs))" "same_output o2 (snd (push_str p1 (concat cs)))"
      using Cons.IH [OF p1] Cons.prems 2 by auto
    note app = push_append [of p c "concat cs"]
    have "same_output (chunk_append o1 o2) (chunk_append o1 (snd (push_str p1 (concat cs))))"
      using IH(2) by (intro same_output_append) simp_all
    moreover have "same_output (chunk_append o1 (snd (push_str p1 (concat cs)))) (snd (push_str p (c @ concat cs)))"
      using app(2) Cons.prems 1 is_str_concat [of cs] by (simp add: same_output_def)
    ultimately have "same_output (chunk_append o1 o2) (snd (push_str p (c @ concat cs)))"
      by (rule same_output_trans)
    then show ?case
      using app(1) Cons.prems 1 2 IH(1) is_str_concat [of cs] by simp
  qed
  then show "fst (push_all push_str p cs) = fst (push_str p (concat cs))"
    and "same_output (snd (push_all push_str p cs)) (snd (push_str p (concat cs)))" by auto
qed

end

end
