(* ===== verification/Utf8_Stream.thy ===== *)
theory Utf8_Stream
  imports Stream_Text
begin

text \<open>
  The byte adapter (utils/stream-parser/src/utf8_stream.rs).  It wraps any streamed-text parser, whose
  \<open>push_str\<close> and \<open>finish\<close> are arguments, and buffers a code point that is cut by a chunk boundary.
\<close>

section \<open>Operations\<close>

datatype Utf8StreamParserError =
    InvalidUtf8 nat nat
  | IncompleteUtf8AtEof

definition utf8_stream_error_str :: "Utf8StreamParserError \<Rightarrow> string" where
  "utf8_stream_error_str e =
    (case e of
       InvalidUtf8 valid_up_to error_len \<Rightarrow>
         ''invalid UTF-8 in streamed bytes at offset '' @ show_nat valid_up_to @
         '' (error length '' @ show_nat error_len @ '')''
     | IncompleteUtf8AtEof \<Rightarrow> ''incomplete UTF-8 code point at end of stream'')"

record 'p Utf8StreamParser =
  inner :: 'p
  pending_utf8 :: string

definition utf8_stream_new :: "'p \<Rightarrow> 'p Utf8StreamParser" where
  "utf8_stream_new i = \<lparr>inner = i, pending_utf8 = []\<rparr>"

text \<open>On an error \<open>pending_utf8\<close> is truncated to its old length, which undoes the extension.\<close>

definition push_bytes ::
  "('p \<Rightarrow> string \<Rightarrow> 'p \<times> 'x StreamTextChunk) \<Rightarrow> 'p Utf8StreamParser \<Rightarrow> string \<Rightarrow>
   'p Utf8StreamParser \<times> (Utf8StreamParserError, 'x StreamTextChunk) result" where
  "push_bytes push_str p chunk =
    (let buf = pending_utf8 p @ chunk in
     case from_utf8 buf of
       Utf8Valid \<Rightarrow> (let (i, out) = push_str (inner p) buf in (p\<lparr>inner := i, pending_utf8 := []\<rparr>, Ok out))
     | Utf8Error valid_up_to (Some error_len) \<Rightarrow> (p, Err (InvalidUtf8 valid_up_to error_len))
     | Utf8Error valid_up_to None \<Rightarrow>
         if valid_up_to = 0 then (p\<lparr>pending_utf8 := buf\<rparr>, Ok chunk_default)
         else (case from_utf8 (take valid_up_to buf) of
            Utf8Valid \<Rightarrow>
              (let (i, out) = push_str (inner p) (take valid_up_to buf) in
               (p\<lparr>inner := i, pending_utf8 := drop valid_up_to buf\<rparr>, Ok out))
          | Utf8Error k e \<Rightarrow> (p, Err (InvalidUtf8 k (case e of Some n \<Rightarrow> n | None \<Rightarrow> 0)))))"

definition utf8_finish ::
  "('p \<Rightarrow> string \<Rightarrow> 'p \<times> 'x StreamTextChunk) \<Rightarrow> ('p \<Rightarrow> 'p \<times> 'x StreamTextChunk) \<Rightarrow> 'p Utf8StreamParser \<Rightarrow>
   'p Utf8StreamParser \<times> (Utf8StreamParserError, 'x StreamTextChunk) result" where
  "utf8_finish push_str finish_inner p =
    (case from_utf8 (pending_utf8 p) of
       Utf8Error valid_up_to (Some error_len) \<Rightarrow> (p, Err (InvalidUtf8 valid_up_to error_len))
     | Utf8Error _ None \<Rightarrow> (p, Err IncompleteUtf8AtEof)
     | Utf8Valid \<Rightarrow>
         (let (i, out) = (if pending_utf8 p = [] then (inner p, chunk_default)
                          else push_str (inner p) (pending_utf8 p));
              (i2, tail) = finish_inner i in
          (p\<lparr>inner := i2, pending_utf8 := []\<rparr>, Ok (chunk_append out tail))))"

definition into_inner :: "'p Utf8StreamParser \<Rightarrow> (Utf8StreamParserError, 'p) result" where
  "into_inner p =
    (if pending_utf8 p = [] then Ok (inner p)
     else (case from_utf8 (pending_utf8 p) of
        Utf8Valid \<Rightarrow> Ok (inner p)
      | Utf8Error valid_up_to (Some error_len) \<Rightarrow> Err (InvalidUtf8 valid_up_to error_len)
      | Utf8Error _ None \<Rightarrow> Err IncompleteUtf8AtEof))"

definition into_inner_lossy :: "'p Utf8StreamParser \<Rightarrow> 'p" where
  "into_inner_lossy p = inner p"

text \<open>A client that feeds byte chunks until one is rejected.\<close>

fun feed_bytes ::
  "('p \<Rightarrow> string \<Rightarrow> 'p \<times> 'x StreamTextChunk) \<Rightarrow> 'p Utf8StreamParser \<Rightarrow> string list \<Rightarrow>
   'p Utf8StreamParser \<times> (Utf8StreamParserError, 'x StreamTextChunk) result" where
  "feed_bytes push_str p [] = (p, Ok chunk_default)"
| "feed_bytes push_str p (c # cs) =
    (case push_bytes push_str p c of
       (p1, Err e) \<Rightarrow> (p1, Err e)
     | (p1, Ok o1) \<Rightarrow>
         (case feed_bytes push_str p1 cs of
            (p2, Err e) \<Rightarrow> (p2, Err e)
          | (p2, Ok o2) \<Rightarrow> (p2, Ok (chunk_append o1 o2))))"

section \<open>Buffered bytes\<close>

text \<open>The buffer is empty or a proper beginning of a code point.\<close>

definition cut_only :: "string \<Rightarrow> bool" where
  "cut_only s \<longleftrightarrow> s = [] \<or> from_utf8 s = Utf8Error 0 None"

lemma cut_only_short: "cut_only s \<Longrightarrow> length s \<le> 3"
  by (auto simp: cut_only_def dest: from_utf8_cut_short)

lemma cut_only_is_str: "cut_only s \<Longrightarrow> is_str s \<Longrightarrow> s = []"
  by (auto simp: cut_only_def is_str_def)

text \<open>Every input without a wrong sequence is a text followed by a cut.\<close>

lemma text_then_cut:
  assumes "\<nexists>k n. from_utf8 s = Utf8Error k (Some n)"
  obtains v q where "s = v @ q" "is_str v" "cut_only q"
    "from_utf8 s = (if q = [] then Utf8Valid else Utf8Error (length v) None)"
proof (cases "from_utf8 s")
  case Utf8Valid
  then show ?thesis using that [of s "[]"] by (simp add: is_str_def cut_only_def)
next
  case (Utf8Error k e)
  with assms have "e = None" by (cases e) auto
  with from_utf8_error_prefix [OF Utf8Error] Utf8Error show ?thesis
    using that [of "take k s" "drop k s"] by (auto simp: is_str_def cut_only_def)
qed

context stream_text_parser
begin

lemma push_bytes_text:
  assumes "invar (inner p)" "pending_utf8 p @ chunk = v @ q" "is_str v" "cut_only q"
    "from_utf8 (v @ q) = (if q = [] then Utf8Valid else Utf8Error (length v) None)"
  shows "push_bytes push_str p chunk =
    (p\<lparr>inner := fst (push_str (inner p) v), pending_utf8 := q\<rparr>, Ok (snd (push_str (inner p) v)))"
  using assms push_empty [OF assms(1)]
  by (cases "v = []") (auto simp: push_bytes_def is_str_def Let_def split: prod.splits)

lemma feed_bytes_str:
  assumes "invar (inner p)" "cut_only (pending_utf8 p)" "is_str (pending_utf8 p @ concat cs)"
  shows "\<exists>out. feed_bytes push_str p cs =
      (p\<lparr>inner := fst (push_str (inner p) (pending_utf8 p @ concat cs)), pending_utf8 := []\<rparr>, Ok out) \<and>
    same_output out (snd (push_str (inner p) (pending_utf8 p @ concat cs)))"
  using assms
proof (induction cs arbitrary: p)
  case Nil
  then have "pending_utf8 p = []" by (simp add: cut_only_is_str)
  with Nil show ?case by (cases p) (simp add: push_empty)
next
  case (Cons c cs)
  let ?rest = "concat cs" and ?buf = "pending_utf8 p @ c"
  have total: "is_str (?buf @ ?rest)" using Cons.prems(3) by simp
  have "\<nexists>k n. from_utf8 ?buf = Utf8Error k (Some n)"
    using total from_utf8_error_append by (fastforce simp: is_str_def)
  then obtain v q where vq: "?buf = v @ q" "is_str v" "cut_only q"
    "from_utf8 ?buf = (if q = [] then Utf8Valid else Utf8Error (length v) None)"
    using text_then_cut by metis
  have q: "is_str (q @ ?rest)" using total vq by (simp add: is_str_append)
  define p1 where "p1 = p\<lparr>inner := fst (push_str (inner p) v), pending_utf8 := q\<rparr>"
  have push: "push_bytes push_str p c = (p1, Ok (snd (push_str (inner p) v)))"
    using push_bytes_text [OF Cons.prems(1) vq(1-3)] vq by (simp add: p1_def)
  have "invar (inner p1)" using push_invar Cons.prems(1) vq(2) by (simp add: p1_def)
  from Cons.IH [OF this] q vq(3) obtain o2 where
    feed: "feed_bytes push_str p1 cs = (p1\<lparr>inner := fst (push_str (inner p1) (q @ ?rest)), pending_utf8 := []\<rparr>, Ok o2)"
    and o2: "same_output o2 (snd (push_str (inner p1) (q @ ?rest)))"
    by (auto simp: p1_def)
  note app = push_append [OF Cons.prems(1) vq(2) q]
  have "same_output (chunk_append (snd (push_str (inner p) v)) o2) (snd (push_str (inner p) (v @ q @ ?rest)))"
    using app(2) same_output_append [OF same_output_refl o2] by (simp add: p1_def same_output_def)
  moreover have total_eq: "pending_utf8 p @ c @ ?rest = v @ q @ ?rest" using vq(1) by (metis append_assoc)
  ultimately show ?case
    unfolding concat.simps total_eq using push feed app(1) by (simp add: p1_def)
qed

lemma feed_bytes_finish:
  assumes "invar i" "is_str (concat cs)"
  shows "\<exists>p out out'. feed_bytes push_str (utf8_stream_new i) cs = (p, Ok out) \<and>
    snd (utf8_finish push_str finish_inner p) = Ok out' \<and>
    same_output (chunk_append out out')
      (chunk_append (snd (push_str i (concat cs))) (snd (finish_inner (fst (push_str i (concat cs))))))"
proof -
  obtain out where f: "feed_bytes push_str (utf8_stream_new i) cs =
      ((utf8_stream_new i)\<lparr>inner := fst (push_str i (concat cs)), pending_utf8 := []\<rparr>, Ok out)"
    and o: "same_output out (snd (push_str i (concat cs)))"
    using feed_bytes_str [of "utf8_stream_new i" cs] assms by (auto simp: utf8_stream_new_def cut_only_def)
  from same_output_append [OF o same_output_refl] f show ?thesis
    by (auto simp: utf8_finish_def split: prod.splits)
qed

end

section \<open>Properties\<close>

text \<open>A rejected byte chunk is rolled back completely: the adapter and the wrapped parser are as
  before, and the error gives the position and length of the wrong sequence in the buffered bytes.\<close>

theorem push_bytes_rollback:
  assumes "push_bytes push_str p chunk = (p', Err e)"
  shows "p' = p \<and> (\<exists>k n. e = InvalidUtf8 k n \<and> from_utf8 (pending_utf8 p @ chunk) = Utf8Error k (Some n))"
proof (cases "from_utf8 (pending_utf8 p @ chunk)")
  case Utf8Valid
  with assms show ?thesis by (simp add: push_bytes_def split: prod.splits)
next
  case (Utf8Error k el)
  with assms from_utf8_error_prefix [OF Utf8Error] show ?thesis
    by (cases el) (auto simp: push_bytes_def Let_def split: if_splits prod.splits)
qed

theorem push_bytes_rollback_witness:
  "push_bytes (\<lambda>p s. (p @ s, chunk_default :: unit StreamTextChunk)) (utf8_stream_new ''x'') [CHR ''a'', CHR 0xFF] =
    (utf8_stream_new ''x'', Err (InvalidUtf8 1 1))"
proof -
  have "push_bytes (\<lambda>p s. (p @ s, chunk_default :: unit StreamTextChunk)) (utf8_stream_new ''x'') [CHR ''a'', CHR 0xFF] =
      (utf8_stream_new ''x'', Err (InvalidUtf8 1 1))" by code_simp
  with push_bytes_rollback [OF this] show ?thesis by blast
qed

end
