(* ===== verification/Inline_Tags.thy ===== *)
theory Inline_Tags
  imports Utf8_Stream
begin

text \<open>
  Hidden inline tags (utils/stream-parser/src/inline_hidden_tag.rs) and their use for memory citations
  (citation.rs).  The loop of \<open>push_str\<close> ends only because delimiters are not empty, which the
  constructor asserts; it is a partial function here and its result is proved to exist.
\<close>

section \<open>Operations\<close>

record 't ExtractedInlineTag =
  ex_tag :: 't
  ex_content :: string

record 't InlineTagSpec =
  it_tag :: 't
  it_open :: string
  it_close :: string

record 't ActiveTag =
  at_tag :: 't
  at_close :: string
  at_content :: string

record 't InlineHiddenTagParser =
  it_specs :: "'t InlineTagSpec list"
  it_pending :: string
  it_active :: "'t ActiveTag option"

text \<open>The assertions of \<open>new\<close>; \<open>None\<close> is the panic.\<close>

definition specs_ok :: "'t InlineTagSpec list \<Rightarrow> bool" where
  "specs_ok specs \<longleftrightarrow> specs \<noteq> [] \<and> list_all (\<lambda>s. it_open s \<noteq> [] \<and> it_close s \<noteq> []) specs"

definition inline_new :: "'t InlineTagSpec list \<Rightarrow> 't InlineHiddenTagParser option" where
  "inline_new specs =
    (if specs_ok specs then Some \<lparr>it_specs = specs, it_pending = [], it_active = None\<rparr> else None)"

definition longest_suffix_prefix_len :: "string \<Rightarrow> string \<Rightarrow> nat" where
  "longest_suffix_prefix_len s needle =
    (case find (\<lambda>k. is_char_boundary needle k \<and> ends_with (take k needle) s)
            (rev [1..<Suc (min (length s) (length needle - 1))]) of
       Some k \<Rightarrow> k
     | None \<Rightarrow> 0)"

text \<open>The order by which \<open>find_next_open\<close> picks among several tags: position, then the longer
  delimiter, then the order of the specifications.\<close>

definition open_before :: "nat \<times> nat \<times> nat \<Rightarrow> nat \<times> nat \<times> nat \<Rightarrow> bool" where
  "open_before a b \<longleftrightarrow>
    (case (a, b) of ((pos_a, len_a, idx_a), (pos_b, len_b, idx_b)) \<Rightarrow>
       pos_a < pos_b \<or> (pos_a = pos_b \<and> (len_b < len_a \<or> (len_b = len_a \<and> idx_a \<le> idx_b))))"

fun min_open :: "(nat \<times> nat \<times> nat) list \<Rightarrow> (nat \<times> nat \<times> nat) option" where
  "min_open [] = None"
| "min_open (c # cs) =
    (case min_open cs of
       None \<Rightarrow> Some c
     | Some d \<Rightarrow> Some (if open_before c d then c else d))"

definition find_next_open :: "'t InlineTagSpec list \<Rightarrow> string \<Rightarrow> (nat \<times> nat) option" where
  "find_next_open specs pending =
    map_option (\<lambda>(pos, _, idx). (pos, idx))
      (min_open (List.map_filter (\<lambda>(idx, spec).
          map_option (\<lambda>pos. (pos, length (it_open spec), idx)) (find_sub (it_open spec) pending))
        (zip [0..<length specs] specs)))"

definition max_open_prefix_suffix_len :: "'t InlineTagSpec list \<Rightarrow> string \<Rightarrow> nat" where
  "max_open_prefix_suffix_len specs pending =
    foldl max 0 (map (\<lambda>spec. longest_suffix_prefix_len pending (it_open spec)) specs)"

text \<open>The loop: pending text, active tag, visible output, extracted output.\<close>

partial_function (option) inline_loop ::
  "'t InlineTagSpec list \<Rightarrow> string \<Rightarrow> 't ActiveTag option \<Rightarrow> string \<Rightarrow> 't ExtractedInlineTag list \<Rightarrow>
   (string \<times> 't ActiveTag option \<times> string \<times> 't ExtractedInlineTag list) option" where
  "inline_loop specs pending active vis ext =
    (case active of
       Some a \<Rightarrow>
         (case find_sub (at_close a) pending of
            Some close_idx \<Rightarrow>
              inline_loop specs (drop (close_idx + length (at_close a)) pending) None vis
                (ext @ [\<lparr>ex_tag = at_tag a, ex_content = at_content a @ take close_idx pending\<rparr>])
          | None \<Rightarrow>
              (let keep = longest_suffix_prefix_len pending (at_close a);
                   n = length pending - keep in
               Some (drop n pending, Some (a\<lparr>at_content := at_content a @ take n pending\<rparr>), vis, ext)))
     | None \<Rightarrow>
         (case find_next_open specs pending of
            Some (open_idx, spec_idx) \<Rightarrow>
              (let spec = specs ! spec_idx in
               inline_loop specs (drop (open_idx + length (it_open spec)) pending)
                 (Some \<lparr>at_tag = it_tag spec, at_close = it_close spec, at_content = []\<rparr>)
                 (vis @ take open_idx pending) ext)
          | None \<Rightarrow>
              (let keep = max_open_prefix_suffix_len specs pending;
                   n = length pending - keep in
               Some (drop n pending, None, vis @ take n pending, ext))))"

declare inline_loop.simps [code]

definition inline_push_str ::
  "'t InlineHiddenTagParser \<Rightarrow> string \<Rightarrow> ('t InlineHiddenTagParser \<times> 't ExtractedInlineTag StreamTextChunk) option" where
  "inline_push_str p chunk =
    map_option (\<lambda>(pending, active, vis, ext).
        (p\<lparr>it_pending := pending, it_active := active\<rparr>, \<lparr>visible_text = vis, extracted = ext\<rparr>))
      (inline_loop (it_specs p) (it_pending p @ chunk) (it_active p) [] [])"

definition inline_finish ::
  "'t InlineHiddenTagParser \<Rightarrow> 't InlineHiddenTagParser \<times> 't ExtractedInlineTag StreamTextChunk" where
  "inline_finish p =
    (case it_active p of
       Some a \<Rightarrow>
         (p\<lparr>it_active := None, it_pending := []\<rparr>,
          \<lparr>visible_text = [], extracted = [\<lparr>ex_tag = at_tag a, ex_content = at_content a @ it_pending p\<rparr>]\<rparr>)
     | None \<Rightarrow> (p\<lparr>it_pending := []\<rparr>, \<lparr>visible_text = it_pending p, extracted = []\<rparr>))"

section \<open>Citations\<close>

datatype CitationTag = Citation

definition CITATION_OPEN :: string where
  "CITATION_OPEN = ''<oai-mem-citation>''"

definition CITATION_CLOSE :: string where
  "CITATION_CLOSE = ''</oai-mem-citation>''"

type_synonym CitationStreamParser = "CitationTag InlineHiddenTagParser"

definition citation_spec :: "CitationTag InlineTagSpec" where
  "citation_spec = \<lparr>it_tag = Citation, it_open = CITATION_OPEN, it_close = CITATION_CLOSE\<rparr>"

definition citation_new :: CitationStreamParser where
  "citation_new = the (inline_new [citation_spec])"

definition citation_chunk :: "'t ExtractedInlineTag StreamTextChunk \<Rightarrow> string StreamTextChunk" where
  "citation_chunk c = \<lparr>visible_text = visible_text c, extracted = map ex_content (extracted c)\<rparr>"

definition citation_push_str :: "CitationStreamParser \<Rightarrow> string \<Rightarrow> CitationStreamParser \<times> string StreamTextChunk" where
  "citation_push_str p chunk = map_prod id citation_chunk (the (inline_push_str p chunk))"

definition citation_finish :: "CitationStreamParser \<Rightarrow> CitationStreamParser \<times> string StreamTextChunk" where
  "citation_finish p = map_prod id citation_chunk (inline_finish p)"

definition strip_citations :: "string \<Rightarrow> string \<times> string list" where
  "strip_citations text =
    (let (p, out) = citation_push_str citation_new text;
         (_, tail) = citation_finish p in
     (visible_text out @ visible_text tail, extracted out @ extracted tail))"

section \<open>The kept suffix\<close>

text \<open>A proper prefix of the needle that ends the text.\<close>

definition overlap :: "string \<Rightarrow> string \<Rightarrow> nat \<Rightarrow> bool" where
  "overlap s needle k \<longleftrightarrow> k < length needle \<and> k \<le> length s \<and> drop (length s - k) s = take k needle"

definition needle_ok :: "string \<Rightarrow> bool" where
  "needle_ok needle \<longleftrightarrow> needle \<noteq> [] \<and> list_all is_ascii needle"

lemma find_rev_upt:
  assumes "r = (case find P (rev [1..<Suc m]) of Some k \<Rightarrow> k | None \<Rightarrow> 0)"
  shows "r \<le> m \<and> (r = 0 \<or> P r) \<and> (\<forall>j. r < j \<and> j \<le> m \<longrightarrow> \<not> P j)"
  using assms
proof (induction m arbitrary: r)
  case (Suc m)
  show ?case
  proof (cases "P (Suc m)")
    case False
    with Suc.prems have "r = (case find P (rev [1..<Suc m]) of Some k \<Rightarrow> k | None \<Rightarrow> 0)" by simp
    from Suc.IH [OF this] False show ?thesis by (auto simp: le_Suc_eq)
  qed (use Suc.prems in auto)
qed simp

lemma needle_boundary: "needle_ok needle \<Longrightarrow> k \<le> length needle \<Longrightarrow> is_char_boundary needle k"
  by (cases "k < length needle") (auto simp: needle_ok_def is_char_boundary_def list_all_length byte_in_def is_ascii_def dest!: spec [of _ k])

lemma lsp_max:
  assumes "needle_ok needle"
  shows "overlap s needle (longest_suffix_prefix_len s needle)"
    and "overlap s needle j \<Longrightarrow> j \<le> longest_suffix_prefix_len s needle"
proof -
  let ?m = "min (length s) (length needle - 1)"
  let ?P = "\<lambda>k. is_char_boundary needle k \<and> ends_with (take k needle) s"
  have ne: "needle \<noteq> []" using assms by (simp add: needle_ok_def)
  have P: "k \<le> ?m \<Longrightarrow> ?P k \<longleftrightarrow> overlap s needle k" for k
    using needle_boundary [OF assms, of k] ne
    by (cases needle) (auto simp: overlap_def ends_with_def min_def split: if_splits)
  note r = find_rev_upt [OF longest_suffix_prefix_len_def [of s needle]]
  have "overlap s needle 0" using ne by (simp add: overlap_def)
  with r P show "overlap s needle (longest_suffix_prefix_len s needle)" by metis
  show "overlap s needle j \<Longrightarrow> j \<le> longest_suffix_prefix_len s needle"
  proof -
    assume j: "overlap s needle j"
    then have "j \<le> ?m" by (auto simp: overlap_def)
    with r P j show ?thesis by (meson not_le)
  qed
qed

lemma lsp_unique:
  assumes "needle_ok needle" "\<And>j. overlap s needle j \<longleftrightarrow> overlap t needle j"
  shows "longest_suffix_prefix_len s needle = longest_suffix_prefix_len t needle"
  using lsp_max [OF assms(1)] assms(2) by (meson le_antisym)

lemma lsp_le: "needle_ok needle \<Longrightarrow> longest_suffix_prefix_len s needle \<le> length s"
  using lsp_max(1) [of needle s] by (simp add: overlap_def)

text \<open>No tag starts before the kept suffix, however the text goes on.\<close>

lemma no_early_overlap:
  assumes "needle_ok needle" "j < length s - longest_suffix_prefix_len s needle"
    "length s - j < length needle"
  shows "take (length s - j) needle \<noteq> drop j s"
proof
  assume "take (length s - j) needle = drop j s"
  with assms(2,3) have "overlap s needle (length s - j)" by (simp add: overlap_def)
  with lsp_max(2) [OF assms(1)] have "length s - j \<le> longest_suffix_prefix_len s needle" by blast
  with assms(2) show False by simp
qed

lemma lsp_keep:
  assumes "needle_ok needle" "n = length s - longest_suffix_prefix_len s needle"
  shows "longest_suffix_prefix_len (s @ b) needle = longest_suffix_prefix_len (drop n s @ b) needle"
proof (rule lsp_unique [OF assms(1)])
  fix j
  have n: "n \<le> length s" using assms(2) by simp
  show "overlap (s @ b) needle j \<longleftrightarrow> overlap (drop n s @ b) needle j"
  proof (cases "j \<le> length (drop n s @ b)")
    case True
    have eq: "s @ b = take n s @ (drop n s @ b)" by simp
    have "drop (length (s @ b) - j) (s @ b) = drop (length (drop n s @ b) - j) (drop n s @ b)"
      using True n by (subst eq, subst drop_append) simp
    moreover have "j \<le> length (s @ b)" using True by simp
    ultimately show ?thesis using True unfolding overlap_def by presburger
  next
    case False
    have "\<not> overlap (s @ b) needle j"
    proof
      assume o: "overlap (s @ b) needle j"
      let ?i = "length (s @ b) - j"
      have i: "?i < n" "?i + j = length s + length b" using False o n by (auto simp: overlap_def)
      have "take (length s - ?i) needle = take (length s - ?i) (take j needle)"
        using i n by (simp add: min_def)
      also have "take j needle = drop ?i (s @ b)" using o by (simp add: overlap_def)
      also have "take (length s - ?i) (drop ?i (s @ b)) = drop ?i s" using i n by simp
      finally have "take (length s - ?i) needle = drop ?i s" .
      moreover have "length s - ?i < length needle" using o i n by (auto simp: overlap_def)
      ultimately show False using no_early_overlap [OF assms(1), of ?i s] i assms(2) by simp
    qed
    with False show ?thesis by (simp add: overlap_def)
  qed
qed

lemma find_sub_keep:
  assumes "needle_ok needle" "n = length s - longest_suffix_prefix_len s needle" "find_sub needle s = None"
  shows "find_sub needle (s @ b) = map_option (\<lambda>i. n + i) (find_sub needle (drop n s @ b))"
proof -
  have n: "n \<le> length s" using assms(2) by simp
  have early: "\<not> starts_with needle (drop j (s @ b))" if "j < n" for j
  proof
    assume st: "starts_with needle (drop j (s @ b))"
    have j: "j \<le> length s" using that n by simp
    show False
    proof (cases "length needle \<le> length s - j")
      case True
      with st j have "starts_with needle (drop j s)" by (simp add: starts_with_def)
      with assms(3) j show False by (simp add: find_sub_None_iff)
    next
      case False
      have "take (length s - j) needle = take (length s - j) (drop j (s @ b))"
        using st False by (metis starts_with_def min.absorb1 nat_le_linear take_take)
      also have "\<dots> = drop j s" using j by simp
      finally show False using no_early_overlap [OF assms(1), of j s] that False assms(2) by simp
    qed
  qed
  have shift: "drop (n + i) (s @ b) = drop i (drop n s @ b)" for i
    using n by (simp add: add.commute flip: drop_drop)
  show ?thesis
  proof (cases "find_sub needle (drop n s @ b)")
    case None
    have "\<not> starts_with needle (drop j (s @ b))" if "j \<le> length (s @ b)" for j
    proof (cases "j < n")
      case False
      have "j - n \<le> length (drop n s @ b)" using that n by simp
      with None have "\<not> starts_with needle (drop (j - n) (drop n s @ b))"
        unfolding find_sub_None_iff by blast
      with False shift [of "j - n"] show ?thesis by (metis le_add_diff_inverse not_less)
    qed (rule early)
    then have "find_sub needle (s @ b) = None" unfolding find_sub_None_iff by blast
    with None show ?thesis by simp
  next
    case (Some i)
    have "\<not> starts_with needle (drop j (s @ b))" if "j < n + i" for j
    proof (cases "j < n")
      case False
      then have "j - n < i" using that by simp
      with Some have "\<not> starts_with needle (drop (j - n) (drop n s @ b))"
        unfolding find_sub_Some_iff by blast
      with False shift [of "j - n"] show ?thesis by (metis le_add_diff_inverse not_less)
    qed (rule early)
    moreover have "n + i \<le> length (s @ b)" "starts_with needle (drop (n + i) (s @ b))"
      using Some shift [of i] n unfolding find_sub_Some_iff by auto
    ultimately have "find_sub needle (s @ b) = Some (n + i)"
      unfolding find_sub_Some_iff by blast
    then show ?thesis using Some by simp
  qed
qed

lemma find_sub_append_Some:
  assumes "find_sub needle s = Some i"
  shows "find_sub needle (s @ b) = Some i"
proof -
  have i: "i \<le> length s" "starts_with needle (drop i s)" "\<forall>j<i. \<not> starts_with needle (drop j s)"
    using assms by (auto simp: find_sub_Some_iff)
  then have len: "length needle \<le> length s - i" by (auto simp: starts_with_iff_prefix dest: arg_cong [of _ _ length])
  have "\<not> starts_with needle (drop j (s @ b))" if "j < i" for j
    using i(3) that len by (auto simp: starts_with_def)
  with i len show ?thesis by (auto simp: find_sub_Some_iff starts_with_def)
qed

section \<open>The loop returns\<close>

lemma min_open_in: "min_open cs = Some c \<Longrightarrow> c \<in> set cs"
  by (induction cs arbitrary: c) (auto split: option.splits if_splits)

lemma find_next_open_Some:
  assumes "find_next_open specs pending = Some (pos, idx)"
  shows "idx < length specs \<and> find_sub (it_open (specs ! idx)) pending = Some pos"
proof -
  obtain len where "min_open (List.map_filter (\<lambda>(idx, spec).
      map_option (\<lambda>pos. (pos, length (it_open spec), idx)) (find_sub (it_open spec) pending))
      (zip [0..<length specs] specs)) = Some (pos, len, idx)"
    using assms by (auto simp: find_next_open_def)
  from min_open_in [OF this] show ?thesis
    by (auto simp: List.map_filter_def in_set_zip split: prod.splits)
qed

lemma find_sub_consumes:
  "find_sub needle s = Some i \<Longrightarrow> needle \<noteq> [] \<Longrightarrow> length (drop (i + length needle) s) < length s"
  by (cases needle) (auto simp: find_sub_Some_iff starts_with_iff_prefix dest!: arg_cong [of _ _ length])

lemma inline_loop_total:
  assumes "specs_ok specs" "\<forall>a. active = Some a \<longrightarrow> at_close a \<noteq> []"
  shows "\<exists>r. inline_loop specs pending active vis ext = Some r"
  using assms(2)
proof (induction "length pending" arbitrary: pending active vis ext rule: less_induct)
  case less
  show ?case
  proof (cases active)
    case (Some a)
    show ?thesis
    proof (cases "find_sub (at_close a) pending")
      case None
      with Some show ?thesis by (subst inline_loop.simps) (simp add: Let_def)
    next
      case found: (Some i)
      from less.hyps [OF find_sub_consumes [OF found]] less.prems Some found show ?thesis
        by (subst inline_loop.simps) simp
    qed
  next
    case None
    show ?thesis
    proof (cases "find_next_open specs pending")
      case none: None
      with None show ?thesis by (subst inline_loop.simps) (simp add: Let_def)
    next
      case found: (Some q)
      obtain pos idx where q: "q = (pos, idx)" by fastforce
      then have f: "idx < length specs" "find_sub (it_open (specs ! idx)) pending = Some pos"
        using find_next_open_Some found by auto
      then have ok: "it_open (specs ! idx) \<noteq> []" "it_close (specs ! idx) \<noteq> []"
        using assms(1) by (auto simp: specs_ok_def list_all_length)
      from less.hyps [OF find_sub_consumes [OF f(2) ok(1)]] ok(2) None found q show ?thesis
        by (subst inline_loop.simps) (simp add: Let_def)
    qed
  qed
qed

section \<open>One tag\<close>

text \<open>The loop for a single specification, with the outputs as a result instead of accumulators.\<close>

lemma find_next_open_single:
  "find_next_open [sp] pending = map_option (\<lambda>pos. (pos, 0)) (find_sub (it_open sp) pending)"
  by (cases "find_sub (it_open sp) pending") (simp_all add: find_next_open_def List.map_filter_def)

lemma max_open_single: "max_open_prefix_suffix_len [sp] pending = longest_suffix_prefix_len pending (it_open sp)"
  by (simp add: max_open_prefix_suffix_len_def)

definition spec_ascii :: "'t InlineTagSpec \<Rightarrow> bool" where
  "spec_ascii sp \<longleftrightarrow> needle_ok (it_open sp) \<and> needle_ok (it_close sp)"

definition active_ok :: "'t InlineTagSpec \<Rightarrow> 't ActiveTag option \<Rightarrow> bool" where
  "active_ok sp active \<longleftrightarrow> (\<forall>a. active = Some a \<longrightarrow> at_close a = it_close sp)"

text \<open>What the loop looks for in a state, and where the text before it goes.\<close>

definition needle :: "'t InlineTagSpec \<Rightarrow> 't ActiveTag option \<Rightarrow> string" where
  "needle sp active = (case active of None \<Rightarrow> it_open sp | Some _ \<Rightarrow> it_close sp)"

lemma needle_ok_needle: "spec_ascii sp \<Longrightarrow> needle_ok (needle sp active)"
  by (auto simp: spec_ascii_def needle_def split: option.splits)

definition hit :: "'t InlineTagSpec \<Rightarrow> 't ActiveTag option \<Rightarrow> string \<Rightarrow>
    't ActiveTag option \<times> string \<times> 't ExtractedInlineTag list" where
  "hit sp active before =
    (case active of
       None \<Rightarrow> (Some \<lparr>at_tag = it_tag sp, at_close = it_close sp, at_content = []\<rparr>, before, [])
     | Some a \<Rightarrow> (None, [], [\<lparr>ex_tag = at_tag a, ex_content = at_content a @ before\<rparr>]))"

definition absorb :: "'t ActiveTag option \<Rightarrow> string \<Rightarrow> 't ActiveTag option \<times> string" where
  "absorb active before =
    (case active of
       None \<Rightarrow> (None, before)
     | Some a \<Rightarrow> (Some (a\<lparr>at_content := at_content a @ before\<rparr>), []))"

lemma inline_loop_single:
  assumes "active_ok sp active"
  shows "inline_loop [sp] s active vis ext =
    (case find_sub (needle sp active) s of
       Some i \<Rightarrow>
         (case hit sp active (take i s) of
            (active', v, e) \<Rightarrow> inline_loop [sp] (drop (i + length (needle sp active)) s) active' (vis @ v) (ext @ e))
     | None \<Rightarrow>
         (let n = length s - longest_suffix_prefix_len s (needle sp active) in
          case absorb active (take n s) of
            (active', v) \<Rightarrow> Some (drop n s, active', vis @ v, ext)))"
  using assms
  by (subst inline_loop.simps)
    (auto simp: find_next_open_single max_open_single needle_def hit_def absorb_def active_ok_def Let_def
      split: option.splits)

lemma active_ok_step:
  "active_ok sp active \<Longrightarrow> hit sp active t = (active', v, e) \<Longrightarrow> active_ok sp active'"
  "active_ok sp active \<Longrightarrow> absorb active t = (active', v) \<Longrightarrow> active_ok sp active'"
  by (auto simp: active_ok_def hit_def absorb_def split: option.splits)

lemma needle_absorb: "absorb active t = (active', v) \<Longrightarrow> needle sp active' = needle sp active"
  by (auto simp: absorb_def needle_def split: option.splits)

lemma absorb_absorb:
  "absorb active x = (a, v) \<Longrightarrow> absorb a y = (a', v') \<Longrightarrow> absorb active (x @ y) = (a', v @ v')"
  by (auto simp: absorb_def split: option.splits)

lemma absorb_hit:
  "absorb active x = (a, v) \<Longrightarrow> hit sp a y = (a', v', e') \<Longrightarrow> hit sp active (x @ y) = (a', v @ v', e')"
  by (auto simp: absorb_def hit_def split: option.splits)

definition prepend_output ::
  "string \<Rightarrow> 'e list \<Rightarrow> (string \<times> 'a \<times> string \<times> 'e list) option \<Rightarrow> (string \<times> 'a \<times> string \<times> 'e list) option" where
  "prepend_output vis ext = map_option (\<lambda>(q, a, v, e). (q, a, vis @ v, ext @ e))"

lemma prepend_output_simps [simp]:
  "prepend_output vis ext (Some (q, a, v, e)) = Some (q, a, vis @ v, ext @ e)"
  "prepend_output vis ext (prepend_output vis' ext' r) = prepend_output (vis @ vis') (ext @ ext') r"
  "prepend_output [] [] r = r"
  by (cases r; auto simp: prepend_output_def)+

lemma needle_nonempty: "spec_ascii sp \<Longrightarrow> needle sp active \<noteq> []"
  using needle_ok_needle [of sp active] by (simp add: needle_ok_def)

lemma inline_loop_acc:
  assumes "spec_ascii sp" "active_ok sp active"
  shows "inline_loop [sp] s active vis ext = prepend_output vis ext (inline_loop [sp] s active [] [])"
  using assms(2)
proof (induction "length s" arbitrary: s active vis ext rule: less_induct)
  case less
  show ?case
  proof (cases "find_sub (needle sp active) s")
    case None
    then show ?thesis
      using less.prems by (simp add: inline_loop_single Let_def split: prod.splits)
  next
    case (Some i)
    obtain a v e where h: "hit sp active (take i s) = (a, v, e)" by (metis prod_cases3)
    note IH = less.hyps [OF find_sub_consumes [OF Some needle_nonempty [OF assms(1)]] active_ok_step(1) [OF less.prems h]]
    have step: "inline_loop [sp] s active vis ext =
        inline_loop [sp] (drop (i + length (needle sp active)) s) a (vis @ v) (ext @ e)" for vis ext
      using less.prems Some h by (simp add: inline_loop_single)
    show ?thesis
      unfolding step [of vis ext] step [of "[]" "[]"] IH [of "vis @ v"] IH [of "[] @ v"] by simp
  qed
qed

lemma find_sub_end: "find_sub n s = Some i \<Longrightarrow> i + length n \<le> length s"
  by (auto simp: find_sub_Some_iff starts_with_iff_prefix dest!: arg_cong [of _ _ length])

lemma inline_loop_hit:
  assumes "spec_ascii sp" "active_ok sp active" "find_sub (needle sp active) s = Some i"
    and "hit sp active (take i s) = (a, v, e)"
  shows "inline_loop [sp] s active [] [] =
    prepend_output v e (inline_loop [sp] (drop (i + length (needle sp active)) s) a [] [])"
  using assms inline_loop_acc [OF assms(1) active_ok_step(1) [OF assms(2,4)],
      of "drop (i + length (needle sp active)) s" v e]
  by (simp add: inline_loop_single)

lemma inline_loop_miss:
  assumes "active_ok sp active" "find_sub (needle sp active) s = None"
    and "n = length s - longest_suffix_prefix_len s (needle sp active)" "absorb active (take n s) = (a, v)"
  shows "inline_loop [sp] s active [] [] = Some (drop n s, a, v, [])"
  using assms by (simp add: inline_loop_single Let_def)

text \<open>The loop on a longer text does what it does on the shorter one and goes on with what it kept.\<close>

lemma inline_loop_append_miss:
  assumes sp: "spec_ascii sp" and ok: "active_ok sp active" and None: "find_sub (needle sp active) s = None"
    and n: "n = length s - longest_suffix_prefix_len s (needle sp active)"
    and ab: "absorb active (take n s) = (a, v)" and q: "q = drop n s"
  shows "inline_loop [sp] (s @ b) active [] [] = prepend_output v [] (inline_loop [sp] (q @ b) a [] [])"
proof -
  let ?N = "needle sp active"
  note N = needle_ok_needle [OF sp, of active]
  have oka: "active_ok sp a" using active_ok_step(2) ok ab by blast
  have same: "needle sp a = ?N" using needle_absorb ab by blast
  have nle: "n \<le> length s" by (simp add: n)
  have take_n: "take (n + i) (s @ b) = take n s @ take i (q @ b)" for i
    using nle q take_add [of n i "s @ b"] by simp
  have drop_n: "drop (n + i) (s @ b) = drop i (q @ b)" for i
    using nle q drop_drop [of i n "s @ b"] by (simp add: add.commute)
  show ?thesis
  proof (cases "find_sub ?N (q @ b)")
    case (Some i)
    obtain a1 v1 e1 where h: "hit sp a (take i (q @ b)) = (a1, v1, e1)" by (metis prod_cases3)
    have 1: "find_sub ?N (s @ b) = Some (n + i)"
      using find_sub_keep [OF N n None, of b] Some q by simp
    have 2: "hit sp active (take (n + i) (s @ b)) = (a1, v @ v1, e1)"
      unfolding take_n by (rule absorb_hit [OF ab h])
    have 3: "drop (n + i + length ?N) (s @ b) = drop (i + length (needle sp a)) (q @ b)"
      unfolding same add.assoc by (rule drop_n)
    show ?thesis
      unfolding inline_loop_hit [OF sp ok 1 2] 3 inline_loop_hit [OF sp oka, unfolded same, OF Some h] same by simp
  next
    case none: None
    define m where "m = length (q @ b) - longest_suffix_prefix_len (q @ b) ?N"
    obtain a1 v1 where ab1: "absorb a (take m (q @ b)) = (a1, v1)" by fastforce
    have 1: "find_sub ?N (s @ b) = None"
      using find_sub_keep [OF N n None, of b] none q by simp
    have "longest_suffix_prefix_len (s @ b) ?N = longest_suffix_prefix_len (q @ b) ?N"
      using lsp_keep [OF N n, of b] q by simp
    moreover have "longest_suffix_prefix_len (q @ b) ?N \<le> length (q @ b)" by (rule lsp_le [OF N])
    moreover have "length (s @ b) = n + length (q @ b)" using nle q by simp
    ultimately have 2: "n + m = length (s @ b) - longest_suffix_prefix_len (s @ b) ?N"
      unfolding m_def by linarith
    have 3: "absorb active (take (n + m) (s @ b)) = (a1, v @ v1)"
      unfolding take_n by (rule absorb_absorb [OF ab ab1])
    show ?thesis
      unfolding inline_loop_miss [OF ok 1 2 3] inline_loop_miss [OF oka, unfolded same, OF none m_def ab1] drop_n
      by simp
  qed
qed

lemma inline_loop_append:
  assumes "spec_ascii sp" "active_ok sp active" "inline_loop [sp] s active [] [] = Some (q, a, v, e)"
  shows "inline_loop [sp] (s @ b) active [] [] = prepend_output v e (inline_loop [sp] (q @ b) a [] [])"
  using assms(2,3)
proof (induction "length s" arbitrary: s active v e rule: less_induct)
  case less
  let ?N = "needle sp active"
  show ?case
  proof (cases "find_sub ?N s")
    case (Some i)
    obtain a0 v0 e0 where h: "hit sp active (take i s) = (a0, v0, e0)" by (metis prod_cases3)
    let ?s = "drop (i + length ?N) s"
    have ok: "active_ok sp a0" using active_ok_step(1) less.prems(1) h by blast
    from less.prems(2) obtain v1 e1 where rest: "inline_loop [sp] ?s a0 [] [] = Some (q, a, v1, e1)"
      and v: "v = v0 @ v1" "e = e0 @ e1"
      unfolding inline_loop_hit [OF assms(1) less.prems(1) Some h] by (auto simp: prepend_output_def)
    have h': "hit sp active (take i (s @ b)) = (a0, v0, e0)" and d: "drop (i + length ?N) (s @ b) = ?s @ b"
      using h find_sub_end [OF Some] by simp_all
    show ?thesis
      unfolding inline_loop_hit [OF assms(1) less.prems(1) find_sub_append_Some [OF Some] h'] d v
        less.hyps [OF find_sub_consumes [OF Some needle_nonempty [OF assms(1)]] ok rest] by simp
  next
    case None
    obtain a0 v0 where ab: "absorb active (take (length s - longest_suffix_prefix_len s ?N) s) = (a0, v0)" by fastforce
    then show ?thesis
      using less.prems(2) inline_loop_append_miss [OF assms(1) less.prems(1) None refl ab refl, of b]
      unfolding inline_loop_miss [OF less.prems(1) None refl ab] by auto
  qed
qed

section \<open>The state between chunks\<close>

lemma lsp_strict_prefix:
  assumes "needle_ok N"
  shows "strict_prefix (drop (length s - longest_suffix_prefix_len s N) s) N"
proof -
  have "overlap s N (longest_suffix_prefix_len s N)" using lsp_max(1) [OF assms] .
  then show ?thesis
    by (auto simp: overlap_def strict_prefix_def take_is_prefix)
qed

lemma needle_ok_ascii_prefix:
  "needle_ok N \<Longrightarrow> prefix q N \<Longrightarrow> q = [] \<or> is_ascii (hd q)"
  by (cases q) (auto simp: needle_ok_def prefix_def)

text \<open>What is kept is a proper prefix of what the loop looks for, and the visible text of a text is a text.\<close>

lemma inline_loop_result:
  assumes "spec_ascii sp" "active_ok sp active" "inline_loop [sp] s active [] [] = Some (q, a, v, e)"
  shows "active_ok sp a \<and> strict_prefix q (needle sp a) \<and> (is_str s \<longrightarrow> is_str v)"
  using assms(2,3)
proof (induction "length s" arbitrary: s active v e rule: less_induct)
  case less
  let ?N = "needle sp active"
  note N = needle_ok_needle [OF assms(1), of active]
  show ?case
  proof (cases "find_sub ?N s")
    case (Some i)
    obtain a0 v0 e0 where h: "hit sp active (take i s) = (a0, v0, e0)" by (metis prod_cases3)
    let ?s = "drop (i + length ?N) s"
    have ok: "active_ok sp a0" using active_ok_step(1) less.prems(1) h by blast
    from less.prems(2) obtain v1 e1 where rest: "inline_loop [sp] ?s a0 [] [] = Some (q, a, v1, e1)"
      and v: "v = v0 @ v1"
      unfolding inline_loop_hit [OF assms(1) less.prems(1) Some h] by (auto simp: prepend_output_def)
    note IH = less.hyps [OF find_sub_consumes [OF Some needle_nonempty [OF assms(1)]] ok rest]
    have s: "s = take i s @ ?N @ ?s"
      using Some find_sub_end [OF Some]
      by (auto simp: find_sub_Some_iff starts_with_iff_prefix prefix_def)
        (metis add.commute append_eq_conv_conj append_take_drop_id drop_drop)
    have "is_str s \<longrightarrow> is_str v0 \<and> is_str ?s"
    proof
      assume "is_str s"
      then have "is_str (take i s @ ?N @ ?s)" using s by simp
      moreover from this have "is_str (take i s)"
        using is_str_before [of "take i s" "?N @ ?s"] N by (cases ?N) (auto simp: needle_ok_def)
      moreover have "is_str ?N" using N is_str_ascii by (simp add: needle_ok_def)
      ultimately show "is_str v0 \<and> is_str ?s"
        using h by (auto simp: is_str_append hit_def split: option.splits)
    qed
    with IH v show ?thesis by (simp add: is_str_append)
  next
    case None
    let ?n = "length s - longest_suffix_prefix_len s ?N"
    obtain a0 v0 where ab: "absorb active (take ?n s) = (a0, v0)" by fastforce
    then have q: "q = drop ?n s" "a = a0" "v = v0"
      using less.prems(2) unfolding inline_loop_miss [OF less.prems(1) None refl ab] by auto
    have pre: "strict_prefix (drop ?n s) ?N" using lsp_strict_prefix [OF N] .
    then have "is_str s \<longrightarrow> is_str (take ?n s)"
      using is_str_before [of "take ?n s" "drop ?n s"] needle_ok_ascii_prefix [OF N, of "drop ?n s"]
      by (simp add: strict_prefix_def)
    with pre q ab show ?thesis
      using active_ok_step(2) [OF less.prems(1) ab] needle_absorb [OF ab, of sp]
      by (auto simp: absorb_def split: option.splits)
  qed
qed

lemma spec_ascii_citation: "spec_ascii citation_spec"
  by (simp add: spec_ascii_def needle_ok_def citation_spec_def CITATION_OPEN_def CITATION_CLOSE_def is_ascii_def)

definition citation_invar :: "CitationStreamParser \<Rightarrow> bool" where
  "citation_invar p \<longleftrightarrow> it_specs p = [citation_spec] \<and> active_ok citation_spec (it_active p) \<and>
    strict_prefix (it_pending p) (needle citation_spec (it_active p))"

lemma citation_push_cases:
  assumes "citation_invar p"
  obtains q a v e where
    "inline_loop [citation_spec] (it_pending p @ c) (it_active p) [] [] = Some (q, a, v, e)"
    "citation_push_str p c = (p\<lparr>it_pending := q, it_active := a\<rparr>, \<lparr>visible_text = v, extracted = map ex_content e\<rparr>)"
    "citation_invar (p\<lparr>it_pending := q, it_active := a\<rparr>)"
    "is_str (it_pending p @ c) \<Longrightarrow> is_str v"
proof -
  have ok: "specs_ok [citation_spec]" "\<forall>a. it_active p = Some a \<longrightarrow> at_close a \<noteq> []"
    using assms needle_nonempty [OF spec_ascii_citation]
    by (auto simp: citation_invar_def active_ok_def specs_ok_def citation_spec_def CITATION_OPEN_def CITATION_CLOSE_def)
  then obtain q a v e where l: "inline_loop [citation_spec] (it_pending p @ c) (it_active p) [] [] = Some (q, a, v, e)"
    using inline_loop_total by (metis prod_cases4)
  have active: "active_ok citation_spec (it_active p)" using assms by (simp add: citation_invar_def)
  show ?thesis
    using inline_loop_result [OF spec_ascii_citation active l] assms l
    by (intro that [OF l]) (auto simp: citation_invar_def citation_push_str_def inline_push_str_def citation_chunk_def)
qed

lemma citation_pending_ascii: "citation_invar p \<Longrightarrow> is_str (it_pending p)"
  using needle_ok_needle [OF spec_ascii_citation]
  by (auto simp: citation_invar_def needle_ok_def strict_prefix_def prefix_def list_all_iff intro!: is_str_ascii)
    (metis Un_iff set_append)

lemma citation_visible_str:
  "citation_invar p \<Longrightarrow> is_str c \<Longrightarrow> is_str (visible_text (snd (citation_push_str p c)))"
  by (rule citation_push_cases [of p c]) (simp_all add: is_str_append citation_pending_ascii)

lemma citation_new_invar: "citation_invar citation_new"
  by (simp add: citation_invar_def citation_new_def inline_new_def specs_ok_def active_ok_def needle_def
      citation_spec_def CITATION_OPEN_def CITATION_CLOSE_def strict_prefix_def)

lemma strict_prefix_self_kept:
  assumes "needle_ok N" "strict_prefix q N"
  shows "find_sub N q = None" and "longest_suffix_prefix_len q N = length q"
proof -
  have lt: "length q < length N" using prefix_length_less assms(2) by blast
  then show "find_sub N q = None" using find_sub_end [of N q] by (cases "find_sub N q") auto
  have "overlap q N (length q)"
    using lt assms(2) by (auto simp: overlap_def strict_prefix_def prefix_def)
  then show "longest_suffix_prefix_len q N = length q"
    using lsp_max(2) [OF assms(1)] lsp_le [OF assms(1)] le_antisym by blast
qed

lemma absorb_Nil: "absorb active [] = (active, [])"
  by (simp add: absorb_def split: option.splits)

lemma citation_push_empty:
  assumes "citation_invar p"
  shows "citation_push_str p [] = (p, chunk_default)"
proof -
  have p: "it_specs p = [citation_spec]" "active_ok citation_spec (it_active p)"
    "strict_prefix (it_pending p) (needle citation_spec (it_active p))"
    using assms by (simp_all add: citation_invar_def)
  note kept = strict_prefix_self_kept [OF needle_ok_needle [OF spec_ascii_citation] p(3)]
  have "inline_loop [citation_spec] (it_pending p) (it_active p) [] [] = Some (it_pending p, it_active p, [], [])"
    using inline_loop_miss [OF p(2) kept(1) refl, of "it_active p" "[]"] absorb_Nil [of "it_active p"]
    by (simp add: kept(2))
  with p(1) show ?thesis
    by (simp add: citation_push_str_def inline_push_str_def citation_chunk_def chunk_default_def)
qed

lemma citation_push_append:
  assumes "citation_invar p"
  shows "citation_push_str p (a @ b) =
    (let (p1, o1) = citation_push_str p a; (p2, o2) = citation_push_str p1 b in (p2, chunk_append o1 o2))"
proof -
  obtain q t v e where 1: "inline_loop [citation_spec] (it_pending p @ a) (it_active p) [] [] = Some (q, t, v, e)"
    "citation_push_str p a = (p\<lparr>it_pending := q, it_active := t\<rparr>, \<lparr>visible_text = v, extracted = map ex_content e\<rparr>)"
    "citation_invar (p\<lparr>it_pending := q, it_active := t\<rparr>)"
    by (rule citation_push_cases [OF assms])
  obtain q2 t2 v2 e2 where 2: "inline_loop [citation_spec] (q @ b) t [] [] = Some (q2, t2, v2, e2)"
    "citation_push_str (p\<lparr>it_pending := q, it_active := t\<rparr>) b =
      (p\<lparr>it_pending := q2, it_active := t2\<rparr>, \<lparr>visible_text = v2, extracted = map ex_content e2\<rparr>)"
    by (rule citation_push_cases [OF 1(3), of b]) simp
  have "active_ok citation_spec (it_active p)" using assms by (simp add: citation_invar_def)
  from inline_loop_append [OF spec_ascii_citation this 1(1), of b] 2(1)
  have "inline_loop [citation_spec] (it_pending p @ a @ b) (it_active p) [] [] = Some (q2, t2, v @ v2, e @ e2)"
    by simp
  with assms 1 2 show ?thesis
    by (simp add: citation_push_str_def inline_push_str_def citation_chunk_def citation_invar_def chunk_append_def)
qed

interpretation citations: stream_text_parser citation_push_str citation_invar id
proof unfold_locales
  fix p a
  assume "citation_invar p"
  then show "citation_invar (fst (citation_push_str p a))" by (rule citation_push_cases [of p a]) simp
qed (simp_all add: citation_push_empty citation_push_append split: prod.splits)

section \<open>The function computed on a whole text\<close>

text \<open>Cut at the first opening tag; what follows up to the first closing tag, or to the end, is a
  citation; go on behind it.\<close>

function cite_spec :: "string \<Rightarrow> string \<times> string list" where
  "cite_spec text =
    (case find_sub CITATION_OPEN text of
       None \<Rightarrow> (text, [])
     | Some i \<Rightarrow>
        (let body = drop (i + length CITATION_OPEN) text in
         case find_sub CITATION_CLOSE body of
           None \<Rightarrow> (take i text, [body])
         | Some j \<Rightarrow>
            (let (v, cs) = cite_spec (drop (j + length CITATION_CLOSE) body) in
             (take i text @ v, take j body # cs))))"
  by pat_completeness auto
termination
proof (relation "measure length")
  fix s i body j
  assume "find_sub CITATION_OPEN s = Some i" "body = drop (i + length CITATION_OPEN) s"
    "find_sub CITATION_CLOSE body = Some j"
  then show "(drop (j + length CITATION_CLOSE) body, s) \<in> measure length"
    using find_sub_consumes [of CITATION_OPEN s i] by (simp add: CITATION_OPEN_def)
qed simp

declare cite_spec.simps [simp del]

definition cite_total :: "string \<times> 't ActiveTag option \<times> string \<times> 't ExtractedInlineTag list \<Rightarrow> string \<times> string list" where
  "cite_total r = (case r of (q, a, v, e) \<Rightarrow>
    (case a of
       None \<Rightarrow> (v @ q, map ex_content e)
     | Some t \<Rightarrow> (v, map ex_content e @ [at_content t @ q])))"

lemma inline_loop_cite_spec:
  "inline_loop [citation_spec] s None [] [] = Some r \<Longrightarrow> cite_total r = cite_spec s"
proof (induction s arbitrary: r rule: cite_spec.induct)
  case (1 s)
  note sp = spec_ascii_citation
  have ok: "active_ok citation_spec None" by (simp add: active_ok_def)
  have nd [simp]: "needle citation_spec None = CITATION_OPEN" "needle citation_spec (Some t) = CITATION_CLOSE" for t
    by (simp_all add: needle_def citation_spec_def)
  show ?case
  proof (cases "find_sub CITATION_OPEN s")
    case None
    with "1.prems" inline_loop_miss [OF ok _ refl, of s] show ?thesis
      by (auto simp: cite_spec.simps [of s] cite_total_def absorb_def)
  next
    case (Some i)
    let ?body = "drop (i + length CITATION_OPEN) s"
    define t where "t = \<lparr>at_tag = it_tag citation_spec, at_close = it_close citation_spec, at_content = []\<rparr>"
    have okt: "active_ok citation_spec (Some t)" by (simp add: active_ok_def t_def)
    have "hit citation_spec None (take i s) = (Some t, take i s, [])" by (simp add: hit_def t_def)
    from "1.prems" inline_loop_hit [OF sp ok _ this] Some obtain q a v e where
      in_body: "inline_loop [citation_spec] ?body (Some t) [] [] = Some (q, a, v, e)" and r: "r = (q, a, take i s @ v, e)"
      by (auto simp: prepend_output_def)
    show ?thesis
    proof (cases "find_sub CITATION_CLOSE ?body")
      case None
      define n where "n = length ?body - longest_suffix_prefix_len ?body CITATION_CLOSE"
      have "inline_loop [citation_spec] ?body (Some t) [] [] =
          Some (drop n ?body, Some (t\<lparr>at_content := take n ?body\<rparr>), [], [])"
        using inline_loop_miss [OF okt, of ?body n] None by (simp add: absorb_def t_def n_def)
      with in_body r have "cite_total r = (take i s, [take n ?body @ drop n ?body])"
        by (auto simp: cite_total_def)
      then show ?thesis
        using Some None by (simp add: cite_spec.simps [of s] Let_def append_take_drop_id del: drop_drop)
    next
      case close: (Some j)
      let ?rest = "drop (j + length CITATION_CLOSE) ?body"
      have "hit citation_spec (Some t) (take j ?body) = (None, [], [\<lparr>ex_tag = at_tag t, ex_content = take j ?body\<rparr>])"
        by (simp add: hit_def t_def)
      from in_body inline_loop_hit [OF sp okt _ this] close obtain e' where
        rest: "inline_loop [citation_spec] ?rest None [] [] = Some (q, a, v, e')"
        and e: "e = \<lparr>ex_tag = at_tag t, ex_content = take j ?body\<rparr> # e'"
        by (auto simp: prepend_output_def)
      have "cite_total (q, a, v, e') = cite_spec ?rest" using "1.IH" [OF Some refl close rest] .
      then show ?thesis
        using Some close r e by (auto simp: cite_spec.simps [of s] cite_total_def split: option.splits prod.splits)
    qed
  qed
qed

definition citations_of :: "CitationStreamParser \<times> string StreamTextChunk \<Rightarrow> string \<times> string list" where
  "citations_of r = (case r of (p, out) \<Rightarrow>
    (visible_text out @ visible_text (snd (citation_finish p)), extracted out @ extracted (snd (citation_finish p))))"

lemma citations_of_push: "citations_of (citation_push_str citation_new s) = cite_spec s"
proof -
  have new: "it_pending citation_new = []" "it_active citation_new = None"
    by (simp_all add: citation_new_def inline_new_def specs_ok_def citation_spec_def CITATION_OPEN_def CITATION_CLOSE_def)
  show ?thesis
  proof (rule citation_push_cases [OF citation_new_invar, of s])
    fix q a v e
    assume l: "inline_loop [citation_spec] (it_pending citation_new @ s) (it_active citation_new) [] [] = Some (q, a, v, e)"
      and p: "citation_push_str citation_new s =
        (citation_new\<lparr>it_pending := q, it_active := a\<rparr>, \<lparr>visible_text = v, extracted = map ex_content e\<rparr>)"
    from inline_loop_cite_spec [of s "(q, a, v, e)"] l new show ?thesis
      by (auto simp: p citations_of_def citation_finish_def inline_finish_def citation_chunk_def cite_total_def
          split: option.splits)
  qed
qed

lemma citations_push_all_spec:
  assumes "list_all is_str cs"
  shows "citations_of (push_all citation_push_str citation_new cs) = cite_spec (concat cs)"
  using citations.push_all_concat [OF citation_new_invar, of cs] citations_of_push [of "concat cs"] assms
  by (cases "push_all citation_push_str citation_new cs"; cases "citation_push_str citation_new (concat cs)")
    (simp add: citations_of_def citations.same_output_def list_all_iff)

section \<open>Properties\<close>

text \<open>However a text is cut into chunks, the citation parser's visible text and citations are those
  of the reference definition on the whole text.  In particular no tag that is split between chunks is missed
  or shown, and the loop of every push ends.\<close>

theorem citation_stream_spec:
  assumes "list_all is_str cs"
  shows "citations_of (push_all citation_push_str citation_new cs) = cite_spec (concat cs)"
  using assms by (rule citations_push_all_spec)

theorem citation_stream_spec_witness:
  "citations_of (push_all citation_push_str citation_new
     [''a<oai-mem-'', ''citation>b</oai-mem'', ''-citation>c<oai'']) = (''ac<oai'', [''b''])"
proof -
  have "list_all is_str [''a<oai-mem-'', ''citation>b</oai-mem'', ''-citation>c<oai'']" by code_simp
  from citation_stream_spec [OF this] show ?thesis by code_simp
qed

text \<open>\<open>strip_citations\<close> computes the reference definition, so an unterminated citation extends to the
  end of the text.\<close>

theorem strip_citations_spec: "strip_citations s = cite_spec s"
  using citations_of_push [of s] 
  by (cases "citation_push_str citation_new s"; cases "citation_finish (fst (citation_push_str citation_new s))")
    (simp add: strip_citations_def citations_of_def)

end
