(* ===== verification/Tagged_Lines.thy ===== *)
theory Tagged_Lines
  imports Stream_Text
begin

text \<open>
  Line tags (utils/stream-parser/src/tagged_line_parser.rs): a tag counts only when it stands alone on a line,
  so a line is buffered until it can no longer be one.  The parser is related to a reference definition
  that reads whole lines: the buffering loses nothing and never decides wrongly.
\<close>

section \<open>Data\<close>

record 't TagSpec =
  ts_open :: string
  ts_close :: string
  ts_tag :: 't

datatype 't TaggedLineSegment = Normal string | TagStart 't | TagDelta 't string | TagEnd 't

record 't TaggedLineParser =
  tl_specs :: "'t TagSpec list"
  active_tag :: "'t option"
  detect_tag :: bool
  line_buffer :: string

definition tagged_new :: "'t TagSpec list \<Rightarrow> 't TaggedLineParser" where
  "tagged_new specs = \<lparr>tl_specs = specs, active_tag = None, detect_tag = True, line_buffer = []\<rparr>"

section \<open>Operations\<close>

definition push_segment :: "'t TaggedLineSegment list \<Rightarrow> 't TaggedLineSegment \<Rightarrow> 't TaggedLineSegment list" where
  "push_segment segments segment =
    (case segment of
       Normal delta \<Rightarrow>
         if delta = [] then segments
         else (case rev segments of
             Normal existing # r \<Rightarrow> rev r @ [Normal (existing @ delta)]
           | _ \<Rightarrow> segments @ [Normal delta])
     | TagDelta tag delta \<Rightarrow>
         if delta = [] then segments
         else (case rev segments of
             TagDelta existing_tag existing # r \<Rightarrow>
               if existing_tag = tag then rev r @ [TagDelta existing_tag (existing @ delta)]
               else segments @ [TagDelta tag delta]
           | _ \<Rightarrow> segments @ [TagDelta tag delta])
     | TagStart tag \<Rightarrow> segments @ [TagStart tag]
     | TagEnd tag \<Rightarrow> segments @ [TagEnd tag])"

definition text_segment :: "'t option \<Rightarrow> string \<Rightarrow> 't TaggedLineSegment" where
  "text_segment active t = (case active of Some tag \<Rightarrow> TagDelta tag t | None \<Rightarrow> Normal t)"

definition push_text :: "'t TaggedLineParser \<Rightarrow> string \<Rightarrow> 't TaggedLineSegment list \<Rightarrow> 't TaggedLineSegment list" where
  "push_text p t segments = push_segment segments (text_segment (active_tag p) t)"

definition is_tag_prefix :: "'t TagSpec list \<Rightarrow> string \<Rightarrow> bool" where
  "is_tag_prefix specs slug =
    (let slug = trim_end slug in
     list_ex (\<lambda>spec. starts_with slug (ts_open spec) \<or> starts_with slug (ts_close spec)) specs)"

definition match_open :: "'t TagSpec list \<Rightarrow> string \<Rightarrow> 't option" where
  "match_open specs slug = map_option ts_tag (find (\<lambda>spec. ts_open spec = slug) specs)"

definition match_close :: "'t TagSpec list \<Rightarrow> string \<Rightarrow> 't option" where
  "match_close specs slug = map_option ts_tag (find (\<lambda>spec. ts_close spec = slug) specs)"

definition without_newline :: "string \<Rightarrow> string" where
  "without_newline line = (case strip_suffix [LF] line of Some l \<Rightarrow> l | None \<Rightarrow> line)"

definition finish_line ::
  "'t TaggedLineParser \<Rightarrow> 't TaggedLineSegment list \<Rightarrow> 't TaggedLineParser \<times> 't TaggedLineSegment list" where
  "finish_line p segments =
    (let line = line_buffer p;
         p = p\<lparr>line_buffer := []\<rparr>;
         slug = trim_end (trim_start (without_newline line)) in
     case (match_open (tl_specs p) slug, active_tag p) of
       (Some tag, None) \<Rightarrow> (p\<lparr>active_tag := Some tag, detect_tag := True\<rparr>, push_segment segments (TagStart tag))
     | _ \<Rightarrow>
        (case match_close (tl_specs p) slug of
           Some tag \<Rightarrow>
             if active_tag p = Some tag
             then (p\<lparr>active_tag := None, detect_tag := True\<rparr>, push_segment segments (TagEnd tag))
             else (p\<lparr>detect_tag := True\<rparr>, push_text p line segments)
         | None \<Rightarrow> (p\<lparr>detect_tag := True\<rparr>, push_text p line segments)))"

text \<open>One turn of the loop of \<open>parse\<close>: the parser, the run of text not pushed yet, the segments.\<close>

definition parse_char ::
  "'t TaggedLineParser \<times> string \<times> 't TaggedLineSegment list \<Rightarrow> string \<Rightarrow>
   't TaggedLineParser \<times> string \<times> 't TaggedLineSegment list" where
  "parse_char st ch =
    (case st of (p, run, segments) \<Rightarrow>
     if detect_tag p then
       (let segments = (if run \<noteq> [] then push_text p run segments else segments);
            p = p\<lparr>line_buffer := line_buffer p @ ch\<rparr> in
        if ch = [LF] then (let (p, segments) = finish_line p segments in (p, [], segments))
        else
          (let slug = trim_start (line_buffer p) in
           if slug = [] \<or> is_tag_prefix (tl_specs p) slug then (p, [], segments)
           else
             (let buffered = line_buffer p;
                  p = p\<lparr>line_buffer := [], detect_tag := False\<rparr> in
              (p, [], push_text p buffered segments))))
     else
       (let run = run @ ch in
        if ch = [LF] then (p\<lparr>detect_tag := True\<rparr>, [], push_text p run segments)
        else (p, run, segments)))"

definition tagged_parse :: "'t TaggedLineParser \<Rightarrow> string \<Rightarrow> 't TaggedLineParser \<times> 't TaggedLineSegment list" where
  "tagged_parse p delta =
    (let (p, run, segments) = foldl parse_char (p, [], []) (utf8_chars delta) in
     (p, if run \<noteq> [] then push_text p run segments else segments))"

definition tagged_finish :: "'t TaggedLineParser \<Rightarrow> 't TaggedLineParser \<times> 't TaggedLineSegment list" where
  "tagged_finish p =
    (let (p, segments) =
       (if line_buffer p = [] then (p, [])
        else
          (let buffered = line_buffer p;
               p = p\<lparr>line_buffer := []\<rparr>;
               slug = trim_end (trim_start (without_newline buffered)) in
           case (match_open (tl_specs p) slug, active_tag p) of
             (Some tag, None) \<Rightarrow> (p\<lparr>active_tag := Some tag\<rparr>, push_segment [] (TagStart tag))
           | _ \<Rightarrow>
              (case match_close (tl_specs p) slug of
                 Some tag \<Rightarrow>
                   if active_tag p = Some tag
                   then (p\<lparr>active_tag := None\<rparr>, push_segment [] (TagEnd tag))
                   else (p, push_text p buffered [])
               | None \<Rightarrow> (p, push_text p buffered []))));
       segments = (case active_tag p of Some tag \<Rightarrow> push_segment segments (TagEnd tag) | None \<Rightarrow> segments) in
     (p\<lparr>active_tag := None, detect_tag := True\<rparr>, segments))"

section \<open>Merging\<close>

definition merge_segments :: "'t TaggedLineSegment list \<Rightarrow> 't TaggedLineSegment list" where
  "merge_segments = foldl push_segment []"

lemma push_segment_Normal_Nil [simp]: "push_segment xs (Normal []) = xs" "push_segment xs (TagDelta t []) = xs"
  by (simp_all add: push_segment_def)

lemma push_segment_push [simp]:
  "push_segment (push_segment xs (Normal a)) (Normal b) = push_segment xs (Normal (a @ b))"
  "push_segment (push_segment xs (TagDelta t a)) (TagDelta t b) = push_segment xs (TagDelta t (a @ b))"
  by (auto simp: push_segment_def split: list.splits TaggedLineSegment.splits)

lemma push_text_segment [simp]:
  "push_segment (push_segment xs (text_segment a s)) (text_segment a t) = push_segment xs (text_segment a (s @ t))"
  "push_segment xs (text_segment a []) = xs"
  by (simp_all add: text_segment_def split: option.splits)

lemma foldl_push_segment_snoc:
  "foldl push_segment zs (push_segment ys y) = push_segment (foldl push_segment zs ys) y"
proof (cases ys rule: rev_cases)
  case Nil
  then show ?thesis by (cases y) (simp_all add: push_segment_def)
next
  case (snoc ys' x)
  show ?thesis
  proof (cases "\<exists>a b. x = Normal a \<and> y = Normal b \<and> b \<noteq> []")
    case True
    with snoc have "push_segment ys y = ys' @ [Normal (a @ b)]" if "x = Normal a" "y = Normal b" for a b
      using that by (auto simp: push_segment_def)
    with True snoc show ?thesis by auto
  next
    case False
    show ?thesis
    proof (cases "\<exists>t a b. x = TagDelta t a \<and> y = TagDelta t b \<and> b \<noteq> []")
      case True
      with snoc have "push_segment ys y = ys' @ [TagDelta t (a @ b)]" if "x = TagDelta t a" "y = TagDelta t b" for t a b
        using that by (auto simp: push_segment_def)
      with True snoc show ?thesis by auto
    next
      case diff: False
      with False snoc have "push_segment ys y = ys \<or> push_segment ys y = ys @ [y]"
        "push_segment ys y = ys \<Longrightarrow> y = Normal [] \<or> (\<exists>t. y = TagDelta t [])"
        by (cases y; cases x; auto simp: push_segment_def split: if_splits)+
      then show ?thesis by (metis foldl_append foldl_Cons foldl_Nil push_segment_Normal_Nil)
    qed
  qed
qed

lemma foldl_push_merge: "foldl push_segment zs (foldl push_segment xs ys) = foldl push_segment (foldl push_segment zs xs) ys"
  by (induction ys rule: rev_induct) (simp_all add: foldl_push_segment_snoc)

lemma merge_left [simp]: "merge_segments (merge_segments xs @ ys) = merge_segments (xs @ ys)"
  by (simp add: merge_segments_def foldl_push_merge [of "[]" "[]"])

lemma merge_right [simp]: "merge_segments (xs @ merge_segments ys) = merge_segments (xs @ ys)"
  by (simp add: merge_segments_def foldl_push_merge)

lemma merge_idem [simp]: "merge_segments (merge_segments xs) = merge_segments xs"
  using merge_left [of xs "[]"] by simp

lemma merge_cong: "merge_segments xs = merge_segments xs' \<Longrightarrow> merge_segments ys = merge_segments ys' \<Longrightarrow>
    merge_segments (xs @ ys) = merge_segments (xs' @ ys')"
  by (metis merge_left merge_right)

section \<open>The loop without its run buffer\<close>

text \<open>\<open>line_outcome\<close> is the decision on a complete line: the active tag behind it and the one
  segment it gives.\<close>

definition line_outcome :: "'t TagSpec list \<Rightarrow> 't option \<Rightarrow> string \<Rightarrow> 't option \<times> 't TaggedLineSegment" where
  "line_outcome specs active line =
    (let slug = trim_end (trim_start (without_newline line)) in
     case (match_open specs slug, active) of
       (Some tag, None) \<Rightarrow> (Some tag, TagStart tag)
     | _ \<Rightarrow>
        (case match_close specs slug of
           Some tag \<Rightarrow> if active = Some tag then (None, TagEnd tag) else (active, text_segment active line)
         | None \<Rightarrow> (active, text_segment active line)))"

lemma finish_line_outcome:
  "finish_line p segments =
    (case line_outcome (tl_specs p) (active_tag p) (line_buffer p) of (a, seg) \<Rightarrow>
      (p\<lparr>line_buffer := [], active_tag := a, detect_tag := True\<rparr>, push_segment segments seg))"
  by (cases p) (auto simp: finish_line_def line_outcome_def push_text_def Let_def split: option.splits)

lemma tagged_finish_outcome:
  "snd (tagged_finish p) = merge_segments
    (case (if line_buffer p = [] then (active_tag p, []) else
        map_prod id (\<lambda>x. [x]) (line_outcome (tl_specs p) (active_tag p) (line_buffer p))) of
      (a, segs) \<Rightarrow> segs @ (case a of Some tag \<Rightarrow> [TagEnd tag] | None \<Rightarrow> []))"
  by (cases p) (auto simp: tagged_finish_def line_outcome_def push_text_def Let_def merge_segments_def
      split: option.splits)

text \<open>One character read by a parser with nothing pending in \<open>run\<close>.\<close>

definition tagged_step :: "'t TaggedLineParser \<Rightarrow> string \<Rightarrow> 't TaggedLineParser \<times> 't TaggedLineSegment list" where
  "tagged_step p ch =
    (if detect_tag p then
       (let line = line_buffer p @ ch in
        if ch = [LF] then
          (case line_outcome (tl_specs p) (active_tag p) line of (a, seg) \<Rightarrow>
            (p\<lparr>line_buffer := [], active_tag := a\<rparr>, [seg]))
        else if trim_start line = [] \<or> is_tag_prefix (tl_specs p) (trim_start line) then (p\<lparr>line_buffer := line\<rparr>, [])
        else (p\<lparr>line_buffer := [], detect_tag := False\<rparr>, [text_segment (active_tag p) line]))
     else (p\<lparr>detect_tag := ch = [LF]\<rparr>, [text_segment (active_tag p) ch]))"

fun tagged_steps :: "'t TaggedLineParser \<Rightarrow> string list \<Rightarrow> 't TaggedLineParser \<times> 't TaggedLineSegment list" where
  "tagged_steps p [] = (p, [])"
| "tagged_steps p (c # cs) =
    (let (p1, s1) = tagged_step p c; (p2, s2) = tagged_steps p1 cs in (p2, s1 @ s2))"

definition flush_run ::
  "'t TaggedLineParser \<times> string \<times> 't TaggedLineSegment list \<Rightarrow> 't TaggedLineParser \<times> 't TaggedLineSegment list" where
  "flush_run st = (case st of (p, run, segments) \<Rightarrow> (p, push_segment segments (text_segment (active_tag p) run)))"

lemma parse_char_step:
  "flush_run (parse_char (p, run, segs) c) =
    (case tagged_step p c of (p', out) \<Rightarrow> (p', foldl push_segment (snd (flush_run (p, run, segs))) out))"
  by (cases p; cases "run = []")
    (auto simp: parse_char_def tagged_step_def flush_run_def push_text_def finish_line_outcome Let_def
      split: prod.splits)

lemma parse_chars_steps:
  "flush_run (foldl parse_char (p, run, segs) cs) =
    (case tagged_steps p cs of (p', out) \<Rightarrow> (p', foldl push_segment (snd (flush_run (p, run, segs))) out))"
proof (induction cs arbitrary: p run segs)
  case Nil
  then show ?case by (simp add: flush_run_def)
next
  case (Cons c cs)
  obtain p1 r1 s1 where 1: "parse_char (p, run, segs) c = (p1, r1, s1)" by (metis prod_cases3)
  with parse_char_step [of p run segs c] Cons.IH [of p1 r1 s1] show ?case
    by (auto simp: flush_run_def split: prod.splits)
qed

lemma tagged_parse_steps:
  "tagged_parse p delta = map_prod id merge_segments (tagged_steps p (utf8_chars delta))"
proof -
  obtain p1 r1 s1 where 1: "foldl parse_char (p, [], []) (utf8_chars delta) = (p1, r1, s1)" by (metis prod_cases3)
  with parse_chars_steps [of p "[]" "[]" "utf8_chars delta"] show ?thesis
    by (cases "r1 = []") (auto simp: tagged_parse_def flush_run_def push_text_def merge_segments_def split: prod.splits)
qed

lemma tagged_steps_append:
  "tagged_steps p (xs @ ys) =
    (let (p1, s1) = tagged_steps p xs; (p2, s2) = tagged_steps p1 ys in (p2, s1 @ s2))"
  by (induction xs arbitrary: p) (auto split: prod.splits)

lemma tagged_parse_append:
  assumes "is_str a"
  shows "fst (tagged_parse p (a @ b)) = fst (tagged_parse (fst (tagged_parse p a)) b)"
    and "snd (tagged_parse p (a @ b)) = merge_segments (snd (tagged_parse p a) @ snd (tagged_parse (fst (tagged_parse p a)) b))"
  using assms by (auto simp: tagged_parse_steps utf8_chars_append tagged_steps_append split: prod.splits)

section \<open>Reading whole lines\<close>

function tagged_spec :: "'t TagSpec list \<Rightarrow> 't option \<Rightarrow> string \<Rightarrow> 't TaggedLineSegment list" where
  "tagged_spec specs active s =
    (if s = [] then (case active of Some tag \<Rightarrow> [TagEnd tag] | None \<Rightarrow> [])
     else
       (let line = takeWhile (\<lambda>c. c \<noteq> LF) s;
            rest = dropWhile (\<lambda>c. c \<noteq> LF) s;
            (a, seg) = line_outcome specs active (line @ take 1 rest) in
        seg # tagged_spec specs a (drop 1 rest)))"
  by pat_completeness auto
termination
proof (relation "measure (\<lambda>(_, _, s). length s)", goal_cases)
  case (2 specs active s line rest r a seg)
  have "length (dropWhile (\<lambda>c. c \<noteq> LF) s) \<le> length s" by (rule length_dropWhile_le)
  with 2 show ?case by (cases "dropWhile (\<lambda>c. c \<noteq> LF) s") auto
qed simp

declare tagged_spec.simps [simp del]

lemma match_prefix:
  assumes "match_open specs slug \<noteq> None \<or> match_close specs slug \<noteq> None" "prefix (trim_end t) slug"
  shows "is_tag_prefix specs t"
proof -
  from assms(1) obtain spec where "spec \<in> set specs" "ts_open spec = slug \<or> ts_close spec = slug"
    by (auto simp: match_open_def match_close_def find_Some_iff find_None_iff)
  with assms(2) show ?thesis by (auto simp: is_tag_prefix_def list_ex_iff starts_with_iff_prefix prefix_def Let_def)
qed

lemma rejected_line_outcome:
  assumes "is_str y" "\<not> is_tag_prefix specs (trim_start x)" "without_newline line = x @ y"
  shows "line_outcome specs active line = (active, text_segment active line)"
proof -
  have "match_open specs (trim_end (trim_start (x @ y))) = None" "match_close specs (trim_end (trim_start (x @ y))) = None"
    using match_prefix [OF _ trimmed_prefix [OF assms(1)], of specs x] assms(2) by blast+
  with assms(3) show ?thesis by (simp add: line_outcome_def)
qed

lemma without_newline_simps:
  "without_newline (l @ [LF]) = l" "LF \<notin> set l \<Longrightarrow> without_newline l = l"
  by (simp add: without_newline_def strip_suffix_def ends_with_def)
    (cases l rule: rev_cases; auto simp: without_newline_def strip_suffix_def ends_with_def)

lemma line_progress:
  assumes "detect_tag p" "line_buffer p = []" "\<forall>c\<in>set xs. is_str c \<and> c \<noteq> [LF]" "tagged_steps p xs = (p', out)"
  shows "p' = p\<lparr>line_buffer := concat xs\<rparr> \<and> out = [] \<or>
    p' = p\<lparr>detect_tag := False\<rparr> \<and> merge_segments out = merge_segments [text_segment (active_tag p) (concat xs)] \<and>
      (\<exists>x y. concat xs = x @ y \<and> is_str y \<and> \<not> is_tag_prefix (tl_specs p) (trim_start x))"
  using assms(3,4)
proof (induction xs arbitrary: p' out rule: rev_induct)
  case Nil
  then show ?case using assms(2) by (cases p) auto
next
  case (snoc c xs)
  obtain p1 o1 where 1: "tagged_steps p xs = (p1, o1)" by fastforce
  obtain o2 where 2: "tagged_step p1 c = (p', o2)" and out: "out = o1 @ o2"
    using snoc.prems(2) 1 by (auto simp: tagged_steps_append split: prod.splits)
  have c: "is_str c" "c \<noteq> [LF]" using snoc.prems(1) by auto
  have "\<forall>c\<in>set xs. is_str c \<and> c \<noteq> [LF]" using snoc.prems(1) by simp
  from snoc.IH [OF this 1] show ?case
  proof (elim disjE conjE exE, goal_cases)
    case 1
    let ?l = "concat xs @ c"
    show ?thesis
    proof (cases "trim_start ?l = [] \<or> is_tag_prefix (tl_specs p) (trim_start ?l)")
      case True
      with 1 2 c out assms(1) show ?thesis by (auto simp: tagged_step_def)
    next
      case False
      with 1 2 c out assms(1,2) have "p' = p\<lparr>detect_tag := False\<rparr>" "out = [text_segment (active_tag p) ?l]"
        by (cases p; auto simp: tagged_step_def)+
      moreover have "\<exists>x y. ?l = x @ y \<and> is_str y \<and> \<not> is_tag_prefix (tl_specs p) (trim_start x)"
        using False by (intro exI [of _ ?l] exI [of _ "[]"]) (simp add: is_str_def)
      ultimately show ?thesis by simp
    qed
  next
    case (2 x y)
    then have "p' = p\<lparr>detect_tag := False\<rparr>" "o2 = [text_segment (active_tag p) c]"
      using c \<open>tagged_step p1 c = (p', o2)\<close> by (cases p; auto simp: tagged_step_def)+
    moreover have "merge_segments (o1 @ [text_segment (active_tag p) c]) =
        merge_segments [text_segment (active_tag p) (concat xs @ c)]"
      using 2(2) by (simp add: merge_segments_def)
    moreover have "\<exists>x y. concat xs @ c = x @ y \<and> is_str y \<and> \<not> is_tag_prefix (tl_specs p) (trim_start x)"
      using 2 c by (intro exI [of _ x] exI [of _ "y @ c"]) (simp add: is_str_append)
    ultimately show ?thesis using out by simp
  qed
qed

lemma utf8_chars_line:
  assumes "is_str (l @ LF # r)" "LF \<notin> set l"
  shows "utf8_chars (l @ LF # r) = utf8_chars l @ [LF] # utf8_chars r" "is_str l" "is_str r"
proof -
  have lf: "is_str [LF]" by (rule is_str_ascii) (simp add: is_ascii_def)
  show l: "is_str l" using is_str_before [OF assms(1)] by (simp add: is_ascii_def)
  have r: "is_str ([LF] @ r)" using assms(1) l by (simp add: is_str_append)
  then show "is_str r" using lf is_str_append by blast
  have "utf8_chars [LF] = [[LF]]" by code_simp
  then have "utf8_chars (LF # r) = [LF] # utf8_chars r" using utf8_chars_append [OF lf, of r] by simp
  with utf8_chars_append [OF l] show "utf8_chars (l @ LF # r) = utf8_chars l @ [LF] # utf8_chars r" by simp
qed

lemma line_chars:
  "is_str l \<Longrightarrow> LF \<notin> set l \<Longrightarrow> \<forall>c\<in>set (utf8_chars l). is_str c \<and> c \<noteq> [LF]"
  using concat_utf8_chars [of l] utf8_chars_str [of l]
  by (metis UN_I list.set_intros(1) set_concat)

lemma tagged_steps_line:
  assumes "detect_tag p" "line_buffer p = []" "is_str l" "LF \<notin> set l"
    and "line_outcome (tl_specs p) (active_tag p) (l @ [LF]) = (a, seg)"
    and "tagged_steps p (utf8_chars l @ [[LF]]) = (p', out)"
  shows "p' = p\<lparr>active_tag := a\<rparr> \<and> merge_segments out = merge_segments [seg]"
proof -
  obtain p1 o1 where 1: "tagged_steps p (utf8_chars l) = (p1, o1)" by fastforce
  obtain o2 where 2: "tagged_step p1 [LF] = (p', o2)" and out: "out = o1 @ o2"
    using assms(6) 1 by (auto simp: tagged_steps_append split: prod.splits)
  from line_progress [OF assms(1,2) line_chars [OF assms(3,4)] 1] show ?thesis
  proof (elim disjE conjE exE, goal_cases)
    case 1
    with 2 out assms show ?case by (cases p) (auto simp: tagged_step_def)
  next
    case (2 x y)
    from rejected_line_outcome [OF 2(4,5), of "l @ [LF]"] 2(3) assms(5)
    have "a = active_tag p" "seg = text_segment (active_tag p) (l @ [LF])"
      by (auto simp: without_newline_simps)
    with 2 \<open>tagged_step p1 [LF] = (p', o2)\<close> out assms(1) show ?case
      by (cases p) (auto simp: tagged_step_def merge_segments_def)
  qed
qed

lemma tagged_steps_last_line:
  assumes "detect_tag p" "line_buffer p = []" "is_str l" "LF \<notin> set l" "l \<noteq> []"
    and "line_outcome (tl_specs p) (active_tag p) l = (a, seg)" "tagged_steps p (utf8_chars l) = (p', out)"
  shows "merge_segments (out @ snd (tagged_finish p')) =
    merge_segments (seg # (case a of Some tag \<Rightarrow> [TagEnd tag] | None \<Rightarrow> []))"
proof -
  from line_progress [OF assms(1,2) line_chars [OF assms(3,4)] assms(7)] show ?thesis
  proof (elim disjE conjE exE, goal_cases)
    case 1
    with assms show ?case by (simp add: tagged_finish_outcome)
  next
    case (2 x y)
    from rejected_line_outcome [OF 2(4,5), of l] 2(3) assms
    have "a = active_tag p" "seg = text_segment (active_tag p) l" by (auto simp: without_newline_simps)
    moreover have "line_buffer p' = []" "active_tag p' = active_tag p" using 2(1) assms(2) by simp_all
    ultimately show ?case
      using merge_cong [OF 2(2) refl, of "case a of Some tag \<Rightarrow> [TagEnd tag] | None \<Rightarrow> []"]
      by (simp add: tagged_finish_outcome)
  qed
qed

lemma line_while:
  "LF \<notin> set l \<Longrightarrow> takeWhile (\<lambda>c. c \<noteq> LF) l = l" "LF \<notin> set l \<Longrightarrow> dropWhile (\<lambda>c. c \<noteq> LF) l = []"
  "LF \<notin> set l \<Longrightarrow> takeWhile (\<lambda>c. c \<noteq> LF) (l @ LF # r) = l"
  "LF \<notin> set l \<Longrightarrow> dropWhile (\<lambda>c. c \<noteq> LF) (l @ LF # r) = LF # r"
  by (induction l) auto

lemma tagged_spec_last_line:
  "LF \<notin> set l \<Longrightarrow> l \<noteq> [] \<Longrightarrow> line_outcome specs active l = (a, seg) \<Longrightarrow>
   tagged_spec specs active l = seg # (case a of Some tag \<Rightarrow> [TagEnd tag] | None \<Rightarrow> [])"
  by (subst tagged_spec.simps) (simp add: line_while tagged_spec.simps [of _ _ "[]"])

lemma tagged_spec_line:
  "LF \<notin> set l \<Longrightarrow> line_outcome specs active (l @ [LF]) = (a, seg) \<Longrightarrow>
   tagged_spec specs active (l @ LF # r) = seg # tagged_spec specs a r"
  by (subst tagged_spec.simps) (simp add: line_while)

lemma tagged_steps_spec:
  assumes "detect_tag p" "line_buffer p = []" "is_str s" "tagged_steps p (utf8_chars s) = (p', out)"
  shows "merge_segments (out @ snd (tagged_finish p')) = merge_segments (tagged_spec (tl_specs p) (active_tag p) s)"
  using assms
proof (induction "length s" arbitrary: s p out rule: less_induct)
  case less
  show ?case
  proof (cases "LF \<in> set s")
    case False
    obtain a seg where o: "line_outcome (tl_specs p) (active_tag p) s = (a, seg)" by fastforce
    show ?thesis
    proof (cases "s = []")
      case True
      with less.prems show ?thesis by (simp add: tagged_finish_outcome tagged_spec.simps [of _ _ "[]"])
    next
      case nonempty: False
      show ?thesis
        using tagged_steps_last_line [OF less.prems(1-3) False nonempty o less.prems(4)]
        by (simp add: tagged_spec_last_line [OF False nonempty o])
    qed
  next
    case True
    then obtain l r where s: "s = l @ LF # r" "LF \<notin> set l" by (metis split_list_first)
    have str: "is_str (l @ LF # r)" using less.prems(3) unfolding s(1) .
    obtain a seg where o: "line_outcome (tl_specs p) (active_tag p) (l @ [LF]) = (a, seg)" by fastforce
    note chars = utf8_chars_line [OF str s(2)]
    obtain p1 o1 where 1: "tagged_steps p (utf8_chars l @ [[LF]]) = (p1, o1)" by fastforce
    note line = tagged_steps_line [OF less.prems(1,2) chars(2) s(2) o 1]
    have "utf8_chars s = (utf8_chars l @ [[LF]]) @ utf8_chars r" unfolding s(1) chars(1) by simp
    then obtain o2 where 2: "tagged_steps p1 (utf8_chars r) = (p', o2)" and out: "out = o1 @ o2"
      using less.prems(4) tagged_steps_append [of p "utf8_chars l @ [[LF]]" "utf8_chars r"] 1
      by (auto split: prod.splits)
    have p1: "detect_tag p1" "line_buffer p1 = []" "tl_specs p1 = tl_specs p" "active_tag p1 = a"
      using line less.prems(1,2) by simp_all
    have "length r < length s" unfolding s(1) by simp
    from less.hyps [OF this p1(1,2) chars(3) 2]
    have "merge_segments (o2 @ snd (tagged_finish p')) = merge_segments (tagged_spec (tl_specs p) a r)"
      unfolding p1(3,4) .
    from merge_cong [OF conjunct2 [OF line] this] show ?thesis
      unfolding s(1) tagged_spec_line [OF s(2) o] out by simp
  qed
qed

lemma tagged_parse_spec:
  assumes "is_str s" "tagged_parse (tagged_new specs) s = (p, out)"
  shows "merge_segments (out @ snd (tagged_finish p)) = merge_segments (tagged_spec specs None s)"
proof -
  obtain out' where "tagged_steps (tagged_new specs) (utf8_chars s) = (p, out')" "out = merge_segments out'"
    using assms(2) by (cases "tagged_steps (tagged_new specs) (utf8_chars s)") (auto simp: tagged_parse_steps)
  with tagged_steps_spec [of "tagged_new specs" s p out'] assms(1) show ?thesis by (simp add: tagged_new_def)
qed

end
