(* ===== verification/Proposed_Plan.thy ===== *)
theory Proposed_Plan
  imports Tagged_Lines Utf8_Stream
begin

text \<open>
  The \<open><proposed_plan>\<close> blocks of plan mode (utils/stream-parser/src/proposed_plan.rs), as an instance of the
  streaming interface on top of the line-tag parser.
\<close>

section \<open>Data and operations\<close>

datatype PlanTag = ProposedPlan

datatype ProposedPlanSegment =
  PlanNormal string | ProposedPlanStart | ProposedPlanDelta string | ProposedPlanEnd

definition OPEN_TAG :: string where
  "OPEN_TAG = ''<proposed_plan>''"

definition CLOSE_TAG :: string where
  "CLOSE_TAG = ''</proposed_plan>''"

definition plan_spec :: "PlanTag TagSpec" where
  "plan_spec = \<lparr>ts_open = OPEN_TAG, ts_close = CLOSE_TAG, ts_tag = ProposedPlan\<rparr>"

type_synonym ProposedPlanParser = "PlanTag TaggedLineParser"

definition plan_new :: ProposedPlanParser where
  "plan_new = tagged_new [plan_spec]"

fun map_segment :: "PlanTag TaggedLineSegment \<Rightarrow> ProposedPlanSegment" where
  "map_segment (Normal t) = PlanNormal t"
| "map_segment (TagStart ProposedPlan) = ProposedPlanStart"
| "map_segment (TagDelta ProposedPlan t) = ProposedPlanDelta t"
| "map_segment (TagEnd ProposedPlan) = ProposedPlanEnd"

lemma map_segment_tag [simp]:
  "map_segment (TagStart t) = ProposedPlanStart" "map_segment (TagDelta t d) = ProposedPlanDelta d"
  "map_segment (TagEnd t) = ProposedPlanEnd"
  by (cases t; simp)+

definition map_segments :: "PlanTag TaggedLineSegment list \<Rightarrow> ProposedPlanSegment StreamTextChunk" where
  "map_segments segments =
    foldl (\<lambda>out segment.
        let mapped = map_segment segment;
            out = (case mapped of
                PlanNormal t \<Rightarrow> out\<lparr>visible_text := visible_text out @ t\<rparr>
              | _ \<Rightarrow> out) in
        out\<lparr>extracted := extracted out @ [mapped]\<rparr>)
      chunk_default segments"

definition plan_push_str :: "ProposedPlanParser \<Rightarrow> string \<Rightarrow> ProposedPlanParser \<times> ProposedPlanSegment StreamTextChunk" where
  "plan_push_str p chunk = map_prod id map_segments (tagged_parse p chunk)"

definition plan_finish :: "ProposedPlanParser \<Rightarrow> ProposedPlanParser \<times> ProposedPlanSegment StreamTextChunk" where
  "plan_finish p = map_prod id map_segments (tagged_finish p)"

definition strip_proposed_plan_blocks :: "string \<Rightarrow> string" where
  "strip_proposed_plan_blocks s =
    (let (p, out) = plan_push_str plan_new s in visible_text out @ visible_text (snd (plan_finish p)))"

definition plan_text_step :: "bool \<times> string \<Rightarrow> ProposedPlanSegment \<Rightarrow> bool \<times> string" where
  "plan_text_step st segment =
    (case st of (saw_plan_block, plan_text) \<Rightarrow>
     (case segment of
        ProposedPlanStart \<Rightarrow> (True, [])
      | ProposedPlanDelta delta \<Rightarrow> (saw_plan_block, plan_text @ delta)
      | _ \<Rightarrow> (saw_plan_block, plan_text)))"

definition extract_proposed_plan_text :: "string \<Rightarrow> string option" where
  "extract_proposed_plan_text s =
    (let (p, out) = plan_push_str plan_new s;
         (saw_plan_block, plan_text) =
           foldl plan_text_step (False, []) (extracted out @ extracted (snd (plan_finish p))) in
     if saw_plan_block then Some plan_text else None)"

section \<open>Segments up to merging\<close>

definition normal_text :: "'t TaggedLineSegment list \<Rightarrow> string" where
  "normal_text segs = concat (map (\<lambda>seg. case seg of Normal t \<Rightarrow> t | _ \<Rightarrow> []) segs)"

lemma map_segments_eq: "map_segments segs = \<lparr>visible_text = normal_text segs, extracted = map map_segment segs\<rparr>"
proof (induction segs rule: rev_induct)
  case (snoc x xs)
  then have "map_segments (xs @ [x]) =
      \<lparr>visible_text = normal_text xs @ normal_text [x], extracted = map map_segment xs @ [map_segment x]\<rparr>"
    by (cases x rule: map_segment.cases) (simp_all add: map_segments_def normal_text_def)
  then show ?case by (simp add: normal_text_def)
qed (simp add: map_segments_def normal_text_def chunk_default_def)

lemma normal_text_append [simp]: "normal_text (xs @ ys) = normal_text xs @ normal_text ys"
  by (simp add: normal_text_def)

lemma normal_text_push_segment: "normal_text (push_segment xs x) = normal_text xs @ normal_text [x]"
  by (cases xs rule: rev_cases; cases x)
    (auto simp: push_segment_def normal_text_def split: TaggedLineSegment.splits)

lemma normal_text_merge [simp]: "normal_text (merge_segments xs) = normal_text xs"
proof -
  have "normal_text (foldl push_segment zs xs) = normal_text (zs @ xs)" for zs
    by (induction xs rule: rev_induct) (simp_all add: normal_text_push_segment)
  from this [of "[]"] show ?thesis by (simp add: merge_segments_def)
qed

fun unmap_segment :: "ProposedPlanSegment \<Rightarrow> PlanTag TaggedLineSegment" where
  "unmap_segment (PlanNormal t) = Normal t"
| "unmap_segment ProposedPlanStart = TagStart ProposedPlan"
| "unmap_segment (ProposedPlanDelta t) = TagDelta ProposedPlan t"
| "unmap_segment ProposedPlanEnd = TagEnd ProposedPlan"

lemma unmap_map_segment [simp]: "unmap_segment (map_segment x) = x" "map_segment (unmap_segment y) = y"
  by (cases x rule: map_segment.cases; simp) (cases y; simp)

lemma unmap_comp [simp]: "unmap_segment \<circ> map_segment = id" "map_segment \<circ> unmap_segment = id"
  by (simp_all add: fun_eq_iff)

text \<open>Adjacent pieces of text are one.\<close>

definition plan_norm :: "ProposedPlanSegment list \<Rightarrow> ProposedPlanSegment list" where
  "plan_norm segs = map map_segment (merge_segments (map unmap_segment segs))"

lemma plan_norm_append:
  "plan_norm (plan_norm xs @ ys) = plan_norm (xs @ ys)" "plan_norm (xs @ plan_norm ys) = plan_norm (xs @ ys)"
  by (simp_all add: plan_norm_def)

lemma plan_norm_map [simp]: "plan_norm (map map_segment segs) = map map_segment (merge_segments segs)"
  by (simp add: plan_norm_def)

section \<open>The interface\<close>

lemma tagged_parse_merged: "merge_segments (snd (tagged_parse p a)) = snd (tagged_parse p a)"
  by (simp add: tagged_parse_steps)

interpretation plans: stream_text_parser plan_push_str "\<lambda>_. True" plan_norm
proof unfold_locales
  fix p :: ProposedPlanParser and a b :: string
  assume a: "is_str a"
  from tagged_parse_append [OF a, of p b]
  show "fst (plan_push_str p (a @ b)) = fst (plan_push_str (fst (plan_push_str p a)) b)"
    and "visible_text (snd (plan_push_str p (a @ b))) =
      visible_text (snd (plan_push_str p a)) @ visible_text (snd (plan_push_str (fst (plan_push_str p a)) b))"
    and "plan_norm (extracted (snd (plan_push_str p (a @ b)))) =
      plan_norm (extracted (snd (plan_push_str p a)) @ extracted (snd (plan_push_str (fst (plan_push_str p a)) b)))"
    by (simp_all add: plan_push_str_def map_segments_eq plan_norm_def)
qed (simp_all add: plan_norm_append plan_push_str_def tagged_parse_def map_segments_def)

section \<open>The function computed on a whole text\<close>

definition plan_lines :: "string \<Rightarrow> ProposedPlanSegment list" where
  "plan_lines s = map map_segment (tagged_spec [plan_spec] None s)"

definition plan_visible :: "string \<Rightarrow> string" where
  "plan_visible s = concat (map (\<lambda>seg. case seg of PlanNormal t \<Rightarrow> t | _ \<Rightarrow> []) (plan_lines s))"

lemma normal_text_map: "concat (map (\<lambda>seg. case seg of PlanNormal t \<Rightarrow> t | _ \<Rightarrow> []) (map map_segment segs)) = normal_text segs"
proof -
  have "(case map_segment x of PlanNormal t \<Rightarrow> t | _ \<Rightarrow> []) = (case x of Normal t \<Rightarrow> t | _ \<Rightarrow> [])" for x
    by (cases x rule: map_segment.cases) simp_all
  then show ?thesis by (simp add: normal_text_def comp_def)
qed

lemma plan_push_spec:
  assumes "is_str s" "plan_push_str plan_new s = (p, out)"
  shows "visible_text out @ visible_text (snd (plan_finish p)) = plan_visible s"
    and "plan_norm (extracted out @ extracted (snd (plan_finish p))) = plan_norm (plan_lines s)"
proof -
  obtain segs where o: "tagged_parse (tagged_new [plan_spec]) s = (p, segs)" "out = map_segments segs"
    using assms(2) by (cases "tagged_parse (tagged_new [plan_spec]) s") (auto simp: plan_push_str_def plan_new_def)
  note merge = tagged_parse_spec [OF assms(1) o(1)]
  show "visible_text out @ visible_text (snd (plan_finish p)) = plan_visible s"
    using arg_cong [OF merge, of normal_text] o
    by (simp add: plan_visible_def plan_lines_def normal_text_map map_segments_eq plan_finish_def del: map_map)
  show "plan_norm (extracted out @ extracted (snd (plan_finish p))) = plan_norm (plan_lines s)"
    using merge o by (simp add: plan_lines_def map_segments_eq plan_finish_def flip: map_append)
qed

section \<open>Well-bracketed segments\<close>

text \<open>Inside and outside a block: plan text only between a start and an end, other text only outside.\<close>

fun block_after :: "bool \<Rightarrow> ProposedPlanSegment list \<Rightarrow> bool option" where
  "block_after b [] = Some b"
| "block_after b (PlanNormal _ # r) = (if b then None else block_after False r)"
| "block_after b (ProposedPlanStart # r) = (if b then None else block_after True r)"
| "block_after b (ProposedPlanDelta _ # r) = (if b then block_after True r else None)"
| "block_after b (ProposedPlanEnd # r) = (if b then block_after False r else None)"

lemma block_after_append:
  "block_after b (xs @ ys) = (case block_after b xs of Some b' \<Rightarrow> block_after b' ys | None \<Rightarrow> None)"
  by (induction b xs rule: block_after.induct) auto

lemma block_after_Some: "block_after b [x] = Some b' \<longleftrightarrow>
    (case x of PlanNormal _ \<Rightarrow> \<not> b \<and> \<not> b' | ProposedPlanStart \<Rightarrow> \<not> b \<and> b'
      | ProposedPlanDelta _ \<Rightarrow> b \<and> b' | ProposedPlanEnd \<Rightarrow> b \<and> \<not> b')"
  by (cases x) auto

lemma push_segment_shape:
  "push_segment xs x = xs @ [x] \<or>
   push_segment xs x = xs \<and> ((\<exists>t. x = Normal t) \<or> (\<exists>t d. x = TagDelta t d)) \<or>
   (\<exists>ys s t. xs = ys @ [Normal s] \<and> x = Normal t \<and> push_segment xs x = ys @ [Normal (s @ t)]) \<or>
   (\<exists>ys a s t. xs = ys @ [TagDelta a s] \<and> x = TagDelta a t \<and> push_segment xs x = ys @ [TagDelta a (s @ t)])"
  by (cases xs rule: rev_cases; cases x) (auto simp: push_segment_def split: TaggedLineSegment.splits)

lemma block_after_push:
  assumes "block_after b (map map_segment xs) = Some b1" "block_after b1 [map_segment x] = Some b'"
  shows "block_after b (map map_segment (push_segment xs x)) = Some b'"
  using push_segment_shape [of xs x] assms
  by (elim disjE conjE exE) (auto simp: block_after_append block_after_Some split: option.splits if_splits)

lemma block_after_merge:
  "block_after b (map map_segment xs) = Some b' \<Longrightarrow> block_after b (map map_segment (merge_segments xs)) = Some b'"
proof (induction xs arbitrary: b' rule: rev_induct)
  case (snoc x xs)
  then obtain b1 where "block_after b (map map_segment xs) = Some b1" "block_after b1 [map_segment x] = Some b'"
    by (auto simp: block_after_append split: option.splits)
  with snoc.IH [of b1] block_after_push [of b "merge_segments xs" b1 x b'] show ?case
    by (simp add: merge_segments_def)
qed (simp add: merge_segments_def)

definition tag_open :: "PlanTag option \<Rightarrow> bool" where
  "tag_open a = (case a of Some _ \<Rightarrow> True | None \<Rightarrow> False)"

lemma tag_open_simps [simp]: "tag_open (Some t)" "\<not> tag_open None"
  by (simp_all add: tag_open_def)

lemma block_after_text [simp]:
  "block_after (tag_open a) [map_segment (text_segment a t)] = Some (tag_open a)"
  by (cases a) (simp_all add: text_segment_def)

lemma line_outcome_block:
  "line_outcome specs a line = (a', seg) \<Longrightarrow> block_after (tag_open a) [map_segment seg] = Some (tag_open a')"
  by (cases a; cases "match_open specs (trim_end (trim_start (without_newline line)))")
    (auto simp: line_outcome_def Let_def text_segment_def tag_open_def split: option.splits if_splits)

lemma tagged_step_block:
  "tagged_step p c = (p', out) \<Longrightarrow>
   block_after (tag_open (active_tag p)) (map map_segment out) = Some (tag_open (active_tag p'))"
  by (auto simp: tagged_step_def Let_def dest: line_outcome_block split: if_splits prod.splits)

lemma tagged_steps_block:
  "tagged_steps p cs = (p', out) \<Longrightarrow>
   block_after (tag_open (active_tag p)) (map map_segment out) = Some (tag_open (active_tag p'))"
proof (induction cs arbitrary: p out)
  case (Cons c cs)
  obtain p1 o1 o2 where 1: "tagged_step p c = (p1, o1)" and 2: "tagged_steps p1 cs = (p', o2)" and o: "out = o1 @ o2"
    using Cons.prems by (auto split: prod.splits)
  from tagged_step_block [OF 1] Cons.IH [OF 2] o show ?case by (simp add: block_after_append)
qed simp

lemma plan_push_block:
  "plan_push_str p c = (p', out) \<Longrightarrow> block_after (tag_open (active_tag p)) (extracted out) = Some (tag_open (active_tag p'))"
  by (cases "tagged_steps p (utf8_chars c)")
    (auto simp: plan_push_str_def tagged_parse_steps map_segments_eq intro!: block_after_merge [OF tagged_steps_block])

lemma plan_push_all_block:
  "push_all plan_push_str p cs = (p', out) \<Longrightarrow>
   block_after (tag_open (active_tag p)) (extracted out) = Some (tag_open (active_tag p'))"
proof (induction cs arbitrary: p out)
  case (Cons c cs)
  obtain p1 o1 o2 where 1: "plan_push_str p c = (p1, o1)" and 2: "push_all plan_push_str p1 cs = (p', o2)"
    and o: "out = chunk_append o1 o2"
    using Cons.prems by (auto split: prod.splits)
  from plan_push_block [OF 1] Cons.IH [OF 2] o show ?case by (simp add: block_after_append)
qed (simp add: chunk_default_def)

lemma plan_finish_block: "block_after (tag_open (active_tag p)) (extracted (snd (plan_finish p))) = Some False"
proof -
  obtain a segs where o: "(if line_buffer p = [] then (active_tag p, []) else
      map_prod id (\<lambda>x. [x]) (line_outcome (tl_specs p) (active_tag p) (line_buffer p))) = (a, segs)" by fastforce
  have "block_after (tag_open (active_tag p)) (map map_segment segs) = Some (tag_open a)"
    using o by (cases "line_outcome (tl_specs p) (active_tag p) (line_buffer p)")
      (auto dest: line_outcome_block split: if_splits)
  moreover have "block_after (tag_open a) (map map_segment (case a of Some tag \<Rightarrow> [TagEnd tag] | None \<Rightarrow> [])) = Some False"
    by (cases a) simp_all
  ultimately have "block_after (tag_open (active_tag p))
      (map map_segment (segs @ (case a of Some tag \<Rightarrow> [TagEnd tag] | None \<Rightarrow> []))) = Some False"
    by (simp add: block_after_append)
  from block_after_merge [OF this] o show ?thesis
    by (simp add: plan_finish_def map_segments_eq tagged_finish_outcome)
qed

section \<open>The last plan\<close>

text \<open>The text of the block that starts last.\<close>

fun last_plan :: "ProposedPlanSegment list \<Rightarrow> string option" where
  "last_plan [] = None"
| "last_plan (ProposedPlanStart # r) =
    (case last_plan r of
       Some t \<Rightarrow> Some t
     | None \<Rightarrow> Some (concat (map (\<lambda>seg. case seg of ProposedPlanDelta d \<Rightarrow> d | _ \<Rightarrow> []) r)))"
| "last_plan (_ # r) = last_plan r"

definition plan_text_of :: "bool \<times> string \<Rightarrow> string option" where
  "plan_text_of st = (if fst st then Some (snd st) else None)"

lemma plan_text_fold:
  "foldl plan_text_step (saw, t) segs =
    (case last_plan segs of
       Some u \<Rightarrow> (True, u)
     | None \<Rightarrow> (saw, t @ concat (map (\<lambda>seg. case seg of ProposedPlanDelta d \<Rightarrow> d | _ \<Rightarrow> []) segs)))"
  by (induction segs arbitrary: saw t rule: last_plan.induct) (auto simp: plan_text_step_def split: option.splits)

lemma plan_text_fold_push:
  "foldl plan_text_step st (map map_segment (push_segment xs x)) = foldl plan_text_step st (map map_segment (xs @ [x]))"
proof -
  have "push_segment xs x = xs \<Longrightarrow> x = Normal [] \<or> (\<exists>t. x = TagDelta t []) \<or> (\<exists>t. x = Normal t)"
    by (cases xs rule: rev_cases; cases x) (auto simp: push_segment_def split: TaggedLineSegment.splits if_splits)
  with push_segment_shape [of xs x] show ?thesis
    by (elim disjE conjE exE) (auto simp: plan_text_step_def split: prod.splits)
qed

lemma plan_text_fold_merge:
  "foldl plan_text_step st (map map_segment (merge_segments xs)) = foldl plan_text_step st (map map_segment xs)"
  by (induction xs rule: rev_induct) (simp_all add: merge_segments_def plan_text_fold_push)

lemma extract_plan_fold:
  assumes "is_str s"
  shows "extract_proposed_plan_text s = plan_text_of (foldl plan_text_step (False, []) (plan_lines s))"
proof -
  obtain p out where o: "plan_push_str plan_new s = (p, out)" by fastforce
  let ?segs = "extracted out @ extracted (snd (plan_finish p))"
  have fold_norm: "foldl plan_text_step st (plan_norm xs) = foldl plan_text_step st xs" for st xs
    using plan_text_fold_merge [of st "map unmap_segment xs"] by (simp add: plan_norm_def)
  have "foldl plan_text_step (False, []) ?segs = foldl plan_text_step (False, []) (plan_lines s)"
    using arg_cong [OF plan_push_spec(2) [OF assms o], of "foldl plan_text_step (False, [])"] by (simp only: fold_norm)
  with o show ?thesis
    by (auto simp: extract_proposed_plan_text_def plan_text_of_def split: prod.splits)
qed

lemma plan_push_all_spec:
  assumes "list_all is_str cs" "push_all plan_push_str plan_new cs = (p, out)"
  shows "visible_text out @ visible_text (snd (plan_finish p)) = plan_visible (concat cs) \<and>
    plan_norm (extracted out @ extracted (snd (plan_finish p))) = plan_norm (plan_lines (concat cs))"
proof
  have cs: "\<forall>c\<in>set cs. is_str c" using assms(1) by (simp add: list_all_iff)
  obtain out' where o: "plan_push_str plan_new (concat cs) = (p, out')"
    using plans.push_all_concat(1) [OF TrueI cs, of plan_new] assms(2) by (metis fst_conv prod.collapse)
  note same = plans.push_all_concat(2) [OF TrueI cs, of plan_new]
  note spec = plan_push_spec [OF is_str_concat [OF cs] o]
  show "visible_text out @ visible_text (snd (plan_finish p)) = plan_visible (concat cs)"
    using same spec(1) assms(2) o by (simp add: plans.same_output_def)
  show "plan_norm (extracted out @ extracted (snd (plan_finish p))) = plan_norm (plan_lines (concat cs))"
    using same spec(2) assms(2) o plan_norm_append(1) [of "extracted out"] plan_norm_append(1) [of "extracted out'"]
    by (simp add: plans.same_output_def)
qed

section \<open>Properties\<close>

text \<open>C16: However a text is cut into chunks, the plan parser's visible text and segments, up to merging adjacent
  pieces of text, are those of reading the text line by line: a tag counts exactly when it stands alone on its
  line, possibly among whitespace, and a block left open at the end is closed.\<close>

theorem plan_stream_spec:
  assumes "list_all is_str cs" "push_all plan_push_str plan_new cs = (p, out)"
  shows "visible_text out @ visible_text (snd (plan_finish p)) = plan_visible (concat cs) \<and>
    plan_norm (extracted out @ extracted (snd (plan_finish p))) = plan_norm (plan_lines (concat cs))"
  using assms by (rule plan_push_all_spec)

theorem plan_stream_spec_witness:
  "(let (p, out) = push_all plan_push_str plan_new [''a'' @ [LF] @ '' <prop'', ''osed_plan>'' @ [LF] @ ''b''] in
    (visible_text out @ visible_text (snd (plan_finish p)),
     plan_norm (extracted out @ extracted (snd (plan_finish p))))) =
   (''a'' @ [LF], [PlanNormal (''a'' @ [LF]), ProposedPlanStart, ProposedPlanDelta ''b'', ProposedPlanEnd])"
proof -
  let ?cs = "[''a'' @ [LF] @ '' <prop'', ''osed_plan>'' @ [LF] @ ''b'']"
  obtain p out where o: "push_all plan_push_str plan_new ?cs = (p, out)" by fastforce
  have "list_all is_str ?cs" by code_simp
  from plan_stream_spec [OF this o]
  have "visible_text out @ visible_text (snd (plan_finish p)) = plan_visible (concat ?cs)"
    "plan_norm (extracted out @ extracted (snd (plan_finish p))) = plan_norm (plan_lines (concat ?cs))" by blast+
  moreover have "plan_visible (concat ?cs) = ''a'' @ [LF]" by code_simp
  moreover have "plan_norm (plan_lines (concat ?cs)) =
      [PlanNormal (''a'' @ [LF]), ProposedPlanStart, ProposedPlanDelta ''b'', ProposedPlanEnd]" by code_simp
  ultimately show ?thesis unfolding o by simp
qed

text \<open>The segments of every chunking are well bracketed: starts and ends alternate, plan text appears only
  inside a block and other text only outside, and after \<open>finish\<close> no block is open.\<close>

theorem plan_segments_bracketed:
  "block_after False (let (p, out) = push_all plan_push_str plan_new cs in
     extracted out @ extracted (snd (plan_finish p))) = Some False"
proof -
  obtain p out where o: "push_all plan_push_str plan_new cs = (p, out)" by fastforce
  with plan_push_all_block [OF o] plan_finish_block [of p] show ?thesis
    by (simp add: plan_new_def tagged_new_def block_after_append)
qed

text \<open>\<open>extract_proposed_plan_text\<close> returns the text of the last plan block of the text, and nothing exactly
  when there is no block.\<close>

theorem extract_plan_last:
  assumes "is_str s"
  shows "extract_proposed_plan_text s = last_plan (plan_lines s)"
  using extract_plan_fold [OF assms]
  by (simp add: plan_text_of_def plan_text_fold split: option.splits)

theorem extract_plan_last_witness:
  "extract_proposed_plan_text (''<proposed_plan>'' @ [LF] @ ''x'' @ [LF] @ ''</proposed_plan>'' @ [LF] @ ''y'') =
    Some (''x'' @ [LF])"
proof -
  have "is_str (''<proposed_plan>'' @ [LF] @ ''x'' @ [LF] @ ''</proposed_plan>'' @ [LF] @ ''y'')" by code_simp
  from extract_plan_last [OF this] show ?thesis by code_simp
qed

end
