(* ===== verification/Assistant_Text.thy ===== *)
theory Assistant_Text
  imports Inline_Tags Proposed_Plan
begin

text \<open>
  The parser of assistant messages (utils/stream-parser/src/assistant_text.rs): citations are taken out first, and
  in plan mode the rest goes through the plan parser.  The laws of the two parts give those of the pipeline, also
  behind the byte adapter.
\<close>

section \<open>Data and operations\<close>

record AssistantTextChunk =
  assistant_visible_text :: string
  assistant_citations :: "string list"
  plan_segments :: "ProposedPlanSegment list"

definition assistant_chunk_default :: AssistantTextChunk where
  "assistant_chunk_default = \<lparr>assistant_visible_text = [], assistant_citations = [], plan_segments = []\<rparr>"

definition assistant_chunk_is_empty :: "AssistantTextChunk \<Rightarrow> bool" where
  "assistant_chunk_is_empty c \<longleftrightarrow>
    assistant_visible_text c = [] \<and> assistant_citations c = [] \<and> plan_segments c = []"

record AssistantTextStreamParser =
  plan_mode :: bool
  citations_parser :: CitationStreamParser
  plan_parser :: ProposedPlanParser

definition assistant_new :: "bool \<Rightarrow> AssistantTextStreamParser" where
  "assistant_new mode = \<lparr>plan_mode = mode, citations_parser = citation_new, plan_parser = plan_new\<rparr>"

definition parse_visible_text ::
  "AssistantTextStreamParser \<Rightarrow> string \<Rightarrow> AssistantTextStreamParser \<times> AssistantTextChunk" where
  "parse_visible_text p vis =
    (if \<not> plan_mode p then (p, assistant_chunk_default\<lparr>assistant_visible_text := vis\<rparr>)
     else
       (let (plan, plan_chunk) = plan_push_str (plan_parser p) vis in
        (p\<lparr>plan_parser := plan\<rparr>,
         assistant_chunk_default\<lparr>assistant_visible_text := visible_text plan_chunk, plan_segments := extracted plan_chunk\<rparr>)))"

definition assistant_push_str ::
  "AssistantTextStreamParser \<Rightarrow> string \<Rightarrow> AssistantTextStreamParser \<times> AssistantTextChunk" where
  "assistant_push_str p chunk =
    (let (cit, citation_chunk) = citation_push_str (citations_parser p) chunk;
         (p, out) = parse_visible_text (p\<lparr>citations_parser := cit\<rparr>) (visible_text citation_chunk) in
     (p, out\<lparr>assistant_citations := extracted citation_chunk\<rparr>))"

definition assistant_finish :: "AssistantTextStreamParser \<Rightarrow> AssistantTextStreamParser \<times> AssistantTextChunk" where
  "assistant_finish p =
    (let (cit, citation_chunk) = citation_finish (citations_parser p);
         (p, out) = parse_visible_text (p\<lparr>citations_parser := cit\<rparr>) (visible_text citation_chunk);
         (p, out) =
           (if plan_mode p then
              (let (plan, tail) = plan_finish (plan_parser p);
                   p = p\<lparr>plan_parser := plan\<rparr> in
               if stream_chunk_is_empty tail then (p, out)
               else (p, out\<lparr>assistant_visible_text := assistant_visible_text out @ visible_text tail,
                            plan_segments := plan_segments out @ extracted tail\<rparr>))
            else (p, out)) in
     (p, out\<lparr>assistant_citations := extracted citation_chunk\<rparr>))"

section \<open>Streams\<close>

definition assistant_append :: "AssistantTextChunk \<Rightarrow> AssistantTextChunk \<Rightarrow> AssistantTextChunk" where
  "assistant_append a b =
    \<lparr>assistant_visible_text = assistant_visible_text a @ assistant_visible_text b,
     assistant_citations = assistant_citations a @ assistant_citations b,
     plan_segments = plan_segments a @ plan_segments b\<rparr>"

fun assistant_push_all ::
  "AssistantTextStreamParser \<Rightarrow> string list \<Rightarrow> AssistantTextStreamParser \<times> AssistantTextChunk" where
  "assistant_push_all p [] = (p, assistant_chunk_default)"
| "assistant_push_all p (c # cs) =
    (let (p1, o1) = assistant_push_str p c; (p2, o2) = assistant_push_all p1 cs in (p2, assistant_append o1 o2))"

text \<open>What a client has seen when the stream is over.\<close>

definition assistant_stream :: "bool \<Rightarrow> string list \<Rightarrow> AssistantTextChunk" where
  "assistant_stream mode cs =
    (let (p, out) = assistant_push_all (assistant_new mode) cs in assistant_append out (snd (assistant_finish p)))"

definition assistant_norm :: "AssistantTextChunk \<Rightarrow> AssistantTextChunk" where
  "assistant_norm c = c\<lparr>plan_segments := plan_norm (plan_segments c)\<rparr>"

definition assistant_spec :: "bool \<Rightarrow> string \<Rightarrow> AssistantTextChunk" where
  "assistant_spec mode s =
    (let (vis, cites) = cite_spec s in
     \<lparr>assistant_visible_text = (if mode then plan_visible vis else vis),
      assistant_citations = cites,
      plan_segments = (if mode then plan_norm (plan_lines vis) else [])\<rparr>)"

text \<open>The two stages run one behind the other: \<open>vis\<close> are the visible texts the plan parser gets.\<close>

lemma assistant_push_all_stages:
  assumes "citation_invar (citations_parser p)" "\<forall>c\<in>set cs. is_str c" "assistant_push_all p cs = (p', out)"
  obtains vis ci where
    "push_all citation_push_str (citations_parser p) cs = (citations_parser p', ci)"
    "concat vis = visible_text ci" "\<forall>c\<in>set vis. is_str c" "assistant_citations out = extracted ci"
    "plan_mode p' = plan_mode p" "citation_invar (citations_parser p')"
    "\<not> plan_mode p \<Longrightarrow> assistant_visible_text out = visible_text ci \<and> plan_segments out = []"
    "plan_mode p \<Longrightarrow> push_all plan_push_str (plan_parser p) vis =
      (plan_parser p', \<lparr>visible_text = assistant_visible_text out, extracted = plan_segments out\<rparr>)"
  using assms
proof (induction cs arbitrary: p out thesis)
  case Nil
  then show ?case
    by (intro Nil.prems(1) [of chunk_default "[]"]) (auto simp: assistant_chunk_default_def chunk_default_def)
next
  case (Cons c cs)
  obtain cit co where cit: "citation_push_str (citations_parser p) c = (cit, co)" by fastforce
  have inv: "citation_invar cit" using citations.push_invar [of "citations_parser p" c] Cons.prems cit by simp
  have co: "is_str (visible_text co)"
    using citation_visible_str [of "citations_parser p" c] Cons.prems(2,3) cit by simp
  obtain p1 o1 where 1: "assistant_push_str p c = (p1, o1)" by fastforce
  obtain o2 where 2: "assistant_push_all p1 cs = (p', o2)" and out: "out = assistant_append o1 o2"
    using Cons.prems(4) 1 by (auto split: prod.splits)
  have p1: "citations_parser p1 = cit" "plan_mode p1 = plan_mode p" "assistant_citations o1 = extracted co"
    and vis1: "\<not> plan_mode p \<Longrightarrow> assistant_visible_text o1 = visible_text co \<and> plan_segments o1 = []"
    and plan1: "plan_mode p \<Longrightarrow> plan_push_str (plan_parser p) (visible_text co) =
      (plan_parser p1, \<lparr>visible_text = assistant_visible_text o1, extracted = plan_segments o1\<rparr>)"
    using 1 cit by (auto simp: assistant_push_str_def parse_visible_text_def assistant_chunk_default_def split: prod.splits if_splits)
  show ?case
  proof (rule Cons.IH [of p1 o2])
    show "citation_invar (citations_parser p1)" "\<forall>c\<in>set cs. is_str c" "assistant_push_all p1 cs = (p', o2)"
      using inv p1 Cons.prems(3) 2 by simp_all
    fix vis ci
    assume "push_all citation_push_str (citations_parser p1) cs = (citations_parser p', ci)"
      "concat vis = visible_text ci" "\<forall>c\<in>set vis. is_str c" "assistant_citations o2 = extracted ci"
      "plan_mode p' = plan_mode p1" "citation_invar (citations_parser p')"
      "\<not> plan_mode p1 \<Longrightarrow> assistant_visible_text o2 = visible_text ci \<and> plan_segments o2 = []"
      "plan_mode p1 \<Longrightarrow> push_all plan_push_str (plan_parser p1) vis =
        (plan_parser p', \<lparr>visible_text = assistant_visible_text o2, extracted = plan_segments o2\<rparr>)"
    then show ?case
      using cit co p1 vis1 plan1 out
      by (intro Cons.prems(1) [of "chunk_append co ci" "visible_text co # vis"])
        (simp_all add: assistant_append_def chunk_append_def)
  qed
qed

lemma citation_finish_str:
  "citation_invar p \<Longrightarrow> is_str (visible_text (snd (citation_finish p)))"
  using citation_pending_ascii [of p]
  by (auto simp: citation_finish_def inline_finish_def citation_chunk_def is_str_def split: option.splits)

lemma assistant_stream_eq:
  assumes cs: "list_all is_str cs"
  shows "assistant_norm (assistant_stream mode cs) = assistant_spec mode (concat cs)"
proof -
  obtain p out where run: "assistant_push_all (assistant_new mode) cs = (p, out)" by fastforce
  have start: "citation_invar (citations_parser (assistant_new mode))" "\<forall>c\<in>set cs. is_str c"
    using citation_new_invar cs by (simp_all add: assistant_new_def list_all_iff)
  obtain vis ci where st:
    "push_all citation_push_str citation_new cs = (citations_parser p, ci)"
    "concat vis = visible_text ci" "\<forall>c\<in>set vis. is_str c" "assistant_citations out = extracted ci"
    "plan_mode p = mode" "citation_invar (citations_parser p)"
    "\<not> mode \<Longrightarrow> assistant_visible_text out = visible_text ci \<and> plan_segments out = []"
    "mode \<Longrightarrow> push_all plan_push_str plan_new vis =
      (plan_parser p, \<lparr>visible_text = assistant_visible_text out, extracted = plan_segments out\<rparr>)"
    by (rule assistant_push_all_stages [OF start run]) (simp add: assistant_new_def)
  obtain cit t where fin: "citation_finish (citations_parser p) = (cit, t)" by fastforce
  have cite: "cite_spec (concat cs) = (visible_text ci @ visible_text t, extracted ci @ extracted t)"
    using citations_push_all_spec [OF cs] st(1) fin by (simp add: citations_of_def)
  show ?thesis
  proof (cases mode)
    case False
    with st fin run cite show ?thesis
      by (simp add: assistant_stream_def assistant_finish_def parse_visible_text_def assistant_norm_def
          assistant_spec_def assistant_append_def assistant_chunk_default_def plan_norm_def merge_segments_def)
  next
    case True
    obtain pl po where push: "plan_push_str (plan_parser p) (visible_text t) = (pl, po)" by fastforce
    obtain pl' tail where tail: "plan_finish pl = (pl', tail)" by fastforce
    have strs: "list_all is_str (vis @ [visible_text t])"
      using st(3) citation_finish_str [OF st(6)] fin by (simp add: list_all_iff)
    have all: "push_all plan_push_str plan_new (vis @ [visible_text t]) =
        (pl, chunk_append \<lparr>visible_text = assistant_visible_text out, extracted = plan_segments out\<rparr> po)"
      using st(8) [OF True] push by (simp add: push_all_snoc)
    note spec = plan_push_all_spec [OF strs all]
    have "assistant_finish p = (p\<lparr>citations_parser := cit, plan_parser := pl'\<rparr>,
        \<lparr>assistant_visible_text = visible_text po @ visible_text tail, assistant_citations = extracted t,
         plan_segments = extracted po @ extracted tail\<rparr>)"
      using True st(5) fin push tail
      by (auto simp: assistant_finish_def parse_visible_text_def assistant_chunk_default_def stream_chunk_is_empty_def Let_def)
    with spec tail True run cite st(2,4) show ?thesis
      by (simp add: assistant_stream_def assistant_norm_def assistant_spec_def assistant_append_def)
  qed
qed

section \<open>Properties\<close>

text \<open>C12: Whatever the chunking, a client of the assistant parser has seen at the end of the stream the text without
  citations and, in plan mode, without plan blocks, all citations in order, and the plan segments of that text:
  the pipeline of the two streaming parsers computes the composition of their reference definitions.\<close>

theorem assistant_stream_spec:
  assumes "list_all is_str cs"
  shows "assistant_norm (assistant_stream mode cs) = assistant_spec mode (concat cs)"
  using assms by (rule assistant_stream_eq)

theorem assistant_stream_spec_witness:
  "assistant_norm (assistant_stream True [''a<oai-mem-citation>'', ''x</oai-mem-citation>'' @ [LF] @ ''<proposed'',
      ''_plan>'' @ [LF] @ ''b'']) =
   \<lparr>assistant_visible_text = ''a'' @ [LF], assistant_citations = [''x''],
    plan_segments = [PlanNormal (''a'' @ [LF]), ProposedPlanStart, ProposedPlanDelta ''b'', ProposedPlanEnd]\<rparr>"
proof -
  have "list_all is_str [''a<oai-mem-citation>'', ''x</oai-mem-citation>'' @ [LF] @ ''<proposed'',
      ''_plan>'' @ [LF] @ ''b'']" by code_simp
  from assistant_stream_spec [OF this, of True] show ?thesis by code_simp
qed

text \<open>Bytes that are together a valid text may arrive cut anywhere, also inside a character: the byte adapter
  around the citation parser reports no error and gives the citations and visible text of the whole text.\<close>

theorem utf8_citations:
  assumes "is_str (concat cs)"
  shows "\<exists>p out out'.
    feed_bytes citation_push_str (utf8_stream_new citation_new) cs = (p, Ok out) \<and>
    snd (utf8_finish citation_push_str citation_finish p) = Ok out' \<and>
    (visible_text out @ visible_text out', extracted out @ extracted out') = cite_spec (concat cs)"
  using citations.feed_bytes_finish [OF citation_new_invar assms, of citation_finish] citations_of_push [of "concat cs"]
  by (cases "citation_push_str citation_new (concat cs)")
    (fastforce simp: citations.same_output_def citations_of_def)

theorem utf8_citations_witness:
  "\<exists>p out out'.
    feed_bytes citation_push_str (utf8_stream_new citation_new)
      [[CHR 0xC3], [CHR 0xA9] @ ''<oai-mem-citation>x''] = (p, Ok out) \<and>
    snd (utf8_finish citation_push_str citation_finish p) = Ok out' \<and>
    (visible_text out @ visible_text out', extracted out @ extracted out') = ([CHR 0xC3, CHR 0xA9], [''x''])"
proof -
  have "is_str (concat [[CHR 0xC3], [CHR 0xA9] @ ''<oai-mem-citation>x''])" by code_simp
  from utf8_citations [OF this]
  have "\<exists>p out out'.
    feed_bytes citation_push_str (utf8_stream_new citation_new)
      [[CHR 0xC3], [CHR 0xA9] @ ''<oai-mem-citation>x''] = (p, Ok out) \<and>
    snd (utf8_finish citation_push_str citation_finish p) = Ok out' \<and>
    (visible_text out @ visible_text out', extracted out @ extracted out') =
      cite_spec (concat [[CHR 0xC3], [CHR 0xA9] @ ''<oai-mem-citation>x''])" .
  moreover have "cite_spec (concat [[CHR 0xC3], [CHR 0xA9] @ ''<oai-mem-citation>x'']) = ([CHR 0xC3, CHR 0xA9], [''x''])"
    by code_simp
  ultimately show ?thesis by simp
qed

end
