(* ===== verification/Truncation.thy ===== *)
theory Truncation
  imports Stream_Text
begin

text \<open>
  Cutting the middle out of long tool output (utils/string/src/truncate.rs, utils/output-truncation/src/lib.rs and
  \<open>TruncationPolicy\<close> of protocol/src/protocol.rs).  What is shown of a cut text are characters from its two
  ends within the byte budget, around a marker that counts what is missing.
\<close>

section \<open>Token estimates\<close>

definition APPROX_BYTES_PER_TOKEN :: nat where
  "APPROX_BYTES_PER_TOKEN = 4"

definition approx_token_count :: "string \<Rightarrow> nat" where
  "approx_token_count t = saturating_add (length t) (APPROX_BYTES_PER_TOKEN - 1) div APPROX_BYTES_PER_TOKEN"

definition approx_bytes_for_tokens :: "nat \<Rightarrow> nat" where
  "approx_bytes_for_tokens tokens = saturating_mul tokens APPROX_BYTES_PER_TOKEN"

definition approx_tokens_from_byte_count :: "nat \<Rightarrow> nat" where
  "approx_tokens_from_byte_count bytes = saturating_add bytes (APPROX_BYTES_PER_TOKEN - 1) div APPROX_BYTES_PER_TOKEN"

definition approx_tokens_from_byte_count_i64 :: "int \<Rightarrow> int" where
  "approx_tokens_from_byte_count_i64 bytes =
    (if bytes \<le> 0 then 0 else i64_of_usize (approx_tokens_from_byte_count (nat bytes)))"

section \<open>Cutting\<close>

fun char_indices_from :: "nat \<Rightarrow> string list \<Rightarrow> (nat \<times> string) list" where
  "char_indices_from i [] = []"
| "char_indices_from i (c # cs) = (i, c) # char_indices_from (i + length c) cs"

definition char_indices :: "string \<Rightarrow> (nat \<times> string) list" where
  "char_indices s = char_indices_from 0 (utf8_chars s)"

text \<open>\<open>prefix_end\<close>, \<open>suffix_start\<close>, \<open>removed_chars\<close> and \<open>suffix_started\<close> of the loop.\<close>

type_synonym split_state = "nat \<times> nat \<times> nat \<times> bool"

definition split_step :: "nat \<Rightarrow> nat \<Rightarrow> split_state \<Rightarrow> nat \<times> string \<Rightarrow> split_state" where
  "split_step beginning_bytes tail_start_target st ic =
    (case st of (prefix_end, suffix_start, removed_chars, suffix_started) \<Rightarrow>
     case ic of (idx, ch) \<Rightarrow>
       let char_end = idx + length ch in
       if char_end \<le> beginning_bytes then (char_end, suffix_start, removed_chars, suffix_started)
       else if tail_start_target \<le> idx then
         (if \<not> suffix_started then (prefix_end, idx, removed_chars, True) else st)
       else (prefix_end, suffix_start, saturating_add removed_chars 1, suffix_started))"

definition split_string :: "string \<Rightarrow> nat \<Rightarrow> nat \<Rightarrow> nat \<times> string \<times> string" where
  "split_string s beginning_bytes end_bytes =
    (if s = [] then (0, [], [])
     else
       (let len = length s;
            tail_start_target = len - end_bytes;
            (prefix_end, suffix_start, removed_chars, _) =
              foldl (split_step beginning_bytes tail_start_target) (0, len, 0, False) (char_indices s);
            suffix_start = (if suffix_start < prefix_end then prefix_end else suffix_start) in
        (removed_chars, take prefix_end s, drop suffix_start s)))"

definition split_budget :: "nat \<Rightarrow> nat \<times> nat" where
  "split_budget budget = (let left = budget div 2 in (left, budget - left))"

definition ELLIPSIS :: string where
  "ELLIPSIS = [CHR 0xE2, CHR 0x80, CHR 0xA6]"

definition format_truncation_marker :: "bool \<Rightarrow> nat \<Rightarrow> string" where
  "format_truncation_marker use_tokens removed_count =
    (if use_tokens then ELLIPSIS @ show_nat removed_count @ '' tokens truncated'' @ ELLIPSIS
     else ELLIPSIS @ show_nat removed_count @ '' chars truncated'' @ ELLIPSIS)"

definition removed_units :: "bool \<Rightarrow> nat \<Rightarrow> nat \<Rightarrow> nat" where
  "removed_units use_tokens removed_bytes removed_chars =
    (if use_tokens then approx_tokens_from_byte_count removed_bytes else removed_chars)"

definition assemble_truncated_output :: "string \<Rightarrow> string \<Rightarrow> string \<Rightarrow> string" where
  "assemble_truncated_output pre suf marker = pre @ marker @ suf"

definition truncate_with_byte_estimate :: "string \<Rightarrow> nat \<Rightarrow> bool \<Rightarrow> string" where
  "truncate_with_byte_estimate s max_bytes use_tokens =
    (if s = [] then []
     else if max_bytes = 0 then
       format_truncation_marker use_tokens (removed_units use_tokens (length s) (length (utf8_chars s)))
     else if length s \<le> max_bytes then s
     else
       (let (left_budget, right_budget) = split_budget max_bytes;
            (removed_chars, left, right) = split_string s left_budget right_budget;
            marker = format_truncation_marker use_tokens
              (removed_units use_tokens (length s - max_bytes) removed_chars) in
        assemble_truncated_output left right marker))"

definition truncate_middle_chars :: "string \<Rightarrow> nat \<Rightarrow> string" where
  "truncate_middle_chars s max_bytes = truncate_with_byte_estimate s max_bytes False"

definition truncate_middle_with_token_budget :: "string \<Rightarrow> nat \<Rightarrow> string \<times> nat option" where
  "truncate_middle_with_token_budget s max_tokens =
    (if s = [] then ([], None)
     else if max_tokens > 0 \<and> length s \<le> approx_bytes_for_tokens max_tokens then (s, None)
     else
       (let truncated = truncate_with_byte_estimate s (approx_bytes_for_tokens max_tokens) True;
            total_tokens = approx_token_count s in
        if truncated = s then (truncated, None) else (truncated, Some total_tokens)))"

section \<open>Policies\<close>

datatype TruncationPolicy = Bytes nat | Tokens nat

definition token_budget :: "TruncationPolicy \<Rightarrow> nat" where
  "token_budget p = (case p of Bytes bytes \<Rightarrow> approx_tokens_from_byte_count bytes | Tokens tokens \<Rightarrow> tokens)"

definition byte_budget :: "TruncationPolicy \<Rightarrow> nat" where
  "byte_budget p = (case p of Bytes bytes \<Rightarrow> bytes | Tokens tokens \<Rightarrow> approx_bytes_for_tokens tokens)"

text \<open>
  Multiplication by an \<open>f64\<close>.  Positive doubles are dyadic numbers \<open>m / 2^k\<close>; both the conversion of the
  limit and the product are rounded to 53 significant bits, ties to even, and \<open>as usize\<close> saturates.
\<close>

function excess_bits :: "int \<Rightarrow> nat" where
  "excess_bits n = (if n < 0x20000000000000 then 0 else Suc (excess_bits (n div 2)))"
  by pat_completeness auto
termination
  by (relation "measure nat") auto

declare excess_bits.simps [simp del]

definition round53 :: "int \<Rightarrow> int" where
  "round53 n =
    (let u = 2 ^ excess_bits n; q = n div u; r = n mod u in
     if 2 * r > u \<or> (2 * r = u \<and> q mod 2 = 1) then (q + 1) * u else q * u)"

definition f64_mul_ceil :: "int \<times> nat \<Rightarrow> nat \<Rightarrow> nat" where
  "f64_mul_ceil multiplier n =
    (case multiplier of (m, k) \<Rightarrow>
      nat (min (- ((- round53 (round53 (int n) * m)) div 2 ^ k)) 0xFFFFFFFFFFFFFFFF))"

definition policy_mul :: "TruncationPolicy \<Rightarrow> int \<times> nat \<Rightarrow> TruncationPolicy" where
  "policy_mul p multiplier =
    (case p of
       Bytes bytes \<Rightarrow> Bytes (f64_mul_ceil multiplier bytes)
     | Tokens tokens \<Rightarrow> Tokens (f64_mul_ceil multiplier tokens))"

definition truncate_text :: "string \<Rightarrow> TruncationPolicy \<Rightarrow> string" where
  "truncate_text content policy =
    (case policy of
       Bytes bytes \<Rightarrow> truncate_middle_chars content bytes
     | Tokens tokens \<Rightarrow> fst (truncate_middle_with_token_budget content tokens))"

definition formatted_truncate_text :: "string \<Rightarrow> TruncationPolicy \<Rightarrow> string" where
  "formatted_truncate_text content policy =
    (if length content \<le> byte_budget policy then content
     else
       (let total_lines = length (str_lines content);
            result = truncate_text content policy in
        ''Total output lines: '' @ show_nat total_lines @ [LF, LF] @ result))"

section \<open>Content items\<close>

datatype ImageDetail = Auto | Low | High | Original

datatype FunctionCallOutputContentItem =
  OutText string
| OutImage string "ImageDetail option"

fun item_text :: "FunctionCallOutputContentItem \<Rightarrow> string option" where
  "item_text (OutText t) = Some t"
| "item_text (OutImage _ _) = None"

definition is_image :: "FunctionCallOutputContentItem \<Rightarrow> bool" where
  "is_image item = (case item of OutImage _ _ \<Rightarrow> True | OutText _ \<Rightarrow> False)"

definition combine_step :: "string \<Rightarrow> string \<Rightarrow> string" where
  "combine_step combined t = (if combined \<noteq> [] then combined @ [LF] else combined) @ t"

definition formatted_truncate_text_content_items_with_policy ::
  "FunctionCallOutputContentItem list \<Rightarrow> TruncationPolicy \<Rightarrow> FunctionCallOutputContentItem list \<times> nat option" where
  "formatted_truncate_text_content_items_with_policy items policy =
    (let text_segments = List.map_filter item_text items in
     if text_segments = [] then (items, None)
     else
       (let combined = foldl combine_step [] text_segments in
        if length combined \<le> byte_budget policy then (items, None)
        else
          (OutText (formatted_truncate_text combined policy) # filter is_image items,
           Some (approx_token_count combined))))"

text \<open>\<open>out\<close>, \<open>remaining_budget\<close> and \<open>omitted_text_items\<close> of the loop.\<close>

type_synonym items_state = "FunctionCallOutputContentItem list \<times> nat \<times> nat"

definition text_cost :: "TruncationPolicy \<Rightarrow> string \<Rightarrow> nat" where
  "text_cost policy t = (case policy of Bytes _ \<Rightarrow> length t | Tokens _ \<Rightarrow> approx_token_count t)"

definition with_limit :: "TruncationPolicy \<Rightarrow> nat \<Rightarrow> TruncationPolicy" where
  "with_limit policy n = (case policy of Bytes _ \<Rightarrow> Bytes n | Tokens _ \<Rightarrow> Tokens n)"

definition truncate_item :: "TruncationPolicy \<Rightarrow> items_state \<Rightarrow> FunctionCallOutputContentItem \<Rightarrow> items_state" where
  "truncate_item policy st item =
    (case st of (out, remaining_budget, omitted_text_items) \<Rightarrow>
     case item of
       OutText t \<Rightarrow>
         if remaining_budget = 0 then (out, remaining_budget, omitted_text_items + 1)
         else
           (let cost = text_cost policy t in
            if cost \<le> remaining_budget then (out @ [OutText t], remaining_budget - cost, omitted_text_items)
            else
              (let snippet = truncate_text t (with_limit policy remaining_budget) in
               if snippet = [] then (out, 0, omitted_text_items + 1)
               else (out @ [OutText snippet], 0, omitted_text_items)))
     | OutImage url detail \<Rightarrow> (out @ [OutImage url detail], remaining_budget, omitted_text_items))"

definition truncate_function_output_items_with_policy ::
  "FunctionCallOutputContentItem list \<Rightarrow> TruncationPolicy \<Rightarrow> FunctionCallOutputContentItem list" where
  "truncate_function_output_items_with_policy items policy =
    (let budget = (case policy of Bytes _ \<Rightarrow> byte_budget policy | Tokens _ \<Rightarrow> token_budget policy);
         (out, _, omitted_text_items) = foldl (truncate_item policy) ([], budget, 0) items in
     if omitted_text_items > 0
     then out @ [OutText (''[omitted '' @ show_nat omitted_text_items @ '' text items ...]'')]
     else out)"

section \<open>What is kept\<close>

lemma split_step_simps:
  "split_step b t (p, ss, r, st) (i, c) =
    (if i + length c \<le> b then (i + length c, ss, r, st)
     else if t \<le> i then (if \<not> st then (p, i, r, True) else (p, ss, r, st))
     else (p, ss, saturating_add r 1, st))"
  by (simp add: split_step_def Let_def)

lemma split_fold_started:
  "b \<le> i \<Longrightarrow> t \<le> i \<Longrightarrow> \<forall>c\<in>set cs. c \<noteq> [] \<Longrightarrow>
   foldl (split_step b t) (p, ss, r, True) (char_indices_from i cs) = (p, ss, r, True)"
proof (induction cs arbitrary: i)
  case (Cons c cs)
  then show ?case by (cases c) (simp_all add: split_step_simps)
qed simp

lemma split_fold_middle:
  assumes "cs = [] \<or> b < i + length (hd cs)" "\<forall>c\<in>set cs. c \<noteq> []" "r + length cs \<le> usize_max"
    and "foldl (split_step b t) (p, i + length (concat cs), r, False) (char_indices_from i cs) = (p', ss, r', st)"
  shows "\<exists>mid suf. cs = mid @ suf \<and> p' = p \<and> ss = i + length (concat mid) \<and> r' = r + length mid \<and>
    (suf \<noteq> [] \<longrightarrow> t \<le> ss) \<and> (mid \<noteq> [] \<longrightarrow> ss < t + length (last mid))"
  using assms
proof (induction cs arbitrary: i r)
  case Nil
  then show ?case by simp
next
  case (Cons c cs)
  have c: "b < i + length c" "c \<noteq> []" using Cons.prems by auto
  show ?case
  proof (cases "t \<le> i")
    case True
    then have "foldl (split_step b t) (p, i, r, True) (char_indices_from (i + length c) cs) = (p', ss, r', st)"
      using Cons.prems c by (simp add: split_step_simps)
    then have "p' = p \<and> ss = i \<and> r' = r"
      using split_fold_started [of b "i + length c" t cs p i r] True c Cons.prems(2) by simp
    with True show ?thesis by (intro exI [of _ "[]"] exI [of _ "c # cs"]) simp
  next
    case False
    then have "foldl (split_step b t) (p, (i + length c) + length (concat cs), r + 1, False)
        (char_indices_from (i + length c) cs) = (p', ss, r', st)"
      using Cons.prems c by (simp add: split_step_simps add.assoc)
    from Cons.IH [OF _ _ _ this] Cons.prems c obtain mid suf where
      "cs = mid @ suf" "p' = p" "ss = i + length c + length (concat mid)" "r' = r + 1 + length mid"
      "suf \<noteq> [] \<longrightarrow> t \<le> ss" "mid \<noteq> [] \<longrightarrow> ss < t + length (last mid)"
      by (cases cs) auto
    with False c show ?thesis by (intro exI [of _ "c # mid"] exI [of _ suf]) auto
  qed
qed

lemma split_fold:
  assumes "\<forall>c\<in>set cs. c \<noteq> []" "length cs \<le> usize_max"
    and "foldl (split_step b t) (i, i + length (concat cs), 0, False) (char_indices_from i cs) = (p', ss, r', st)"
  shows "\<exists>pre mid suf. cs = pre @ mid @ suf \<and> p' = i + length (concat pre) \<and>
    ss = i + length (concat pre) + length (concat mid) \<and> r' = length mid \<and>
    (pre \<noteq> [] \<longrightarrow> p' \<le> b) \<and> (mid @ suf \<noteq> [] \<longrightarrow> b < p' + length (hd (mid @ suf))) \<and>
    (suf \<noteq> [] \<longrightarrow> t \<le> ss) \<and> (mid \<noteq> [] \<longrightarrow> ss < t + length (last mid))"
  using assms
proof (induction cs arbitrary: i)
  case Nil
  then show ?case by simp
next
  case (Cons c cs)
  show ?case
  proof (cases "i + length c \<le> b")
    case True
    then have "foldl (split_step b t) (i + length c, (i + length c) + length (concat cs), 0, False)
        (char_indices_from (i + length c) cs) = (p', ss, r', st)"
      using Cons.prems by (simp add: split_step_simps add.assoc)
    from Cons.IH [OF _ _ this] Cons.prems obtain pre mid suf where
      "cs = pre @ mid @ suf" "p' = i + length c + length (concat pre)"
      "ss = i + length c + length (concat pre) + length (concat mid)" "r' = length mid"
      "pre \<noteq> [] \<longrightarrow> p' \<le> b" "mid @ suf \<noteq> [] \<longrightarrow> b < p' + length (hd (mid @ suf))"
      "suf \<noteq> [] \<longrightarrow> t \<le> ss" "mid \<noteq> [] \<longrightarrow> ss < t + length (last mid)"
      by auto
    with True show ?thesis
      by (intro exI [of _ "c # pre"] exI [of _ mid] exI [of _ suf]) (cases "pre = []"; simp)
  next
    case False
    then obtain mid suf where "c # cs = mid @ suf" "p' = i" "ss = i + length (concat mid)" "r' = length mid"
      "suf \<noteq> [] \<longrightarrow> t \<le> ss" "mid \<noteq> [] \<longrightarrow> ss < t + length (last mid)"
      using split_fold_middle [OF _ Cons.prems(1) _ Cons.prems(3)] Cons.prems(2) by auto
    with False show ?thesis
      by (intro exI [of _ "[]"] exI [of _ mid] exI [of _ suf])
        (auto simp flip: \<open>c # cs = mid @ suf\<close>)
  qed
qed

lemma nonempty_concat_length: "\<forall>c\<in>set xs. c \<noteq> [] \<Longrightarrow> length xs \<le> length (concat xs)"
proof (induction xs)
  case (Cons x xs)
  then show ?case by (cases x) auto
qed simp

text \<open>The characters of a text fall into a beginning, a middle and an end.  The two ends fit their budgets and no
  further character would; the middle is counted.\<close>

lemma split_string_parts:
  assumes "length s \<le> usize_max" "e \<le> length s" "split_string s b e = (removed, left, right)"
  obtains pre mid suf where "utf8_chars s = pre @ mid @ suf" "left = concat pre" "right = concat suf"
    "removed = length mid" "length left \<le> b" "length right \<le> e"
    "mid @ suf \<noteq> [] \<Longrightarrow> b < length left + length (hd (mid @ suf))"
    "mid \<noteq> [] \<Longrightarrow> e < length right + length (last mid)"
proof (cases "s = []")
  case True
  with assms(3) show ?thesis by (intro that [of "[]" "[]" "[]"]) (simp_all add: split_string_def)
next
  case False
  let ?t = "length s - e" and ?cs = "utf8_chars s"
  have len: "length (concat ?cs) = length s" by simp
  have bound: "length ?cs \<le> usize_max"
    using nonempty_concat_length [of ?cs] len assms(1) utf8_chars_nonempty [of _ s] by auto
  obtain p ss r st where f: "foldl (split_step b ?t) (0, length s, 0, False) (char_indices s) = (p, ss, r, st)"
    by (metis prod_cases4)
  with split_fold [of ?cs b ?t 0] bound utf8_chars_nonempty obtain pre mid suf where
    parts: "?cs = pre @ mid @ suf" and p: "p = length (concat pre)" and ss: "ss = length (concat pre) + length (concat mid)"
    and r: "r = length mid" and fits: "pre \<noteq> [] \<longrightarrow> p \<le> b" "mid @ suf \<noteq> [] \<longrightarrow> b < p + length (hd (mid @ suf))"
    and tail: "suf \<noteq> [] \<longrightarrow> ?t \<le> ss" "mid \<noteq> [] \<longrightarrow> ss < ?t + length (last mid)"
    by (auto simp: char_indices_def len)
  have s: "s = concat pre @ concat mid @ concat suf" using parts by (metis concat_append concat_utf8_chars)
  have res: "removed = r" "left = concat pre" "right = concat suf"
    using assms(3) False f p ss unfolding split_string_def by (simp_all, simp_all add: s)
  have lens: "length s = ss + length (concat suf)" using s ss by (metis add.assoc length_append)
  show ?thesis
  proof (rule that [OF parts res(2,3)])
    show "removed = length mid" using res r by simp
    show "length left \<le> b" using res p fits by (cases "pre = []") auto
    show "length right \<le> e" using res tail(1) lens by (cases "suf = []") auto
    show "b < length left + length (hd (mid @ suf))" if "mid @ suf \<noteq> []" using that fits(2) res p by simp
    show "e < length right + length (last mid)" if "mid \<noteq> []" using that tail(2) lens res assms(2) by simp
  qed
qed

lemma truncate_parts:
  assumes "length s \<le> usize_max" "0 < n" "n < length s"
  obtains pre mid suf where "utf8_chars s = pre @ mid @ suf"
    "length (concat pre) \<le> n div 2" "length (concat suf) \<le> n - n div 2"
    "truncate_with_byte_estimate s n use_tokens =
      concat pre @ format_truncation_marker use_tokens (removed_units use_tokens (length s - n) (length mid)) @ concat suf"
    "mid @ suf \<noteq> [] \<Longrightarrow> n div 2 < length (concat pre) + length (hd (mid @ suf))"
    "mid \<noteq> [] \<Longrightarrow> n - n div 2 < length (concat suf) + length (last mid)"
proof -
  obtain removed left right where sp: "split_string s (n div 2) (n - n div 2) = (removed, left, right)"
    by (metis prod_cases3)
  have "n - n div 2 \<le> length s" using assms(3) by simp
  from split_string_parts [OF assms(1) this sp] obtain pre mid suf where
    "utf8_chars s = pre @ mid @ suf" "left = concat pre" "right = concat suf" "removed = length mid"
    "length left \<le> n div 2" "length right \<le> n - n div 2"
    "mid @ suf \<noteq> [] \<Longrightarrow> n div 2 < length left + length (hd (mid @ suf))"
    "mid \<noteq> [] \<Longrightarrow> n - n div 2 < length right + length (last mid)" by metis
  moreover have "s \<noteq> []" using assms by auto
  ultimately show ?thesis
    using assms sp by (intro that [of pre mid suf])
      (simp_all add: truncate_with_byte_estimate_def split_budget_def Let_def assemble_truncated_output_def)
qed

lemma is_str_marker: "is_str (format_truncation_marker use_tokens n)"
proof -
  have digits: "list_all is_ascii (show_nat k)" for k
  proof (induction k rule: show_nat.induct)
    case (1 k)
    have "is_ascii (digit_char d)" if "d < 10" for d
      using that by (auto simp: digit_char_def is_ascii_def)
    with 1 show ?case by (subst show_nat.simps) simp
  qed
  have ell: "is_str ELLIPSIS" by (simp add: ELLIPSIS_def is_str_def) code_simp
  have "is_str '' tokens truncated''" "is_str '' chars truncated''" by (rule is_str_ascii; simp add: is_ascii_def)+
  with ell is_str_ascii [OF digits [of n]] show ?thesis
    unfolding format_truncation_marker_def by (simp only: if_split) (intro conjI impI is_str_appendI)
qed

lemma truncate_is_str:
  assumes "is_str s" "length s \<le> usize_max"
  shows "is_str (truncate_with_byte_estimate s n use_tokens)"
proof (cases "0 < n \<and> n < length s")
  case True
  then obtain pre mid suf where p: "utf8_chars s = pre @ mid @ suf"
    "truncate_with_byte_estimate s n use_tokens =
      concat pre @ format_truncation_marker use_tokens (removed_units use_tokens (length s - n) (length mid)) @ concat suf"
    using truncate_parts [OF assms(2)] by metis
  have "is_str (concat pre)" "is_str (concat suf)"
    using is_str_take_chars [OF assms(1), of pre "mid @ suf"] is_str_take_chars [OF assms(1), of "pre @ mid" suf] p(1)
    by auto
  with p(2) is_str_marker show ?thesis by (simp add: is_str_append)
next
  case False
  with assms is_str_marker show ?thesis
    by (auto simp: truncate_with_byte_estimate_def is_str_def)
qed

lemma truncate_unchanged: "length s \<le> n \<Longrightarrow> 0 < n \<Longrightarrow> truncate_with_byte_estimate s n use_tokens = s"
  by (auto simp: truncate_with_byte_estimate_def)

section \<open>Content items under a budget\<close>

definition total_cost :: "TruncationPolicy \<Rightarrow> FunctionCallOutputContentItem list \<Rightarrow> nat" where
  "total_cost policy items = sum_list (map (text_cost policy) (List.map_filter item_text items))"

definition items_budget :: "TruncationPolicy \<Rightarrow> nat" where
  "items_budget policy = (case policy of Bytes _ \<Rightarrow> byte_budget policy | Tokens _ \<Rightarrow> token_budget policy)"

lemma map_filter_item_text [simp]:
  "List.map_filter item_text [] = []"
  "List.map_filter item_text (OutText t # items) = t # List.map_filter item_text items"
  "List.map_filter item_text (OutImage u d # items) = List.map_filter item_text items"
  by (simp_all add: List.map_filter_def)

lemma truncate_item_images:
  "truncate_item policy (out, rem, om) item = (out', rem', om') \<Longrightarrow>
   filter is_image out' = filter is_image out @ filter is_image [item]"
  by (auto simp: truncate_item_def is_image_def Let_def split: FunctionCallOutputContentItem.splits if_splits)

lemma truncate_items_images:
  "foldl (truncate_item policy) (out, rem, om) items = (out', rem', om') \<Longrightarrow>
   filter is_image out' = filter is_image out @ filter is_image items"
proof (induction items arbitrary: out rem om)
  case (Cons item items)
  obtain o1 r1 m1 where 1: "truncate_item policy (out, rem, om) item = (o1, r1, m1)" by (metis prod_cases3)
  with Cons.IH [of o1 r1 m1] Cons.prems truncate_item_images [OF 1] show ?case by auto
qed simp

lemma text_cost_pos: "t \<noteq> [] \<Longrightarrow> 0 < text_cost policy t"
proof -
  assume t: "t \<noteq> []"
  have "4 \<le> saturating_add (length t) 3"
    using t by (cases t) (simp_all add: saturating_add_def usize_max_def)
  with t show ?thesis
    by (cases policy) (simp_all add: text_cost_def approx_token_count_def APPROX_BYTES_PER_TOKEN_def div_greater_zero_iff)
qed

lemma truncate_items_fit:
  "list_all (\<lambda>t. t \<noteq> []) (List.map_filter item_text items) \<Longrightarrow> total_cost policy items \<le> rem \<Longrightarrow>
   foldl (truncate_item policy) (out, rem, 0) items = (out @ items, rem - total_cost policy items, 0)"
proof (induction items arbitrary: out rem)
  case (Cons item items)
  show ?case
  proof (cases item)
    case (OutText t)
    with Cons.prems have t: "t \<noteq> []" "text_cost policy t + total_cost policy items \<le> rem"
      by (simp_all add: total_cost_def)
    then have "truncate_item policy (out, rem, 0) item = (out @ [item], rem - text_cost policy t, 0)"
      using OutText text_cost_pos [of t policy] by (simp add: truncate_item_def)
    with Cons.IH [of "rem - text_cost policy t" "out @ [item]"] Cons.prems OutText t show ?thesis
      by (simp add: total_cost_def)
  next
    case (OutImage u d)
    with Cons.IH [of rem "out @ [item]"] Cons.prems show ?thesis by (simp add: truncate_item_def total_cost_def)
  qed
qed (simp add: total_cost_def)

section \<open>Properties\<close>

text \<open>C19: A text longer than its byte budget is shown as a beginning and an end of whole characters around a marker.
  The two ends fit half the budget each, no further character would fit either of them, the characters between them
  are counted by the marker, and the result is again valid UTF-8.\<close>

theorem truncate_middle_chars_spec:
  assumes "is_str s" "length s \<le> usize_max" "0 < n" "n < length s"
  shows "\<exists>pre mid suf. utf8_chars s = pre @ mid @ suf \<and>
    truncate_middle_chars s n = concat pre @ format_truncation_marker False (length mid) @ concat suf \<and>
    length (concat pre) \<le> n div 2 \<and> length (concat suf) \<le> n - n div 2 \<and>
    (mid @ suf = [] \<or> n div 2 < length (concat pre) + length (hd (mid @ suf))) \<and>
    (mid = [] \<or> n - n div 2 < length (concat suf) + length (last mid)) \<and>
    is_str (truncate_middle_chars s n)"
proof -
  obtain pre mid suf where "utf8_chars s = pre @ mid @ suf"
    "length (concat pre) \<le> n div 2" "length (concat suf) \<le> n - n div 2"
    "truncate_with_byte_estimate s n False =
      concat pre @ format_truncation_marker False (removed_units False (length s - n) (length mid)) @ concat suf"
    "mid @ suf \<noteq> [] \<Longrightarrow> n div 2 < length (concat pre) + length (hd (mid @ suf))"
    "mid \<noteq> [] \<Longrightarrow> n - n div 2 < length (concat suf) + length (last mid)"
    using truncate_parts [OF assms(2-4), of False] by metis
  with truncate_is_str [OF assms(1,2), of n False] show ?thesis
    by (intro exI [of _ pre] exI [of _ mid] exI [of _ suf]) (auto simp: truncate_middle_chars_def removed_units_def)
qed

theorem truncate_middle_chars_spec_witness:
  "is_str (truncate_middle_chars ''abcdefgh'' 4) \<and>
   truncate_middle_chars ''abcdefgh'' 4 = ''ab'' @ ELLIPSIS @ ''4 chars truncated'' @ ELLIPSIS @ ''gh''"
proof -
  have "is_str ''abcdefgh''" by code_simp
  moreover have "truncate_middle_chars ''abcdefgh'' 4 = ''ab'' @ ELLIPSIS @ ''4 chars truncated'' @ ELLIPSIS @ ''gh''"
    by code_simp
  ultimately show ?thesis
    using truncate_middle_chars_spec [of "''abcdefgh''" 4] by (auto simp: usize_max_def)
qed

text \<open>Truncating content items keeps every image in order, and changes nothing when the texts, none of them empty,
  fit the budget together.\<close>

theorem truncate_items_spec:
  "filter is_image (truncate_function_output_items_with_policy items policy) = filter is_image items \<and>
   (list_all (\<lambda>t. t \<noteq> []) (List.map_filter item_text items) \<and> total_cost policy items \<le> items_budget policy \<longrightarrow>
    truncate_function_output_items_with_policy items policy = items)"
proof -
  obtain out rem om where f: "foldl (truncate_item policy) ([], items_budget policy, 0) items = (out, rem, om)"
    by (metis prod_cases3)
  then have "truncate_function_output_items_with_policy items policy =
      (if om > 0 then out @ [OutText (''[omitted '' @ show_nat om @ '' text items ...]'')] else out)"
    by (simp add: truncate_function_output_items_with_policy_def items_budget_def)
  with truncate_items_images [OF f] truncate_items_fit [of items policy "items_budget policy" "[]"] f
  show ?thesis by (auto simp: is_image_def)
qed

theorem truncate_items_spec_witness:
  "truncate_function_output_items_with_policy [OutText ''ab'', OutImage ''u'' None] (Bytes 3) =
    [OutText ''ab'', OutImage ''u'' None]"
  using truncate_items_spec [of "[OutText ''ab'', OutImage ''u'' None]" "Bytes 3"]
  by (simp add: total_cost_def text_cost_def items_budget_def byte_budget_def)

end
