(* ===== verification/Response_Item.thy ===== *)
theory Response_Item
  imports Truncation
begin

text \<open>
  The items of a conversation (protocol/src/models.rs) and its token accounting (protocol/src/protocol.rs).
  JSON values, whose type belongs to another library, are a type parameter.
\<close>

section \<open>Items\<close>

datatype ContentItem =
  InputText string
| InputImage string "ImageDetail option"
| OutputText string

datatype MessagePhase = Commentary | FinalAnswer

datatype LocalShellStatus = Completed | InProgress | Incomplete

record LocalShellExecAction =
  shell_command :: "string list"
  shell_timeout_ms :: "nat option"
  shell_working_directory :: "string option"
  shell_env :: "(string \<times> string) list option"
  shell_user :: "string option"

datatype LocalShellAction = Exec LocalShellExecAction

datatype WebSearchAction =
  Search "string option" "string list option"
| OpenPage "string option"
| FindInPage "string option" "string option"
| OtherAction

datatype ReasoningItemReasoningSummary = SummaryText string

datatype ReasoningItemContent = ReasoningText string | PlainText string

datatype FunctionCallOutputBody =
  BodyText string
| ContentItems "FunctionCallOutputContentItem list"

record FunctionCallOutputPayload =
  payload_body :: FunctionCallOutputBody
  payload_success :: "bool option"

text \<open>The fields are in the order of the source.\<close>

datatype 'j ResponseItem =
  Message "string option" string "ContentItem list" "MessagePhase option"
| Reasoning string "ReasoningItemReasoningSummary list" "ReasoningItemContent list option" "string option"
| LocalShellCall "string option" "string option" LocalShellStatus LocalShellAction
| FunctionCall "string option" string "string option" string string
| ToolSearchCall "string option" "string option" "string option" string 'j
| FunctionCallOutput string FunctionCallOutputPayload
| CustomToolCall "string option" "string option" string string string
| CustomToolCallOutput string "string option" FunctionCallOutputPayload
| ToolSearchOutput "string option" string string "'j list"
| WebSearchCall "string option" "string option" "WebSearchAction option"
| ImageGenerationCall string string "string option" string
| Compaction string
| ContextCompaction "string option"
| OtherItem

section \<open>Payloads\<close>

definition payload_from_text :: "string \<Rightarrow> FunctionCallOutputPayload" where
  "payload_from_text content = \<lparr>payload_body = BodyText content, payload_success = None\<rparr>"

definition payload_from_content_items :: "FunctionCallOutputContentItem list \<Rightarrow> FunctionCallOutputPayload" where
  "payload_from_content_items items = \<lparr>payload_body = ContentItems items, payload_success = None\<rparr>"

definition text_content :: "FunctionCallOutputPayload \<Rightarrow> string option" where
  "text_content p = (case payload_body p of BodyText content \<Rightarrow> Some content | ContentItems _ \<Rightarrow> None)"

definition content_items :: "FunctionCallOutputPayload \<Rightarrow> FunctionCallOutputContentItem list option" where
  "content_items p = (case payload_body p of BodyText _ \<Rightarrow> None | ContentItems items \<Rightarrow> Some items)"

text \<open>An update through \<open>content_items_mut\<close>.\<close>

definition map_content_items ::
  "(FunctionCallOutputContentItem list \<Rightarrow> FunctionCallOutputContentItem list) \<Rightarrow>
   FunctionCallOutputPayload \<Rightarrow> FunctionCallOutputPayload" where
  "map_content_items f p =
    (case payload_body p of BodyText _ \<Rightarrow> p | ContentItems items \<Rightarrow> p\<lparr>payload_body := ContentItems (f items)\<rparr>)"

definition function_call_output_content_items_to_text :: "FunctionCallOutputContentItem list \<Rightarrow> string option" where
  "function_call_output_content_items_to_text items =
    (let text_segments = List.map_filter (\<lambda>item.
         case item of
           OutText t \<Rightarrow> if trim t \<noteq> [] then Some t else None
         | OutImage _ _ \<Rightarrow> None) items in
     if text_segments = [] then None else Some (join_with [LF] text_segments))"

definition body_to_text :: "FunctionCallOutputBody \<Rightarrow> string option" where
  "body_to_text b =
    (case b of
       BodyText content \<Rightarrow> Some content
     | ContentItems items \<Rightarrow> function_call_output_content_items_to_text items)"

section \<open>Token accounting\<close>

text \<open>The counters are \<open>i64\<close>; plain arithmetic on them wraps around in builds without overflow checks.\<close>

definition i64_wrap :: "int \<Rightarrow> int" where
  "i64_wrap x = (x + 0x8000000000000000) mod 0x10000000000000000 - 0x8000000000000000"

record TokenUsage =
  input_tokens :: int
  cached_input_tokens :: int
  output_tokens :: int
  reasoning_output_tokens :: int
  total_tokens :: int

definition token_usage_default :: TokenUsage where
  "token_usage_default =
    \<lparr>input_tokens = 0, cached_input_tokens = 0, output_tokens = 0, reasoning_output_tokens = 0, total_tokens = 0\<rparr>"

definition usage_is_zero :: "TokenUsage \<Rightarrow> bool" where
  "usage_is_zero u \<longleftrightarrow> total_tokens u = 0"

definition cached_input :: "TokenUsage \<Rightarrow> int" where
  "cached_input u = max (cached_input_tokens u) 0"

definition non_cached_input :: "TokenUsage \<Rightarrow> int" where
  "non_cached_input u = max (i64_wrap (input_tokens u - cached_input u)) 0"

definition blended_total :: "TokenUsage \<Rightarrow> int" where
  "blended_total u = max (i64_wrap (non_cached_input u + max (output_tokens u) 0)) 0"

definition add_assign :: "TokenUsage \<Rightarrow> TokenUsage \<Rightarrow> TokenUsage" where
  "add_assign u other =
    \<lparr>input_tokens = i64_wrap (input_tokens u + input_tokens other),
     cached_input_tokens = i64_wrap (cached_input_tokens u + cached_input_tokens other),
     output_tokens = i64_wrap (output_tokens u + output_tokens other),
     reasoning_output_tokens = i64_wrap (reasoning_output_tokens u + reasoning_output_tokens other),
     total_tokens = i64_wrap (total_tokens u + total_tokens other)\<rparr>"

record TokenUsageInfo =
  total_token_usage :: TokenUsage
  last_token_usage :: TokenUsage
  model_context_window :: "int option"

definition append_last_usage :: "TokenUsageInfo \<Rightarrow> TokenUsage \<Rightarrow> TokenUsageInfo" where
  "append_last_usage info usage =
    info\<lparr>total_token_usage := add_assign (total_token_usage info) usage, last_token_usage := usage\<rparr>"

definition new_or_append ::
  "TokenUsageInfo option \<Rightarrow> TokenUsage option \<Rightarrow> int option \<Rightarrow> TokenUsageInfo option" where
  "new_or_append info usage window =
    (if info = None \<and> usage = None then None
     else
       (let info = (case info of
              Some info \<Rightarrow> info
            | None \<Rightarrow> \<lparr>total_token_usage = token_usage_default, last_token_usage = token_usage_default,
                       model_context_window = window\<rparr>);
            info = (case usage of Some usage \<Rightarrow> append_last_usage info usage | None \<Rightarrow> info);
            info = (case window of Some w \<Rightarrow> info\<lparr>model_context_window := Some w\<rparr> | None \<Rightarrow> info) in
        Some info))"

definition fill_to_context_window :: "TokenUsageInfo \<Rightarrow> int \<Rightarrow> TokenUsageInfo" where
  "fill_to_context_window info context_window =
    (let previous_total = total_tokens (total_token_usage info);
         delta = max (i64_wrap (context_window - previous_total)) 0 in
     info\<lparr>model_context_window := Some context_window,
          total_token_usage := token_usage_default\<lparr>total_tokens := context_window\<rparr>,
          last_token_usage := token_usage_default\<lparr>total_tokens := delta\<rparr>\<rparr>)"

definition full_context_window :: "int \<Rightarrow> TokenUsageInfo" where
  "full_context_window context_window =
    fill_to_context_window
      \<lparr>total_token_usage = token_usage_default, last_token_usage = token_usage_default,
       model_context_window = Some context_window\<rparr> context_window"

definition is_i64 :: "int \<Rightarrow> bool" where
  "is_i64 x \<longleftrightarrow> i64_min \<le> x \<and> x \<le> i64_max"

lemma i64_wrap_id: "is_i64 x \<Longrightarrow> i64_wrap x = x"
  by (simp add: is_i64_def i64_wrap_def i64_min_def i64_max_def)

lemma i64_wrap_range: "is_i64 (i64_wrap x)"
proof -
  have "0 \<le> (x + 0x8000000000000000) mod 0x10000000000000000"
    "(x + 0x8000000000000000) mod 0x10000000000000000 < 0x10000000000000000"
    by simp_all
  then show ?thesis by (simp add: is_i64_def i64_wrap_def i64_min_def i64_max_def)
qed

end
