(* ===== verification/Context_Normalize.thy ===== *)
theory Context_Normalize
  imports Response_Item "HOL-Library.Multiset"
begin

text \<open>
  The invariants between tool calls and their outputs (core/src/context_manager/normalize.rs).  A complaint through
  \<open>error_or_panic\<close> (core/src/util.rs) is a panic in debug builds and a log line otherwise: the flag \<open>debug\<close> says
  which, and a panic is \<open>None\<close>.
\<close>

section \<open>Missing outputs\<close>

definition is_function_output :: "string \<Rightarrow> 'j ResponseItem \<Rightarrow> bool" where
  "is_function_output cid i = (case i of FunctionCallOutput existing _ \<Rightarrow> existing = cid | _ \<Rightarrow> False)"

definition is_tool_search_output :: "string \<Rightarrow> 'j ResponseItem \<Rightarrow> bool" where
  "is_tool_search_output cid i = (case i of ToolSearchOutput (Some existing) _ _ _ \<Rightarrow> existing = cid | _ \<Rightarrow> False)"

definition is_custom_output :: "string \<Rightarrow> 'j ResponseItem \<Rightarrow> bool" where
  "is_custom_output cid i = (case i of CustomToolCallOutput existing _ _ \<Rightarrow> existing = cid | _ \<Rightarrow> False)"

definition aborted :: FunctionCallOutputPayload where
  "aborted = payload_from_text ''aborted''"

text \<open>The output to add for a call that has none, and whether its absence is an error.\<close>

definition missing_output :: "'j ResponseItem list \<Rightarrow> 'j ResponseItem \<Rightarrow> (bool \<times> 'j ResponseItem) option" where
  "missing_output items item =
    (case item of
       FunctionCall _ _ _ _ cid \<Rightarrow>
         if list_ex (is_function_output cid) items then None else Some (False, FunctionCallOutput cid aborted)
     | ToolSearchCall _ (Some cid) _ _ _ \<Rightarrow>
         if list_ex (is_tool_search_output cid) items then None
         else Some (False, ToolSearchOutput (Some cid) ''completed'' ''client'' [])
     | CustomToolCall _ _ cid _ _ \<Rightarrow>
         if list_ex (is_custom_output cid) items then None else Some (True, CustomToolCallOutput cid None aborted)
     | LocalShellCall _ (Some cid) _ _ \<Rightarrow>
         if list_ex (is_function_output cid) items then None else Some (True, FunctionCallOutput cid aborted)
     | _ \<Rightarrow> None)"

fun collect_missing ::
  "bool \<Rightarrow> 'j ResponseItem list \<Rightarrow> nat \<Rightarrow> 'j ResponseItem list \<Rightarrow> (nat \<times> 'j ResponseItem) list option" where
  "collect_missing debug items idx [] = Some []"
| "collect_missing debug items idx (item # rest) =
    (case missing_output items item of
       None \<Rightarrow> collect_missing debug items (Suc idx) rest
     | Some (is_error, out) \<Rightarrow>
        if is_error \<and> debug then None
        else map_option ((#) (idx, out)) (collect_missing debug items (Suc idx) rest))"

fun insert_outputs :: "(nat \<times> 'j ResponseItem) list \<Rightarrow> 'j ResponseItem list \<Rightarrow> 'j ResponseItem list option" where
  "insert_outputs [] items = Some items"
| "insert_outputs ((idx, out) # rest) items =
    (case vec_insert (idx + 1) out items of None \<Rightarrow> None | Some items \<Rightarrow> insert_outputs rest items)"

definition ensure_call_outputs_present :: "bool \<Rightarrow> 'j ResponseItem list \<Rightarrow> 'j ResponseItem list option" where
  "ensure_call_outputs_present debug items =
    (case collect_missing debug items 0 items of
       None \<Rightarrow> None
     | Some missing \<Rightarrow> insert_outputs (rev missing) items)"

section \<open>Orphan outputs\<close>

definition function_call_ids :: "'j ResponseItem list \<Rightarrow> string list" where
  "function_call_ids items = List.map_filter (\<lambda>i. case i of FunctionCall _ _ _ _ cid \<Rightarrow> Some cid | _ \<Rightarrow> None) items"

definition tool_search_call_ids :: "'j ResponseItem list \<Rightarrow> string list" where
  "tool_search_call_ids items = List.map_filter (\<lambda>i. case i of ToolSearchCall _ cid _ _ _ \<Rightarrow> cid | _ \<Rightarrow> None) items"

definition local_shell_call_ids :: "'j ResponseItem list \<Rightarrow> string list" where
  "local_shell_call_ids items = List.map_filter (\<lambda>i. case i of LocalShellCall _ cid _ _ \<Rightarrow> cid | _ \<Rightarrow> None) items"

definition custom_tool_call_ids :: "'j ResponseItem list \<Rightarrow> string list" where
  "custom_tool_call_ids items = List.map_filter (\<lambda>i. case i of CustomToolCall _ _ cid _ _ \<Rightarrow> Some cid | _ \<Rightarrow> None) items"

definition has_match :: "'j ResponseItem list \<Rightarrow> 'j ResponseItem \<Rightarrow> bool" where
  "has_match items item =
    (case item of
       FunctionCallOutput cid _ \<Rightarrow> cid \<in> set (function_call_ids items) \<or> cid \<in> set (local_shell_call_ids items)
     | CustomToolCallOutput cid _ _ \<Rightarrow> cid \<in> set (custom_tool_call_ids items)
     | ToolSearchOutput cid _ execution _ \<Rightarrow>
         if execution = ''server'' then True
         else (case cid of Some cid \<Rightarrow> cid \<in> set (tool_search_call_ids items) | None \<Rightarrow> True)
     | _ \<Rightarrow> True)"

definition remove_orphan_outputs :: "bool \<Rightarrow> 'j ResponseItem list \<Rightarrow> 'j ResponseItem list option" where
  "remove_orphan_outputs debug items =
    (if debug \<and> list_ex (\<lambda>item. \<not> has_match items item) items then None
     else Some (filter (has_match items) items))"

section \<open>Removing the other half\<close>

definition remove_first_matching :: "('a \<Rightarrow> bool) \<Rightarrow> 'a list \<Rightarrow> 'a list" where
  "remove_first_matching P items =
    (case position P items of Some pos \<Rightarrow> vec_remove pos items | None \<Rightarrow> items)"

definition is_function_call :: "string \<Rightarrow> 'j ResponseItem \<Rightarrow> bool" where
  "is_function_call cid i = (case i of FunctionCall _ _ _ _ existing \<Rightarrow> existing = cid | _ \<Rightarrow> False)"

definition is_local_shell_call :: "string \<Rightarrow> 'j ResponseItem \<Rightarrow> bool" where
  "is_local_shell_call cid i = (case i of LocalShellCall _ (Some existing) _ _ \<Rightarrow> existing = cid | _ \<Rightarrow> False)"

definition is_tool_search_call :: "string \<Rightarrow> 'j ResponseItem \<Rightarrow> bool" where
  "is_tool_search_call cid i = (case i of ToolSearchCall _ (Some existing) _ _ _ \<Rightarrow> existing = cid | _ \<Rightarrow> False)"

definition is_custom_call :: "string \<Rightarrow> 'j ResponseItem \<Rightarrow> bool" where
  "is_custom_call cid i = (case i of CustomToolCall _ _ existing _ _ \<Rightarrow> existing = cid | _ \<Rightarrow> False)"

definition remove_corresponding_for :: "'j ResponseItem list \<Rightarrow> 'j ResponseItem \<Rightarrow> 'j ResponseItem list" where
  "remove_corresponding_for items item =
    (case item of
       FunctionCall _ _ _ _ cid \<Rightarrow> remove_first_matching (is_function_output cid) items
     | FunctionCallOutput cid _ \<Rightarrow>
         (case position (is_function_call cid) items of
            Some pos \<Rightarrow> vec_remove pos items
          | None \<Rightarrow>
             (case position (is_local_shell_call cid) items of
                Some pos \<Rightarrow> vec_remove pos items
              | None \<Rightarrow> items))
     | ToolSearchCall _ (Some cid) _ _ _ \<Rightarrow> remove_first_matching (is_tool_search_output cid) items
     | ToolSearchOutput (Some cid) _ _ _ \<Rightarrow> remove_first_matching (is_tool_search_call cid) items
     | CustomToolCall _ _ cid _ _ \<Rightarrow> remove_first_matching (is_custom_output cid) items
     | CustomToolCallOutput cid _ _ \<Rightarrow> remove_first_matching (is_custom_call cid) items
     | LocalShellCall _ (Some cid) _ _ \<Rightarrow> remove_first_matching (is_function_output cid) items
     | _ \<Rightarrow> items)"

section \<open>Images\<close>

datatype InputModality = TextModality | ImageModality

definition IMAGE_CONTENT_OMITTED_PLACEHOLDER :: string where
  "IMAGE_CONTENT_OMITTED_PLACEHOLDER = ''image content omitted because you do not support image input''"

fun strip_content :: "ContentItem \<Rightarrow> ContentItem" where
  "strip_content (InputImage _ _) = InputText IMAGE_CONTENT_OMITTED_PLACEHOLDER"
| "strip_content item = item"

fun strip_output_content :: "FunctionCallOutputContentItem \<Rightarrow> FunctionCallOutputContentItem" where
  "strip_output_content (OutImage _ _) = OutText IMAGE_CONTENT_OMITTED_PLACEHOLDER"
| "strip_output_content item = item"

definition strip_item :: "'j ResponseItem \<Rightarrow> 'j ResponseItem" where
  "strip_item item =
    (case item of
       Message i role content phase \<Rightarrow> Message i role (map strip_content content) phase
     | FunctionCallOutput cid out \<Rightarrow> FunctionCallOutput cid (map_content_items (map strip_output_content) out)
     | CustomToolCallOutput cid name out \<Rightarrow> CustomToolCallOutput cid name (map_content_items (map strip_output_content) out)
     | ImageGenerationCall i status prompt res \<Rightarrow> ImageGenerationCall i status prompt []
     | _ \<Rightarrow> item)"

definition strip_images_when_unsupported :: "InputModality list \<Rightarrow> 'j ResponseItem list \<Rightarrow> 'j ResponseItem list" where
  "strip_images_when_unsupported input_modalities items =
    (if ImageModality \<in> set input_modalities then items else map strip_item items)"

text \<open>\<open>normalize_history\<close> of history.rs runs the three passes.\<close>

definition normalize_items :: "bool \<Rightarrow> InputModality list \<Rightarrow> 'j ResponseItem list \<Rightarrow> 'j ResponseItem list option" where
  "normalize_items debug input_modalities items =
    (case ensure_call_outputs_present debug items of
       None \<Rightarrow> None
     | Some items \<Rightarrow>
        (case remove_orphan_outputs debug items of
           None \<Rightarrow> None
         | Some items \<Rightarrow> Some (strip_images_when_unsupported input_modalities items)))"

section \<open>Keys\<close>

text \<open>A call and its output share a key: what kind of tool it is, and the call id.  Local shell calls are answered
  by function call outputs.\<close>

datatype call_key = FunctionKey string | CustomKey string | SearchKey string

definition call_key_of :: "'j ResponseItem \<Rightarrow> call_key option" where
  "call_key_of item =
    (case item of
       FunctionCall _ _ _ _ cid \<Rightarrow> Some (FunctionKey cid)
     | LocalShellCall _ cid _ _ \<Rightarrow> map_option FunctionKey cid
     | CustomToolCall _ _ cid _ _ \<Rightarrow> Some (CustomKey cid)
     | ToolSearchCall _ cid _ _ _ \<Rightarrow> map_option SearchKey cid
     | _ \<Rightarrow> None)"

definition output_key_of :: "'j ResponseItem \<Rightarrow> call_key option" where
  "output_key_of item =
    (case item of
       FunctionCallOutput cid _ \<Rightarrow> Some (FunctionKey cid)
     | CustomToolCallOutput cid _ _ \<Rightarrow> Some (CustomKey cid)
     | ToolSearchOutput cid _ _ _ \<Rightarrow> map_option SearchKey cid
     | _ \<Rightarrow> None)"

definition is_server_output :: "'j ResponseItem \<Rightarrow> bool" where
  "is_server_output item = (case item of ToolSearchOutput _ _ execution _ \<Rightarrow> execution = ''server'' | _ \<Rightarrow> False)"

definition calls :: "'j ResponseItem list \<Rightarrow> call_key list" where
  "calls items = List.map_filter call_key_of items"

definition outputs :: "'j ResponseItem list \<Rightarrow> call_key list" where
  "outputs items = List.map_filter output_key_of items"

lemma output_keys:
  "is_function_output cid i \<longleftrightarrow> output_key_of i = Some (FunctionKey cid)"
  "is_custom_output cid i \<longleftrightarrow> output_key_of i = Some (CustomKey cid)"
  "is_tool_search_output cid i \<longleftrightarrow> output_key_of i = Some (SearchKey cid)"
  by (auto simp: is_function_output_def is_custom_output_def is_tool_search_output_def output_key_of_def
      split: ResponseItem.splits option.splits)

lemma call_keys:
  "is_function_call cid i \<or> is_local_shell_call cid i \<longleftrightarrow> call_key_of i = Some (FunctionKey cid)"
  "is_custom_call cid i \<longleftrightarrow> call_key_of i = Some (CustomKey cid)"
  "is_tool_search_call cid i \<longleftrightarrow> call_key_of i = Some (SearchKey cid)"
  by (auto simp: is_function_call_def is_local_shell_call_def is_custom_call_def is_tool_search_call_def call_key_of_def
      split: ResponseItem.splits option.splits)

lemma call_or_output: "call_key_of i = None \<or> output_key_of i = None"
  by (simp add: call_key_of_def output_key_of_def split: ResponseItem.splits)

lemma missing_output_None:
  "missing_output items item = None \<longleftrightarrow> set_option (call_key_of item) \<subseteq> set (outputs items)"
  by (auto simp: missing_output_def call_key_of_def outputs_def set_map_filter list_ex_iff output_keys
      split: ResponseItem.splits option.splits if_splits)

lemma missing_output_Some:
  "missing_output items item = Some (e, out) \<Longrightarrow>
   call_key_of item \<noteq> None \<and> output_key_of out = call_key_of item \<and> call_key_of out = None"
  by (auto simp: missing_output_def call_key_of_def output_key_of_def split: ResponseItem.splits option.splits if_splits)

lemma call_id_sets:
  fixes items :: "'j ResponseItem list"
  shows "cid \<in> set (function_call_ids items) \<longleftrightarrow> (\<exists>i\<in>set items. is_function_call cid i)"
    and "cid \<in> set (local_shell_call_ids items) \<longleftrightarrow> (\<exists>i\<in>set items. is_local_shell_call cid i)"
    and "cid \<in> set (custom_tool_call_ids items) \<longleftrightarrow> (\<exists>i\<in>set items. is_custom_call cid i)"
    and "cid \<in> set (tool_search_call_ids items) \<longleftrightarrow> (\<exists>i\<in>set items. is_tool_search_call cid i)"
proof -
  have "((case i of FunctionCall _ _ _ _ c \<Rightarrow> Some c | _ \<Rightarrow> None) = Some cid) = is_function_call cid i"
    "((case i of LocalShellCall _ c _ _ \<Rightarrow> c | _ \<Rightarrow> None) = Some cid) = is_local_shell_call cid i"
    "((case i of CustomToolCall _ _ c _ _ \<Rightarrow> Some c | _ \<Rightarrow> None) = Some cid) = is_custom_call cid i"
    "((case i of ToolSearchCall _ c _ _ _ \<Rightarrow> c | _ \<Rightarrow> None) = Some cid) = is_tool_search_call cid i" for i :: "'j ResponseItem"
    by (cases i; simp add: is_function_call_def is_local_shell_call_def is_custom_call_def is_tool_search_call_def
        split: option.splits)+
  then show "cid \<in> set (function_call_ids items) \<longleftrightarrow> (\<exists>i\<in>set items. is_function_call cid i)"
    "cid \<in> set (local_shell_call_ids items) \<longleftrightarrow> (\<exists>i\<in>set items. is_local_shell_call cid i)"
    "cid \<in> set (custom_tool_call_ids items) \<longleftrightarrow> (\<exists>i\<in>set items. is_custom_call cid i)"
    "cid \<in> set (tool_search_call_ids items) \<longleftrightarrow> (\<exists>i\<in>set items. is_tool_search_call cid i)"
    by (simp_all only: function_call_ids_def local_shell_call_ids_def custom_tool_call_ids_def
        tool_search_call_ids_def set_map_filter)
qed

lemma call_id_keys:
  "cid \<in> set (function_call_ids items) \<or> cid \<in> set (local_shell_call_ids items) \<longleftrightarrow> FunctionKey cid \<in> set (calls items)"
  "cid \<in> set (custom_tool_call_ids items) \<longleftrightarrow> CustomKey cid \<in> set (calls items)"
  "cid \<in> set (tool_search_call_ids items) \<longleftrightarrow> SearchKey cid \<in> set (calls items)"
  unfolding call_id_sets calls_def set_map_filter call_keys(2,3) call_keys(1) [symmetric] by blast+

lemma has_match_iff:
  "has_match items item \<longleftrightarrow> is_server_output item \<or> set_option (output_key_of item) \<subseteq> set (calls items)"
proof (cases item)
  case (ToolSearchOutput cid st ex tools)
  then show ?thesis
    by (cases cid) (simp_all add: has_match_def is_server_output_def output_key_of_def call_id_keys)
qed (simp_all add: has_match_def is_server_output_def output_key_of_def call_id_keys)

section \<open>The passes\<close>

definition with_output :: "'j ResponseItem list \<Rightarrow> 'j ResponseItem \<Rightarrow> 'j ResponseItem list" where
  "with_output items item = item # (case missing_output items item of Some (_, out) \<Rightarrow> [out] | None \<Rightarrow> [])"

lemma insert_outputs_append:
  "insert_outputs (xs @ ys) items = Option.bind (insert_outputs xs items) (insert_outputs ys)"
  by (induction xs items rule: insert_outputs.induct) (auto split: option.splits)

lemma insert_collected:
  "collect_missing debug items (length pre) xs = Some missing \<Longrightarrow>
   insert_outputs (rev missing) (pre @ xs) = Some (pre @ concat (map (with_output items) xs))"
proof (induction xs arbitrary: pre missing)
  case (Cons x xs)
  show ?case
  proof (cases "missing_output items x")
    case None
    with Cons.IH [of "pre @ [x]" missing] Cons.prems show ?thesis by (simp add: with_output_def)
  next
    case (Some eo)
    obtain e out where eo: "eo = (e, out)" by (cases eo)
    from Some eo Cons.prems obtain m where m: "collect_missing debug items (length (pre @ [x])) xs = Some m"
      "missing = (length pre, out) # m"
      by (auto split: if_splits)
    from Cons.IH [OF m(1)] have "insert_outputs (rev m) (pre @ x # xs) = Some (pre @ x # concat (map (with_output items) xs))"
      by simp
    with m(2) Some eo show ?thesis
      by (simp add: insert_outputs_append with_output_def [of items x] vec_insert_def)
  qed
qed simp

lemma collect_missing_release: "\<exists>m. collect_missing False items idx xs = Some m"
  by (induction xs arbitrary: idx) (auto split: option.splits)

lemma ensure_eq:
  "ensure_call_outputs_present debug items = Some items' \<Longrightarrow> items' = concat (map (with_output items) items)"
  using insert_collected [of debug items "[]" items]
  by (auto simp: ensure_call_outputs_present_def split: option.splits)

lemma ensure_release: "ensure_call_outputs_present False items = Some (concat (map (with_output items) items))"
  using insert_collected [of False items "[]" items] collect_missing_release [of items 0 items]
  by (auto simp: ensure_call_outputs_present_def)

lemma calls_with_output: "calls (concat (map (with_output items) xs)) = calls xs"
  by (induction xs)
    (auto simp: calls_def with_output_def map_filter_Cons dest: missing_output_Some split: option.splits)

definition calls_answered :: "'j ResponseItem list \<Rightarrow> bool" where
  "calls_answered items \<longleftrightarrow> set (calls items) \<subseteq> set (outputs items)"

definition no_orphans :: "'j ResponseItem list \<Rightarrow> bool" where
  "no_orphans items \<longleftrightarrow> list_all (\<lambda>item. is_server_output item \<or> set_option (output_key_of item) \<subseteq> set (calls items)) items"

lemma set_outputs: "k \<in> set (outputs items) \<longleftrightarrow> (\<exists>i\<in>set items. output_key_of i = Some k)"
  by (simp add: outputs_def set_map_filter)

lemma set_calls: "k \<in> set (calls items) \<longleftrightarrow> (\<exists>i\<in>set items. call_key_of i = Some k)"
  by (simp add: calls_def set_map_filter)

lemma ensure_answers: "calls_answered (concat (map (with_output items) items))"
  unfolding calls_answered_def calls_with_output
proof
  fix k
  assume "k \<in> set (calls items)"
  then obtain i where i: "i \<in> set items" "call_key_of i = Some k" by (auto simp: set_calls)
  show "k \<in> set (outputs (concat (map (with_output items) items)))"
  proof (cases "missing_output items i")
    case None
    then have "k \<in> set (outputs items)" using i missing_output_None [of items i] by simp
    then obtain o' where "o' \<in> set items" "output_key_of o' = Some k" by (auto simp: set_outputs)
    then show ?thesis by (auto simp: set_outputs with_output_def intro!: bexI [of _ o'])
  next
    case (Some eo)
    obtain e out where eo: "eo = (e, out)" by (cases eo)
    then have "output_key_of out = Some k" using missing_output_Some Some i by metis
    moreover have "out \<in> set (concat (map (with_output items) items))"
      using i Some eo by (auto simp: with_output_def intro!: bexI [of _ i])
    ultimately show ?thesis by (auto simp: set_outputs)
  qed
qed

lemma remove_orphan_eq:
  "remove_orphan_outputs debug items = Some items' \<Longrightarrow> items' = filter (has_match items) items"
  by (simp add: remove_orphan_outputs_def split: if_splits)

lemma calls_filter_match: "calls (filter (has_match items) xs) = calls xs"
proof (induction xs)
  case (Cons x xs)
  have "call_key_of x \<noteq> None \<Longrightarrow> has_match items x" using call_or_output [of x] by (auto simp: has_match_iff)
  with Cons show ?case by (cases "call_key_of x") (auto simp: calls_def map_filter_Cons)
qed simp

lemma remove_orphan_invariants:
  assumes "calls_answered items"
  shows "calls_answered (filter (has_match items) items)" "no_orphans (filter (has_match items) items)"
proof -
  have "k \<in> set (outputs (filter (has_match items) items))" if "k \<in> set (calls items)" for k
  proof -
    from assms that obtain o' where o': "o' \<in> set items" "output_key_of o' = Some k"
      unfolding calls_answered_def using set_outputs by blast
    then have "has_match items o'" using that by (simp add: has_match_iff)
    with o' show ?thesis by (auto simp: set_outputs)
  qed
  then show "calls_answered (filter (has_match items) items)"
    by (auto simp: calls_answered_def calls_filter_match)
  show "no_orphans (filter (has_match items) items)"
    by (auto simp: no_orphans_def calls_filter_match list_all_iff has_match_iff)
qed

lemma strip_item_keys [simp]:
  "call_key_of (strip_item i) = call_key_of i" "output_key_of (strip_item i) = output_key_of i"
  "is_server_output (strip_item i) = is_server_output i"
  by (cases i; simp add: strip_item_def call_key_of_def output_key_of_def is_server_output_def)+

lemma strip_keys [simp]:
  "calls (strip_images_when_unsupported m items) = calls items"
  "outputs (strip_images_when_unsupported m items) = outputs items"
  by (auto simp: strip_images_when_unsupported_def calls_def outputs_def List.map_filter_def comp_def filter_map)

lemma strip_invariants:
  "calls_answered (strip_images_when_unsupported m items) = calls_answered items"
  "no_orphans (strip_images_when_unsupported m items) = no_orphans items"
  by (simp_all add: calls_answered_def no_orphans_def)
    (simp add: strip_images_when_unsupported_def list_all_iff)

lemma normalize_eq:
  "normalize_items debug m items = Some items' \<Longrightarrow>
   items' = strip_images_when_unsupported m
     (filter (has_match (concat (map (with_output items) items))) (concat (map (with_output items) items)))"
  by (auto simp: normalize_items_def dest!: ensure_eq remove_orphan_eq split: option.splits)

lemma normalize_release: "\<exists>items'. normalize_items False m items = Some items'"
  by (simp add: normalize_items_def ensure_release remove_orphan_outputs_def)

lemma answered_no_missing:
  assumes "calls_answered items" "i \<in> set items"
  shows "missing_output items i = None"
  unfolding missing_output_None
proof
  fix k
  assume "k \<in> set_option (call_key_of i)"
  then have "k \<in> set (calls items)" using assms(2) by (auto simp: set_calls)
  with assms(1) show "k \<in> set (outputs items)" unfolding calls_answered_def by blast
qed

lemma collect_answered:
  "calls_answered items \<Longrightarrow> set xs \<subseteq> set items \<Longrightarrow> collect_missing debug items idx xs = Some []"
  by (induction xs arbitrary: idx) (simp_all add: answered_no_missing)

lemma normalize_unchanged:
  assumes "calls_answered items" "no_orphans items"
  shows "normalize_items debug m items = Some (strip_images_when_unsupported m items)"
proof -
  have "ensure_call_outputs_present debug items = Some items"
    using collect_answered [of items items debug 0] assms(1)
    by (simp add: ensure_call_outputs_present_def)
  moreover have "list_all (has_match items) items"
    using assms(2) by (simp add: no_orphans_def has_match_iff list_all_iff)
  then have "remove_orphan_outputs debug items = Some items"
    by (auto simp: remove_orphan_outputs_def list_all_iff list_ex_iff)
  ultimately show ?thesis by (simp add: normalize_items_def)
qed

text \<open>Items other than outputs.\<close>

definition non_outputs :: "'j ResponseItem list \<Rightarrow> 'j ResponseItem list" where
  "non_outputs items = filter (\<lambda>i. output_key_of i = None) items"

lemma non_outputs_with_output: "non_outputs (concat (map (with_output items) xs)) = non_outputs xs"
  by (induction xs) (auto simp: non_outputs_def with_output_def dest: missing_output_Some split: option.splits)

lemma non_outputs_filter: "non_outputs (filter (has_match items) xs) = non_outputs xs"
  by (induction xs) (auto simp: non_outputs_def has_match_iff)

section \<open>Removing pairs\<close>

definition balanced :: "'j ResponseItem list \<Rightarrow> bool" where
  "balanced items \<longleftrightarrow> mset (calls items) = mset (outputs items)"

lemma balanced_answered: "balanced items \<Longrightarrow> calls_answered items \<and> no_orphans items"
proof -
  assume "balanced items"
  then have "set (calls items) = set (outputs items)" unfolding balanced_def by (metis set_mset_mset)
  then show ?thesis by (fastforce simp: calls_answered_def no_orphans_def list_all_iff set_outputs)
qed

lemma remove_first_matching_cases:
  "remove_first_matching P items = items \<and> (\<forall>x\<in>set items. \<not> P x) \<or>
   (\<exists>xs x ys. items = xs @ x # ys \<and> P x \<and> remove_first_matching P items = xs @ ys)"
proof (cases "position P items")
  case None
  then have "\<forall>x\<in>set items. \<not> P x" by (simp add: position_None_iff)
  with None show ?thesis by (simp add: remove_first_matching_def)
next
  case (Some i)
  from position_split [OF Some] obtain xs x ys where x: "items = xs @ x # ys" "length xs = i" "P x" by blast
  have "remove_first_matching P items = vec_remove i items" using Some by (simp add: remove_first_matching_def)
  also have "\<dots> = xs @ ys" unfolding x(1) x(2) [symmetric] by (rule vec_remove_split)
  finally show ?thesis using x by blast
qed

lemma remove_corresponding_output:
  "remove_corresponding_for items (FunctionCallOutput cid out) =
    (if list_ex (is_function_call cid) items then remove_first_matching (is_function_call cid) items
     else remove_first_matching (is_local_shell_call cid) items)"
proof (cases "position (is_function_call cid) items")
  case None
  then have "\<not> list_ex (is_function_call cid) items" by (simp add: position_None_iff list_ex_iff)
  with None show ?thesis by (simp add: remove_corresponding_for_def remove_first_matching_def)
next
  case (Some i)
  then have "list_ex (is_function_call cid) items" by (auto simp: list_ex_iff dest: position_split)
  with Some show ?thesis by (simp add: remove_corresponding_for_def remove_first_matching_def)
qed

text \<open>Together with an item, one item with the same key on the other side is removed.\<close>

lemma remove_corresponding_call:
  assumes "call_key_of item = Some k"
  shows "remove_corresponding_for items item = remove_first_matching (\<lambda>i. output_key_of i = Some k) items"
  using assms by (cases item) (auto simp: remove_corresponding_for_def call_key_of_def output_keys [abs_def] split: option.splits)

lemma remove_corresponding_of_output:
  assumes "output_key_of item = Some k"
  shows "remove_corresponding_for items item = items \<and> k \<notin> set (calls items) \<or>
    (\<exists>xs x ys. items = xs @ x # ys \<and> call_key_of x = Some k \<and> remove_corresponding_for items item = xs @ ys)"
proof (cases item)
  case (FunctionCallOutput cid out)
  then have k: "k = FunctionKey cid" using assms by (simp add: output_key_of_def)
  show ?thesis
  proof (cases "list_ex (is_function_call cid) items")
    case True
    with remove_first_matching_cases [of "is_function_call cid" items] FunctionCallOutput k show ?thesis
      by (auto simp: remove_corresponding_output list_ex_iff simp flip: call_keys(1))
  next
    case False
    with remove_first_matching_cases [of "is_local_shell_call cid" items] FunctionCallOutput k show ?thesis
      by (auto simp: remove_corresponding_output list_ex_iff set_calls simp flip: call_keys(1))
  qed
next
  case (CustomToolCallOutput cid name out)
  with remove_first_matching_cases [of "is_custom_call cid" items] assms show ?thesis
    by (auto simp: remove_corresponding_for_def output_key_of_def set_calls call_keys)
next
  case (ToolSearchOutput cid st ex tools)
  with assms obtain c where c: "cid = Some c" "k = SearchKey c" by (cases cid) (auto simp: output_key_of_def)
  with remove_first_matching_cases [of "is_tool_search_call c" items] ToolSearchOutput show ?thesis
    by (auto simp: remove_corresponding_for_def set_calls call_keys)
qed (use assms in \<open>simp_all add: output_key_of_def\<close>)

lemma keys_split:
  "mset (calls (xs @ x # ys)) = mset (calls (xs @ ys)) + mset (calls [x])"
  "mset (outputs (xs @ x # ys)) = mset (outputs (xs @ ys)) + mset (outputs [x])"
  by (simp_all add: calls_def outputs_def map_filter_Cons split: option.splits)

lemma keys_single:
  "call_key_of x = Some k \<Longrightarrow> calls [x] = [k] \<and> outputs [x] = []"
  "output_key_of x = Some k \<Longrightarrow> calls [x] = [] \<and> outputs [x] = [k]"
  "call_key_of x = None \<Longrightarrow> output_key_of x = None \<Longrightarrow> calls [x] = [] \<and> outputs [x] = []"
  using call_or_output [of x] by (auto simp: calls_def outputs_def map_filter_Cons)

lemma remove_pair_balanced:
  assumes "mset (calls items) + mset (calls [item]) = mset (outputs items) + mset (outputs [item])"
  shows "balanced (remove_corresponding_for items item)"
proof (cases "call_key_of item")
  case (Some k)
  then have eq: "mset (calls items) + {#k#} = mset (outputs items)" using assms keys_single(1) [OF Some] by simp
  have "k \<in># mset (outputs items)" unfolding eq [symmetric] by simp
  then have "k \<in> set (outputs items)" by simp
  with remove_first_matching_cases [of "\<lambda>i. output_key_of i = Some k" items] obtain xs x ys where
    "items = xs @ x # ys" "output_key_of x = Some k" "remove_corresponding_for items item = xs @ ys"
    unfolding remove_corresponding_call [OF Some] by (auto simp: set_outputs)
  with eq keys_single(2) [of x k] show ?thesis by (simp add: balanced_def keys_split)
next
  case None
  show ?thesis
  proof (cases "output_key_of item")
    case (Some k)
    then have eq: "mset (calls items) = mset (outputs items) + {#k#}" using assms keys_single(2) [OF Some] by simp
    have "k \<in># mset (calls items)" unfolding eq by simp
    then have "k \<in> set (calls items)" by simp
    with remove_corresponding_of_output [OF Some, of items] obtain xs x ys where
      "items = xs @ x # ys" "call_key_of x = Some k" "remove_corresponding_for items item = xs @ ys" by auto
    with eq keys_single(1) [of x k] show ?thesis by (simp add: balanced_def keys_split)
  next
    case none: None
    with None have "remove_corresponding_for items item = items"
      by (cases item) (auto simp: remove_corresponding_for_def call_key_of_def output_key_of_def split: option.splits)
    with assms keys_single(3) [OF None none] show ?thesis by (simp add: balanced_def)
  qed
qed

section \<open>Images left\<close>

definition shows_image :: "'j ResponseItem \<Rightarrow> bool" where
  "shows_image item =
    (case item of
       Message _ _ content _ \<Rightarrow> list_ex (\<lambda>c. case c of InputImage _ _ \<Rightarrow> True | _ \<Rightarrow> False) content
     | FunctionCallOutput _ out \<Rightarrow> list_ex is_image (case content_items out of Some is \<Rightarrow> is | None \<Rightarrow> [])
     | CustomToolCallOutput _ _ out \<Rightarrow> list_ex is_image (case content_items out of Some is \<Rightarrow> is | None \<Rightarrow> [])
     | ImageGenerationCall _ _ _ res \<Rightarrow> res \<noteq> []
     | _ \<Rightarrow> False)"

lemma strip_content_image: "\<not> (case strip_content c of InputImage _ _ \<Rightarrow> True | _ \<Rightarrow> False)" "\<not> is_image (strip_output_content d)"
  by (cases c; simp) (cases d; simp add: is_image_def)

lemma strip_item_image: "\<not> shows_image (strip_item item)"
  by (cases item)
    (auto simp: shows_image_def strip_item_def list_ex_iff strip_content_image content_items_def map_content_items_def
      split: FunctionCallOutputBody.splits)

lemma strip_content_idem [simp]: "strip_content (strip_content c) = strip_content c"
  "strip_output_content (strip_output_content d) = strip_output_content d"
  by (cases c; simp) (cases d; simp)

lemma strip_idem: "strip_images_when_unsupported m (strip_images_when_unsupported m items) = strip_images_when_unsupported m items"
proof -
  have "strip_item (strip_item i) = strip_item i" for i :: "'a ResponseItem"
    by (cases i) (simp_all add: strip_item_def map_content_items_def comp_def split: FunctionCallOutputBody.splits)
  then show ?thesis by (simp add: strip_images_when_unsupported_def)
qed

lemma normalize_invariants:
  "normalize_items debug m items = Some items' \<Longrightarrow> calls_answered items' \<and> no_orphans items'"
  by (auto dest!: normalize_eq simp: strip_invariants remove_orphan_invariants ensure_answers)

section \<open>Properties\<close>

text \<open>C7: What is sent to the model satisfies the protocol: every call that has an id has an output with that id,
  every output with a call id, except the output of a tool search the server ran, has its call, and a
  model without image input gets no images.  Outside debug builds the preparation always succeeds.\<close>

theorem normalize_history_invariants:
  "normalize_items False m items \<noteq> None \<and>
   (normalize_items debug m items = Some items' \<longrightarrow>
    calls_answered items' \<and> no_orphans items' \<and> (ImageModality \<in> set m \<or> \<not> list_ex shows_image items'))"
proof -
  have "ImageModality \<in> set m \<or> \<not> list_ex shows_image items'" if "normalize_items debug m items = Some items'"
    using normalize_eq [OF that] strip_item_image by (auto simp: strip_images_when_unsupported_def list_ex_iff)
  with normalize_release [of m items] normalize_invariants [of debug m items items'] show ?thesis by auto
qed

theorem normalize_history_invariants_witness:
  "let items = [FunctionCall None ''f'' None ''{}'' ''c1'', CustomToolCallOutput ''c2'' None aborted] :: unit ResponseItem list in
   normalize_items False [TextModality] items =
     Some [FunctionCall None ''f'' None ''{}'' ''c1'', FunctionCallOutput ''c1'' aborted] \<and>
   calls_answered (the (normalize_items False [TextModality] items)) \<and>
   no_orphans (the (normalize_items False [TextModality] items))"
proof -
  let ?items = "[FunctionCall None ''f'' None ''{}'' ''c1'', CustomToolCallOutput ''c2'' None aborted] :: unit ResponseItem list"
  have "normalize_items False [TextModality] ?items =
     Some [FunctionCall None ''f'' None ''{}'' ''c1'', FunctionCallOutput ''c1'' aborted]" by code_simp
  with normalize_history_invariants [of "[TextModality]" ?items False] show ?thesis by simp
qed

text \<open>Preparing a history twice changes nothing the second time, and a debug build does not complain about a
  prepared history.\<close>

theorem normalize_history_idempotent:
  assumes "normalize_items debug m items = Some items'"
  shows "normalize_items debug' m items' = Some items'"
proof -
  have "calls_answered items'" "no_orphans items'" using normalize_invariants [OF assms] by auto
  from normalize_unchanged [OF this] strip_idem normalize_eq [OF assms] show ?thesis by metis
qed

theorem normalize_history_idempotent_witness:
  "normalize_items True [] [FunctionCall None ''f'' None ''{}'' ''c1'', FunctionCallOutput ''c1'' aborted :: unit ResponseItem] =
    Some [FunctionCall None ''f'' None ''{}'' ''c1'', FunctionCallOutput ''c1'' aborted]"
proof -
  have "normalize_items False [] [FunctionCall None ''f'' None ''{}'' ''c1'' :: unit ResponseItem] =
    Some [FunctionCall None ''f'' None ''{}'' ''c1'', FunctionCallOutput ''c1'' aborted]" by code_simp
  from normalize_history_idempotent [OF this, of True] show ?thesis .
qed

text \<open>Preparation touches outputs only: all other items stay, in their order, up to removed images.\<close>

theorem normalize_keeps_items:
  assumes "normalize_items debug m items = Some items'"
  shows "non_outputs items' = strip_images_when_unsupported m (non_outputs items)"
proof -
  have "non_outputs (strip_images_when_unsupported m xs) = strip_images_when_unsupported m (non_outputs xs)"
    for xs :: "'a ResponseItem list"
    by (simp add: non_outputs_def strip_images_when_unsupported_def filter_map comp_def)
  with normalize_eq [OF assms] show ?thesis by (simp add: non_outputs_filter non_outputs_with_output)
qed

theorem normalize_keeps_items_witness:
  "non_outputs [FunctionCall None ''f'' None ''{}'' ''c1'', FunctionCallOutput ''c1'' aborted :: unit ResponseItem] =
    [FunctionCall None ''f'' None ''{}'' ''c1'']"
proof -
  have "normalize_items False [ImageModality] [FunctionCall None ''f'' None ''{}'' ''c1'' :: unit ResponseItem] =
    Some [FunctionCall None ''f'' None ''{}'' ''c1'', FunctionCallOutput ''c1'' aborted]" by code_simp
  from normalize_keeps_items [OF this] show ?thesis
    by (simp add: non_outputs_def output_key_of_def strip_images_when_unsupported_def)
qed

end
