(* ===== verification/Context_Fragments.thy ===== *)
theory Context_Fragments
  imports Response_Item
begin

text \<open>
  Context that the agent itself injects into the conversation, and how it is recognised later
  (core/src/context/fragment.rs, core/src/context/contextual_user_message.rs, core/src/event_mapping.rs).  The XML
  reader behind hook prompts belongs to another library: it is the parameter \<open>from_xml_str\<close>, which returns the
  text and the run id of a hook prompt.
\<close>

section \<open>Marked fragments\<close>

record fragment_kind =
  frag_role :: string
  START_MARKER :: string
  END_MARKER :: string

definition matches_text :: "fragment_kind \<Rightarrow> string \<Rightarrow> bool" where
  "matches_text k t =
    (if START_MARKER k = [] \<or> END_MARKER k = [] then False
     else
       (let trimmed = trim_start t;
            starts_with_marker = (case str_get_to (length (START_MARKER k)) trimmed of
                Some candidate \<Rightarrow> eq_ignore_ascii_case candidate (START_MARKER k)
              | None \<Rightarrow> False);
            trimmed = trim_end trimmed;
            ends_with_marker = (case str_get_from (length trimmed - length (END_MARKER k)) trimmed of
                Some candidate \<Rightarrow> eq_ignore_ascii_case candidate (END_MARKER k)
              | None \<Rightarrow> False) in
        starts_with_marker \<and> ends_with_marker))"

definition render :: "fragment_kind \<Rightarrow> string \<Rightarrow> string" where
  "render k body = (if START_MARKER k = [] \<and> END_MARKER k = [] then body else START_MARKER k @ body @ END_MARKER k)"

definition into_item :: "fragment_kind \<Rightarrow> string \<Rightarrow> 'j ResponseItem" where
  "into_item k body = Message None (frag_role k) [InputText (render k body)] None"

definition UserInstructions :: fragment_kind where
  "UserInstructions = \<lparr>frag_role = ''user'', START_MARKER = ''# AGENTS.md instructions for '', END_MARKER = ''</INSTRUCTIONS>''\<rparr>"

definition EnvironmentContext :: fragment_kind where
  "EnvironmentContext = \<lparr>frag_role = ''user'', START_MARKER = ''<environment_context>'', END_MARKER = ''</environment_context>''\<rparr>"

definition SkillInstructions :: fragment_kind where
  "SkillInstructions = \<lparr>frag_role = ''user'', START_MARKER = ''<skill>'', END_MARKER = ''</skill>''\<rparr>"

definition UserShellCommand :: fragment_kind where
  "UserShellCommand = \<lparr>frag_role = ''user'', START_MARKER = ''<user_shell_command>'', END_MARKER = ''</user_shell_command>''\<rparr>"

definition TurnAborted :: fragment_kind where
  "TurnAborted = \<lparr>frag_role = ''user'', START_MARKER = ''<turn_aborted>'', END_MARKER = ''</turn_aborted>''\<rparr>"

definition SubagentNotification :: fragment_kind where
  "SubagentNotification =
    \<lparr>frag_role = ''user'', START_MARKER = ''<subagent_notification>'', END_MARKER = ''</subagent_notification>''\<rparr>"

definition CONTEXTUAL_USER_FRAGMENTS :: "fragment_kind list" where
  "CONTEXTUAL_USER_FRAGMENTS =
    [UserInstructions, EnvironmentContext, SkillInstructions, UserShellCommand, TurnAborted, SubagentNotification]"

definition is_standard_contextual_user_text :: "string \<Rightarrow> bool" where
  "is_standard_contextual_user_text t = list_ex (\<lambda>k. matches_text k t) CONTEXTUAL_USER_FRAGMENTS"

definition parse_hook_prompt_fragment ::
  "(string \<Rightarrow> (string \<times> string) option) \<Rightarrow> string \<Rightarrow> (string \<times> string) option" where
  "parse_hook_prompt_fragment from_xml_str t =
    (case from_xml_str (trim t) of
       None \<Rightarrow> None
     | Some (txt, hook_run_id) \<Rightarrow> if trim hook_run_id = [] then None else Some (txt, hook_run_id))"

definition is_contextual_user_fragment :: "(string \<Rightarrow> (string \<times> string) option) \<Rightarrow> ContentItem \<Rightarrow> bool" where
  "is_contextual_user_fragment from_xml_str item =
    (case item of
       InputText t \<Rightarrow> parse_hook_prompt_fragment from_xml_str t \<noteq> None \<or> is_standard_contextual_user_text t
     | _ \<Rightarrow> False)"

section \<open>Messages\<close>

definition CONTEXTUAL_DEVELOPER_PREFIXES :: "string list" where
  "CONTEXTUAL_DEVELOPER_PREFIXES =
    [''<permissions instructions>'', ''<model_switch>'', ''<collaboration_mode>'', ''<realtime_conversation>'',
     ''<personality_spec>'']"

definition is_contextual_user_message_content ::
  "(string \<Rightarrow> (string \<times> string) option) \<Rightarrow> ContentItem list \<Rightarrow> bool" where
  "is_contextual_user_message_content from_xml_str message = list_ex (is_contextual_user_fragment from_xml_str) message"

definition is_contextual_dev_fragment :: "ContentItem \<Rightarrow> bool" where
  "is_contextual_dev_fragment item =
    (case item of
       InputText t \<Rightarrow>
         (let trimmed = trim_start t in
          list_ex (\<lambda>p. case str_get_to (length p) trimmed of
              Some candidate \<Rightarrow> eq_ignore_ascii_case candidate p
            | None \<Rightarrow> False) CONTEXTUAL_DEVELOPER_PREFIXES)
     | _ \<Rightarrow> False)"

definition is_contextual_dev_message_content :: "ContentItem list \<Rightarrow> bool" where
  "is_contextual_dev_message_content message = list_ex is_contextual_dev_fragment message"

definition has_non_contextual_dev_message_content :: "ContentItem list \<Rightarrow> bool" where
  "has_non_contextual_dev_message_content message = list_ex (\<lambda>item. \<not> is_contextual_dev_fragment item) message"

section \<open>Recognising what was injected\<close>

definition marker_ok :: "fragment_kind \<Rightarrow> bool" where
  "marker_ok k \<longleftrightarrow> START_MARKER k \<noteq> [] \<and> END_MARKER k \<noteq> [] \<and>
    is_ascii (hd (START_MARKER k)) \<and> \<not> ascii_ws (hd (START_MARKER k)) \<and>
    list_all is_ascii (END_MARKER k) \<and> \<not> ascii_ws (last (END_MARKER k))"

lemma registered_markers_ok: "list_all marker_ok CONTEXTUAL_USER_FRAGMENTS"
  by (simp add: CONTEXTUAL_USER_FRAGMENTS_def marker_ok_def is_ascii_def ascii_ws_def UserInstructions_def
      EnvironmentContext_def SkillInstructions_def UserShellCommand_def TurnAborted_def SubagentNotification_def)

lemma eq_ignore_refl [simp]: "eq_ignore_ascii_case s s"
  by (simp add: eq_ignore_ascii_case_def)

lemma render_matches:
  assumes "marker_ok k" "is_str body" "is_str (START_MARKER k)"
  shows "matches_text k (render k body)"
proof -
  obtain a as where start: "START_MARKER k = a # as" "is_ascii a" "\<not> ascii_ws a"
    using assms(1) by (cases "START_MARKER k") (auto simp: marker_ok_def)
  obtain zs z where fin: "END_MARKER k = zs @ [z]" "is_ascii z" "\<not> ascii_ws z"
    using assms(1) by (cases "END_MARKER k" rule: rev_cases) (auto simp: marker_ok_def)
  have fin_hd: "\<not> cont_byte (hd (END_MARKER k))"
    using assms(1) ascii_not_cont by (cases "END_MARKER k") (auto simp: marker_ok_def)
  define t where "t = START_MARKER k @ body @ END_MARKER k"
  have r: "render k body = t" using start by (simp add: render_def t_def)
  have ts: "trim_start t = t" unfolding t_def start by (simp add: trim_start_plain start)
  have te: "trim_end t = t"
    using trim_end_plain [OF fin(2,3), of "START_MARKER k @ body @ zs"] by (simp add: t_def fin)
  have "body @ END_MARKER k \<noteq> []" using fin by simp
  moreover have "\<not> cont_byte (hd (body @ END_MARKER k))"
    using fin_hd is_str_hd assms(2) by (cases body) auto
  ultimately have "is_char_boundary t (length (START_MARKER k))"
    by (cases "body @ END_MARKER k") (auto simp: is_char_boundary_def t_def nth_append)
  then have 1: "str_get_to (length (START_MARKER k)) t = Some (START_MARKER k)"
    by (simp add: str_get_to_def t_def)
  have "END_MARKER k \<noteq> []" using fin(1) by simp
  then have "is_char_boundary t (length (START_MARKER k) + length body)"
    using fin_hd by (auto simp: is_char_boundary_def t_def nth_append hd_conv_nth)
  then have 2: "str_get_from (length t - length (END_MARKER k)) t = Some (END_MARKER k)"
    by (simp add: str_get_from_def t_def)
  show ?thesis
    unfolding matches_text_def r ts Let_def te 1 2 using start fin by simp
qed

section \<open>Properties\<close>

text \<open>Whatever text the agent injects through one of its registered fragments, the injected message is recognised as
  contextual afterwards, so it does not count as a turn of the user.\<close>

theorem injected_fragment_recognised:
  assumes "k \<in> set CONTEXTUAL_USER_FRAGMENTS" "is_str body" "into_item k body = Message i r content ph"
  shows "is_contextual_user_message_content from_xml_str content"
proof -
  have ok: "marker_ok k" using assms(1) registered_markers_ok by (simp add: list_all_iff)
  have "list_all (\<lambda>k. list_all is_ascii (START_MARKER k)) CONTEXTUAL_USER_FRAGMENTS"
    by (simp add: CONTEXTUAL_USER_FRAGMENTS_def is_ascii_def UserInstructions_def
      EnvironmentContext_def SkillInstructions_def UserShellCommand_def TurnAborted_def SubagentNotification_def)
  then have "is_str (START_MARKER k)" using assms(1) is_str_ascii by (simp add: list_all_iff)
  from render_matches [OF ok assms(2) this] assms show ?thesis
    by (auto simp: is_contextual_user_message_content_def is_contextual_user_fragment_def into_item_def
        is_standard_contextual_user_text_def list_ex_iff)
qed

theorem injected_fragment_recognised_witness:
  "is_contextual_user_message_content (\<lambda>_. None) [InputText (''<turn_aborted>'' @ [LF] @ ''x</turn_aborted>'')]"
proof -
  have "is_str ([LF] @ ''x'')" by code_simp
  moreover have "TurnAborted \<in> set CONTEXTUAL_USER_FRAGMENTS" by (simp add: CONTEXTUAL_USER_FRAGMENTS_def)
  moreover have "(into_item TurnAborted ([LF] @ ''x'') :: unit ResponseItem) =
      Message None ''user'' [InputText (''<turn_aborted>'' @ [LF] @ ''x</turn_aborted>'')] None"
    by (simp add: into_item_def render_def TurnAborted_def)
  ultimately show ?thesis using injected_fragment_recognised by blast
qed

end
