(* ===== verification/Context_History.thy ===== *)
theory Context_History
  imports Context_Normalize Context_Fragments
begin

text \<open>
  The conversation history (core/src/context_manager/history.rs): recording, preparing for the model, removing,
  rolling back turns and estimating tokens.  Code of other libraries is collected in \<open>externals\<close>: the XML reader,
  the JSON reader of inter-agent messages, the length of an item's JSON text (\<open>None\<close> when serialisation fails) and
  the size of a base64-encoded image (\<open>None\<close> when it cannot be decoded).  The cache of image sizes is keyed by a
  digest of the URL and is left out: it returns what it was given for that URL.
\<close>

section \<open>State\<close>

record 'j externals =
  from_xml_str :: "string \<Rightarrow> (string \<times> string) option"
  is_inter_agent_json :: "string \<Rightarrow> bool"
  json_len :: "'j ResponseItem \<Rightarrow> nat option"
  image_size :: "string \<Rightarrow> (nat \<times> nat) option"

record ('j, 'c) ContextManager =
  cm_items :: "'j ResponseItem list"
  history_version :: nat
  token_info :: "TokenUsageInfo option"
  reference_context_item :: "'c option"

record TotalTokenUsageBreakdown =
  last_api_response_total_tokens :: int
  all_history_items_model_visible_bytes :: int
  estimated_tokens_since_last :: int
  estimated_bytes_since_last :: int

definition cm_new :: "('j, 'c) ContextManager" where
  "cm_new = \<lparr>cm_items = [], history_version = 0, token_info = new_or_append None None None, reference_context_item = None\<rparr>"

definition set_token_info :: "TokenUsageInfo option \<Rightarrow> ('j, 'c) ContextManager \<Rightarrow> ('j, 'c) ContextManager" where
  "set_token_info info cm = cm\<lparr>token_info := info\<rparr>"

definition set_reference_context_item :: "'c option \<Rightarrow> ('j, 'c) ContextManager \<Rightarrow> ('j, 'c) ContextManager" where
  "set_reference_context_item item cm = cm\<lparr>reference_context_item := item\<rparr>"

definition set_token_usage_full :: "int \<Rightarrow> ('j, 'c) ContextManager \<Rightarrow> ('j, 'c) ContextManager" where
  "set_token_usage_full context_window cm =
    (case token_info cm of
       Some info \<Rightarrow> cm\<lparr>token_info := Some (fill_to_context_window info context_window)\<rparr>
     | None \<Rightarrow> cm\<lparr>token_info := Some (full_context_window context_window)\<rparr>)"

definition update_token_info :: "TokenUsage \<Rightarrow> int option \<Rightarrow> ('j, 'c) ContextManager \<Rightarrow> ('j, 'c) ContextManager" where
  "update_token_info usage window cm = cm\<lparr>token_info := new_or_append (token_info cm) (Some usage) window\<rparr>"

section \<open>Classification\<close>

definition is_api_message :: "'j ResponseItem \<Rightarrow> bool" where
  "is_api_message item =
    (case item of
       Message _ role _ _ \<Rightarrow> role \<noteq> ''system''
     | OtherItem \<Rightarrow> False
     | _ \<Rightarrow> True)"

definition is_model_generated_item :: "'j ResponseItem \<Rightarrow> bool" where
  "is_model_generated_item item =
    (case item of
       Message _ role _ _ \<Rightarrow> role = ''assistant''
     | FunctionCallOutput _ _ \<Rightarrow> False
     | ToolSearchOutput _ _ _ _ \<Rightarrow> False
     | CustomToolCallOutput _ _ _ \<Rightarrow> False
     | OtherItem \<Rightarrow> False
     | _ \<Rightarrow> True)"

definition is_codex_generated_item :: "'j ResponseItem \<Rightarrow> bool" where
  "is_codex_generated_item item =
    (case item of
       FunctionCallOutput _ _ \<Rightarrow> True
     | ToolSearchOutput _ _ _ _ \<Rightarrow> True
     | CustomToolCallOutput _ _ _ \<Rightarrow> True
     | Message _ role _ _ \<Rightarrow> role = ''developer''
     | _ \<Rightarrow> False)"

definition is_inter_agent_instruction_content :: "'j externals \<Rightarrow> ContentItem list \<Rightarrow> bool" where
  "is_inter_agent_instruction_content ext content =
    (case content of
       [InputText t] \<Rightarrow> is_inter_agent_json ext t
     | [OutputText t] \<Rightarrow> is_inter_agent_json ext t
     | _ \<Rightarrow> False)"

definition is_user_turn_boundary :: "'j externals \<Rightarrow> 'j ResponseItem \<Rightarrow> bool" where
  "is_user_turn_boundary ext item =
    (case item of
       Message _ role content _ \<Rightarrow>
         (role = ''user'' \<and> \<not> is_contextual_user_message_content (from_xml_str ext) content) \<or>
         (role = ''assistant'' \<and> is_inter_agent_instruction_content ext content)
     | _ \<Rightarrow> False)"

definition user_message_positions :: "'j externals \<Rightarrow> 'j ResponseItem list \<Rightarrow> nat list" where
  "user_message_positions ext items = filter (\<lambda>i. is_user_turn_boundary ext (items ! i)) [0..<length items]"

section \<open>Recording\<close>

definition truncate_function_output_payload ::
  "FunctionCallOutputPayload \<Rightarrow> TruncationPolicy \<Rightarrow> FunctionCallOutputPayload" where
  "truncate_function_output_payload out policy =
    \<lparr>payload_body =
       (case payload_body out of
          BodyText content \<Rightarrow> BodyText (truncate_text content policy)
        | ContentItems items \<Rightarrow> ContentItems (truncate_function_output_items_with_policy items policy)),
     payload_success = payload_success out\<rparr>"

text \<open>The double nearest to 1.2.\<close>

definition F64_1_2 :: "int \<times> nat" where
  "F64_1_2 = (5404319552844595, 52)"

definition process_item :: "TruncationPolicy \<Rightarrow> 'j ResponseItem \<Rightarrow> 'j ResponseItem" where
  "process_item policy item =
    (let policy_with_serialization_budget = policy_mul policy F64_1_2 in
     case item of
       FunctionCallOutput cid out \<Rightarrow>
         FunctionCallOutput cid (truncate_function_output_payload out policy_with_serialization_budget)
     | CustomToolCallOutput cid name out \<Rightarrow>
         CustomToolCallOutput cid name (truncate_function_output_payload out policy_with_serialization_budget)
     | _ \<Rightarrow> item)"

definition record_items ::
  "'j ResponseItem list \<Rightarrow> TruncationPolicy \<Rightarrow> ('j, 'c) ContextManager \<Rightarrow> ('j, 'c) ContextManager" where
  "record_items items policy cm =
    foldl (\<lambda>cm item. if \<not> is_api_message item then cm else cm\<lparr>cm_items := cm_items cm @ [process_item policy item]\<rparr>)
      cm items"

definition for_prompt :: "bool \<Rightarrow> InputModality list \<Rightarrow> ('j, 'c) ContextManager \<Rightarrow> 'j ResponseItem list option" where
  "for_prompt debug input_modalities cm = normalize_items debug input_modalities (cm_items cm)"

section \<open>Removing and replacing\<close>

definition remove_first_item :: "('j, 'c) ContextManager \<Rightarrow> ('j, 'c) ContextManager" where
  "remove_first_item cm =
    (case cm_items cm of
       [] \<Rightarrow> cm
     | removed # rest \<Rightarrow> cm\<lparr>cm_items := remove_corresponding_for rest removed\<rparr>)"

definition bump_version :: "('j, 'c) ContextManager \<Rightarrow> ('j, 'c) ContextManager" where
  "bump_version cm = cm\<lparr>history_version := saturating_add (history_version cm) 1\<rparr>"

definition remove_last_item :: "('j, 'c) ContextManager \<Rightarrow> ('j, 'c) ContextManager \<times> bool" where
  "remove_last_item cm =
    (if cm_items cm = [] then (cm, False)
     else
       (let removed = last (cm_items cm) in
        (bump_version (cm\<lparr>cm_items := remove_corresponding_for (butlast (cm_items cm)) removed\<rparr>), True)))"

definition cm_replace :: "'j ResponseItem list \<Rightarrow> ('j, 'c) ContextManager \<Rightarrow> ('j, 'c) ContextManager" where
  "cm_replace items cm = bump_version (cm\<lparr>cm_items := items\<rparr>)"

definition replace_last_turn_images ::
  "'j externals \<Rightarrow> string \<Rightarrow> ('j, 'c) ContextManager \<Rightarrow> ('j, 'c) ContextManager \<times> bool" where
  "replace_last_turn_images ext placeholder cm =
    (case rposition (\<lambda>item. (case item of FunctionCallOutput _ _ \<Rightarrow> True | _ \<Rightarrow> False) \<or> is_user_turn_boundary ext item)
        (cm_items cm) of
       None \<Rightarrow> (cm, False)
     | Some index \<Rightarrow>
        (case cm_items cm ! index of
           FunctionCallOutput cid out \<Rightarrow>
             (case content_items out of
                None \<Rightarrow> (cm, False)
              | Some items \<Rightarrow>
                 (let items' = map (\<lambda>item. if is_image item then OutText placeholder else item) items;
                      replaced = list_ex is_image items;
                      cm = cm\<lparr>cm_items := (cm_items cm)[index := FunctionCallOutput cid (out\<lparr>payload_body := ContentItems items'\<rparr>)]\<rparr> in
                  (if replaced then bump_version cm else cm, replaced)))
         | _ \<Rightarrow> (cm, False)))"

section \<open>Rolling back\<close>

text \<open>The walk returns the cut and whether the reference context is cleared.\<close>

fun trim_walk :: "'j externals \<Rightarrow> 'j ResponseItem list \<Rightarrow> nat \<Rightarrow> bool \<Rightarrow> nat \<Rightarrow> nat \<times> bool" where
  "trim_walk ext snapshot first cleared cut_idx =
    (if first < cut_idx then
       (case snapshot ! (cut_idx - 1) of
          Message _ role content _ \<Rightarrow>
            if role = ''developer'' \<and> is_contextual_dev_message_content content then
              trim_walk ext snapshot first (cleared \<or> has_non_contextual_dev_message_content content) (cut_idx - 1)
            else if role = ''user'' \<and> is_contextual_user_message_content (from_xml_str ext) content then
              trim_walk ext snapshot first cleared (cut_idx - 1)
            else (cut_idx, cleared)
        | _ \<Rightarrow> (cut_idx, cleared))
     else (cut_idx, cleared))"

declare trim_walk.simps [simp del]

definition trim_pre_turn_context_updates ::
  "'j externals \<Rightarrow> 'j ResponseItem list \<Rightarrow> nat \<Rightarrow> nat \<Rightarrow> ('j, 'c) ContextManager \<Rightarrow> ('j, 'c) ContextManager \<times> nat" where
  "trim_pre_turn_context_updates ext snapshot first_instruction_turn_idx cut_idx cm =
    (let (cut_idx, cleared) = trim_walk ext snapshot first_instruction_turn_idx False cut_idx in
     (if cleared then cm\<lparr>reference_context_item := None\<rparr> else cm, cut_idx))"

definition drop_last_n_user_turns ::
  "'j externals \<Rightarrow> nat \<Rightarrow> ('j, 'c) ContextManager \<Rightarrow> ('j, 'c) ContextManager" where
  "drop_last_n_user_turns ext num_turns cm =
    (if num_turns = 0 then cm
     else
       (let snapshot = cm_items cm;
            user_positions = user_message_positions ext snapshot in
        case user_positions of
          [] \<Rightarrow> cm_replace snapshot cm
        | first_instruction_turn_idx # _ \<Rightarrow>
           (let cut_idx = (if length user_positions \<le> num_turns then first_instruction_turn_idx
                           else user_positions ! (length user_positions - num_turns));
                (cm, cut_idx) = trim_pre_turn_context_updates ext snapshot first_instruction_turn_idx cut_idx cm in
            cm_replace (take cut_idx snapshot) cm)))"

section \<open>Token estimates\<close>

definition estimate_reasoning_length :: "nat \<Rightarrow> nat" where
  "estimate_reasoning_length encoded_len = saturating_mul encoded_len 3 div 4 - 650"

definition RESIZED_IMAGE_BYTES_ESTIMATE :: int where
  "RESIZED_IMAGE_BYTES_ESTIMATE = 7373"

definition ORIGINAL_IMAGE_PATCH_SIZE :: nat where
  "ORIGINAL_IMAGE_PATCH_SIZE = 32"

definition ORIGINAL_IMAGE_MAX_PATCHES :: nat where
  "ORIGINAL_IMAGE_MAX_PATCHES = 10000"

definition parse_base64_image_data_url :: "string \<Rightarrow> string option" where
  "parse_base64_image_data_url url =
    (if \<not> (case str_get_to (length ''data:'') url of Some p \<Rightarrow> eq_ignore_ascii_case p ''data:'' | None \<Rightarrow> False) then None
     else
       (case position (\<lambda>c. c = CHR '','') url of
          None \<Rightarrow> None
        | Some comma_index \<Rightarrow>
           (let metadata = take comma_index url;
                payload = drop (comma_index + 1) url;
                metadata_without_scheme = drop (length ''data:'') metadata;
                metadata_parts = split_char CHR '';'' metadata_without_scheme;
                mime_type = (case metadata_parts of [] \<Rightarrow> [] | t # _ \<Rightarrow> t);
                has_base64_marker = list_ex (\<lambda>part. eq_ignore_ascii_case part ''base64'') (tl metadata_parts) in
            if \<not> (case str_get_to (length ''image/'') mime_type of Some p \<Rightarrow> eq_ignore_ascii_case p ''image/'' | None \<Rightarrow> False)
            then None
            else if \<not> has_base64_marker then None
            else Some payload)))"

text \<open>Width and height are \<open>u32\<close> values, so no step of the patch count saturates.\<close>

definition estimate_original_image_bytes :: "'j externals \<Rightarrow> string \<Rightarrow> int option" where
  "estimate_original_image_bytes ext image_url =
    (case parse_base64_image_data_url image_url of
       None \<Rightarrow> None
     | Some payload \<Rightarrow>
        (case image_size ext payload of
           None \<Rightarrow> None
         | Some (width, height) \<Rightarrow>
            (let patches_wide = (width + (ORIGINAL_IMAGE_PATCH_SIZE - 1)) div ORIGINAL_IMAGE_PATCH_SIZE;
                 patches_high = (height + (ORIGINAL_IMAGE_PATCH_SIZE - 1)) div ORIGINAL_IMAGE_PATCH_SIZE;
                 patch_count = min (patches_wide * patches_high) ORIGINAL_IMAGE_MAX_PATCHES in
             Some (i64_of_usize (approx_bytes_for_tokens patch_count)))))"

definition accumulate :: "'j externals \<Rightarrow> int \<times> int \<Rightarrow> string \<times> ImageDetail option \<Rightarrow> int \<times> int" where
  "accumulate ext st img =
    (case st of (payload_bytes, replacement_bytes) \<Rightarrow>
     case img of (image_url, detail) \<Rightarrow>
       (case parse_base64_image_data_url image_url of
          None \<Rightarrow> (payload_bytes, replacement_bytes)
        | Some payload \<Rightarrow>
           (i64_saturating_add payload_bytes (i64_of_usize (length payload)),
            i64_saturating_add replacement_bytes
              (case detail of
                 Some Original \<Rightarrow>
                   (case estimate_original_image_bytes ext image_url of Some b \<Rightarrow> b | None \<Rightarrow> RESIZED_IMAGE_BYTES_ESTIMATE)
               | _ \<Rightarrow> RESIZED_IMAGE_BYTES_ESTIMATE))))"

definition item_images :: "'j ResponseItem \<Rightarrow> (string \<times> ImageDetail option) list" where
  "item_images item =
    (case item of
       Message _ _ content _ \<Rightarrow>
         List.map_filter (\<lambda>c. case c of InputImage url detail \<Rightarrow> Some (url, detail) | _ \<Rightarrow> None) content
     | FunctionCallOutput _ out \<Rightarrow>
         (case payload_body out of
            ContentItems items \<Rightarrow> List.map_filter (\<lambda>c. case c of OutImage url detail \<Rightarrow> Some (url, detail) | _ \<Rightarrow> None) items
          | BodyText _ \<Rightarrow> [])
     | CustomToolCallOutput _ _ out \<Rightarrow>
         (case payload_body out of
            ContentItems items \<Rightarrow> List.map_filter (\<lambda>c. case c of OutImage url detail \<Rightarrow> Some (url, detail) | _ \<Rightarrow> None) items
          | BodyText _ \<Rightarrow> [])
     | _ \<Rightarrow> [])"

definition image_data_url_estimate_adjustment :: "'j externals \<Rightarrow> 'j ResponseItem \<Rightarrow> int \<times> int" where
  "image_data_url_estimate_adjustment ext item = foldl (accumulate ext) (0, 0) (item_images item)"

definition estimate_serialized :: "'j externals \<Rightarrow> 'j ResponseItem \<Rightarrow> int" where
  "estimate_serialized ext item =
    (let raw = (case json_len ext item of Some n \<Rightarrow> i64_of_usize n | None \<Rightarrow> 0);
         (payload_bytes, replacement_bytes) = image_data_url_estimate_adjustment ext item in
     if payload_bytes = 0 \<or> replacement_bytes = 0 then raw
     else i64_saturating_add (i64_saturating_sub raw payload_bytes) replacement_bytes)"

definition estimate_response_item_model_visible_bytes :: "'j externals \<Rightarrow> 'j ResponseItem \<Rightarrow> int" where
  "estimate_response_item_model_visible_bytes ext item =
    (case item of
       Reasoning _ _ _ (Some content) \<Rightarrow> i64_of_usize (estimate_reasoning_length (length content))
     | Compaction content \<Rightarrow> i64_of_usize (estimate_reasoning_length (length content))
     | ContextCompaction (Some content) \<Rightarrow> i64_of_usize (estimate_reasoning_length (length content))
     | _ \<Rightarrow> estimate_serialized ext item)"

definition estimate_item_token_count :: "'j externals \<Rightarrow> 'j ResponseItem \<Rightarrow> int" where
  "estimate_item_token_count ext item =
    approx_tokens_from_byte_count_i64 (estimate_response_item_model_visible_bytes ext item)"

definition sat_sum :: "('a \<Rightarrow> int) \<Rightarrow> 'a list \<Rightarrow> int" where
  "sat_sum f xs = foldl i64_saturating_add 0 (map f xs)"

definition estimate_token_count_with_base_instructions ::
  "'j externals \<Rightarrow> string \<Rightarrow> ('j, 'c) ContextManager \<Rightarrow> int option" where
  "estimate_token_count_with_base_instructions ext base_text cm =
    (let base_tokens = i64_of_usize (approx_token_count base_text);
         items_tokens = sat_sum (estimate_item_token_count ext) (cm_items cm) in
     Some (i64_saturating_add base_tokens items_tokens))"

definition get_non_last_reasoning_items_tokens :: "'j externals \<Rightarrow> ('j, 'c) ContextManager \<Rightarrow> int" where
  "get_non_last_reasoning_items_tokens ext cm =
    (case rposition (is_user_turn_boundary ext) (cm_items cm) of
       None \<Rightarrow> 0
     | Some last_user_index \<Rightarrow>
        sat_sum (estimate_item_token_count ext)
          (filter (\<lambda>item. case item of Reasoning _ _ _ (Some _) \<Rightarrow> True | _ \<Rightarrow> False) (take last_user_index (cm_items cm))))"

definition items_after_last_model_generated_item :: "('j, 'c) ContextManager \<Rightarrow> 'j ResponseItem list" where
  "items_after_last_model_generated_item cm =
    (let start = (case rposition is_model_generated_item (cm_items cm) of
            None \<Rightarrow> length (cm_items cm)
          | Some index \<Rightarrow> saturating_add index 1) in
     drop start (cm_items cm))"

definition get_total_token_usage :: "'j externals \<Rightarrow> bool \<Rightarrow> ('j, 'c) ContextManager \<Rightarrow> int" where
  "get_total_token_usage ext server_reasoning_included cm =
    (let last_tokens = (case token_info cm of Some info \<Rightarrow> total_tokens (last_token_usage info) | None \<Rightarrow> 0);
         after = sat_sum (estimate_item_token_count ext) (items_after_last_model_generated_item cm) in
     if server_reasoning_included then i64_saturating_add last_tokens after
     else i64_saturating_add (i64_saturating_add last_tokens (get_non_last_reasoning_items_tokens ext cm)) after)"

definition get_total_token_usage_breakdown :: "'j externals \<Rightarrow> ('j, 'c) ContextManager \<Rightarrow> TotalTokenUsageBreakdown" where
  "get_total_token_usage_breakdown ext cm =
    (let last_usage = (case token_info cm of Some info \<Rightarrow> last_token_usage info | None \<Rightarrow> token_usage_default);
         after = items_after_last_model_generated_item cm in
     \<lparr>last_api_response_total_tokens = total_tokens last_usage,
      all_history_items_model_visible_bytes = sat_sum (estimate_response_item_model_visible_bytes ext) (cm_items cm),
      estimated_tokens_since_last = sat_sum (estimate_item_token_count ext) after,
      estimated_bytes_since_last = sat_sum (estimate_response_item_model_visible_bytes ext) after\<rparr>)"

section \<open>Pairs\<close>

lemma process_item_keys [simp]:
  "call_key_of (process_item policy i) = call_key_of i" "output_key_of (process_item policy i) = output_key_of i"
  by (cases i; simp add: process_item_def call_key_of_def output_key_of_def)+

lemma record_items_eq:
  "cm_items (record_items items policy cm) = cm_items cm @ map (process_item policy) (filter is_api_message items)"
proof (induction items arbitrary: cm)
  case (Cons i items)
  let ?step = "\<lambda>cm item. if \<not> is_api_message item then cm else cm\<lparr>cm_items := cm_items cm @ [process_item policy item]\<rparr>"
  have "record_items (i # items) policy cm = record_items items policy (?step cm i)" by (simp add: record_items_def)
  with Cons.IH [of "?step cm i"] show ?case by simp
qed (simp add: record_items_def)

lemma keyless_not_api: "\<not> is_api_message i \<Longrightarrow> call_key_of i = None \<and> output_key_of i = None"
  by (cases i) (simp_all add: is_api_message_def call_key_of_def output_key_of_def)

lemma record_items_keys:
  "calls (cm_items (record_items items policy cm)) = calls (cm_items cm) @ calls items"
  "outputs (cm_items (record_items items policy cm)) = outputs (cm_items cm) @ outputs items"
proof -
  have "calls (map (process_item policy) (filter is_api_message items)) = calls items \<and>
      outputs (map (process_item policy) (filter is_api_message items)) = outputs items"
  proof (induction items)
    case (Cons i items)
    then show ?case
      by (cases "is_api_message i")
        (auto simp: calls_def outputs_def map_filter_Cons keyless_not_api split: option.splits)
  qed (simp add: calls_def outputs_def)
  then show "calls (cm_items (record_items items policy cm)) = calls (cm_items cm) @ calls items"
    "outputs (cm_items (record_items items policy cm)) = outputs (cm_items cm) @ outputs items"
    by (simp_all add: record_items_eq) (simp_all add: calls_def outputs_def)
qed

lemma remove_first_balanced: "balanced (cm_items cm) \<Longrightarrow> balanced (cm_items (remove_first_item cm))"
  using remove_pair_balanced [of "tl (cm_items cm)" "hd (cm_items cm)"] keys_split [of "[]" "hd (cm_items cm)" "tl (cm_items cm)"]
  by (cases "cm_items cm") (simp_all add: remove_first_item_def balanced_def)

lemma remove_last_balanced: "balanced (cm_items cm) \<Longrightarrow> balanced (cm_items (fst (remove_last_item cm)))"
  using remove_pair_balanced [of "butlast (cm_items cm)" "last (cm_items cm)"]
    keys_split [of "butlast (cm_items cm)" "last (cm_items cm)" "[]"]
  by (cases "cm_items cm = []") (simp_all add: remove_last_item_def balanced_def bump_version_def)

section \<open>Turns\<close>

lemma trim_walk_spec:
  assumes "trim_walk ext snapshot first cleared cut0 = (cut1, cleared')" "first \<le> cut0" "cut0 \<le> length snapshot"
  shows "first \<le> cut1 \<and> cut1 \<le> cut0 \<and> (\<forall>i. cut1 \<le> i \<and> i < cut0 \<longrightarrow> \<not> is_user_turn_boundary ext (snapshot ! i))"
  using assms
proof (induction ext snapshot first cleared cut0 rule: trim_walk.induct)
  case (1 ext snapshot first cleared cut0)
  show ?case
  proof (cases "first < cut0")
    case False
    with 1 show ?thesis by (auto simp: trim_walk.simps [of _ _ _ _ cut0])
  next
    case True
    show ?thesis
    proof (cases "\<exists>i role content ph. snapshot ! (cut0 - 1) = Message i role content ph")
      case False
      with True "1.prems" have "cut1 = cut0"
        by (cases "snapshot ! (cut0 - 1)") (auto simp: trim_walk.simps [of _ _ _ _ cut0])
      with "1.prems" show ?thesis by auto
    next
      case msg: True
      then obtain i role content ph where m: "snapshot ! (cut0 - 1) = Message i role content ph" by blast
      let ?dev = "role = ''developer'' \<and> is_contextual_dev_message_content content"
      let ?user = "role = ''user'' \<and> is_contextual_user_message_content (from_xml_str ext) content"
      show ?thesis
      proof (cases "?dev \<or> ?user")
        case False
        with True m "1.prems" have "cut1 = cut0" by (auto simp: trim_walk.simps [of _ _ _ _ cut0] split: if_splits)
        with "1.prems" show ?thesis by auto
      next
        case ctx: True
        have nb: "\<not> is_user_turn_boundary ext (snapshot ! (cut0 - 1))"
          using ctx unfolding m by (auto simp: is_user_turn_boundary_def)
        have "first \<le> cut1 \<and> cut1 \<le> cut0 - 1 \<and> (\<forall>i. cut1 \<le> i \<and> i < cut0 - 1 \<longrightarrow> \<not> is_user_turn_boundary ext (snapshot ! i))"
        proof (cases ?dev)
          case dev: True
          with True m "1.prems"(1)
          have "trim_walk ext snapshot first (cleared \<or> has_non_contextual_dev_message_content content) (cut0 - 1) = (cut1, cleared')"
            by (simp add: trim_walk.simps [of _ _ _ _ cut0])
          from "1.IH"(1) [OF True m dev this] True "1.prems"(3) show ?thesis by simp
        next
          case dev: False
          with ctx have user: ?user by simp
          with dev True m "1.prems"(1) have "trim_walk ext snapshot first cleared (cut0 - 1) = (cut1, cleared')"
            by (auto simp: trim_walk.simps [of _ _ _ _ cut0])
          from "1.IH"(2) [OF True m dev user this] True "1.prems"(3) show ?thesis by simp
        qed
        moreover have "i < cut0 - 1 \<or> i = cut0 - 1" if "i < cut0" for i using that by linarith
        ultimately show ?thesis using nb by fastforce
      qed
    qed
  qed
qed

lemma positions_take:
  "c \<le> length items \<Longrightarrow> user_message_positions ext (take c items) = filter (\<lambda>i. i < c) (user_message_positions ext items)"
proof -
  assume c: "c \<le> length items"
  then have split: "[0..<length items] = [0..<c] @ [c..<length items]" by (metis le_add_diff_inverse upt_add_eq_append le0)
  have "filter (\<lambda>i. is_user_turn_boundary ext (take c items ! i)) [0..<c] =
      filter (\<lambda>i. is_user_turn_boundary ext (items ! i)) [0..<c]"
    by (rule filter_cong) auto
  moreover have "filter (\<lambda>i. i < c) (filter (\<lambda>i. is_user_turn_boundary ext (items ! i)) [c..<length items]) = []"
    by (auto simp: filter_empty_conv)
  moreover have "filter (\<lambda>i. i < c) (filter (\<lambda>i. is_user_turn_boundary ext (items ! i)) [0..<c]) =
      filter (\<lambda>i. is_user_turn_boundary ext (items ! i)) [0..<c]"
    by (rule filter_True) auto
  ultimately show ?thesis using c by (simp add: user_message_positions_def split min_absorb2 del: filter_filter)
qed

lemma positions_sorted: "sorted_wrt (<) (user_message_positions ext items)"
  by (simp add: user_message_positions_def sorted_wrt_filter)

lemma positions_bound: "i \<in> set (user_message_positions ext items) \<Longrightarrow> i < length items \<and> is_user_turn_boundary ext (items ! i)"
  by (auto simp: user_message_positions_def)

lemma filter_below_nth:
  "sorted_wrt (<) ps \<Longrightarrow> k < length ps \<Longrightarrow> filter (\<lambda>i. i < ps ! k) ps = take k ps" for ps :: "nat list"
proof -
  assume s: "sorted_wrt (<) ps" and k: "k < length ps"
  have "filter (\<lambda>i. i < ps ! k) (take k ps) = take k ps"
    using s k by (intro filter_True) (auto simp: in_set_conv_nth sorted_wrt_iff_nth_less)
  moreover have "filter (\<lambda>i. i < ps ! k) (drop k ps) = []"
    using s k by (auto simp: filter_empty_conv in_set_conv_nth) (metis le_add1 less_diff_conv add.commute linorder_not_less order_le_less sorted_wrt_iff_nth_less order_less_asym)
  ultimately show ?thesis by (metis append_Nil2 append_take_drop_id filter_append)
qed

definition until_first_turn :: "'j externals \<Rightarrow> 'j ResponseItem list \<Rightarrow> 'j ResponseItem list" where
  "until_first_turn ext items = takeWhile (\<lambda>i. \<not> is_user_turn_boundary ext i) items"

lemma until_first_turn_positions:
  assumes "user_message_positions ext items = p # ps"
  shows "until_first_turn ext items = take p items"
proof -
  have p: "p < length items" "is_user_turn_boundary ext (items ! p)"
    using positions_bound [of p ext items] assms by simp_all
  have "\<not> is_user_turn_boundary ext (items ! i)" if "i < p" for i
  proof
    assume "is_user_turn_boundary ext (items ! i)"
    then have "i \<in> set (p # ps)" using that p assms [symmetric] by (simp add: user_message_positions_def)
    with positions_sorted [of ext items] that assms show False by auto
  qed
  then show ?thesis unfolding until_first_turn_def using p by (intro takeWhile_eq_take_P_nth) auto
qed

lemma no_positions: "user_message_positions ext items = [] \<Longrightarrow> until_first_turn ext items = items"
proof -
  assume "user_message_positions ext items = []"
  then have "\<not> is_user_turn_boundary ext x" if "x \<in> set items" for x
    using that by (auto simp: user_message_positions_def filter_empty_conv in_set_conv_nth)
  then show ?thesis by (simp add: until_first_turn_def takeWhile_eq_all_conv)
qed

text \<open>The cut of a rollback that drops something.\<close>

lemma drop_turns_cut:
  assumes "0 < n" "user_message_positions ext (cm_items cm) = p # ps"
  obtains c where "cm_items (drop_last_n_user_turns ext n cm) = take c (cm_items cm)"
    "p \<le> c" "c \<le> length (cm_items cm)"
    "filter (\<lambda>i. i < c) (p # ps) = take (length (p # ps) - n) (p # ps)"
proof -
  let ?items = "cm_items cm"
  define cut0 where "cut0 = (if length (p # ps) \<le> n then p else (p # ps) ! (length (p # ps) - n))"
  define k where "k = length (p # ps) - n"
  have k: "k < length (p # ps)" "cut0 = (p # ps) ! k" using assms(1) by (auto simp: k_def cut0_def)
  have sorted: "sorted_wrt (<) (p # ps)" using positions_sorted [of ext ?items] assms(2) by simp
  have "cut0 \<in> set (p # ps)" unfolding k(2) using k(1) by (rule nth_mem)
  then have cut0: "p \<le> cut0" "cut0 < length ?items"
    using sorted positions_bound [of cut0 ext ?items] assms(2) by auto
  obtain c cleared where w: "trim_walk ext ?items p False cut0 = (c, cleared)" by fastforce
  from trim_walk_spec [OF w cut0(1)] cut0(2)
  have c: "p \<le> c" "c \<le> cut0" "\<And>i. c \<le> i \<Longrightarrow> i < cut0 \<Longrightarrow> \<not> is_user_turn_boundary ext (?items ! i)" by auto
  have "i < c \<longleftrightarrow> i < cut0" if "i \<in> set (p # ps)" for i
  proof -
    have "is_user_turn_boundary ext (?items ! i)" using positions_bound [of i ext ?items] that assms(2) by simp
    with c(2) c(3) [of i] show ?thesis by (cases "i < c") auto
  qed
  then have "filter (\<lambda>i. i < c) (p # ps) = filter (\<lambda>i. i < cut0) (p # ps)" by (rule filter_cong [OF refl])
  also have "\<dots> = take k (p # ps)" unfolding k(2) by (rule filter_below_nth [OF sorted k(1)])
  finally have "filter (\<lambda>i. i < c) (p # ps) = take (length (p # ps) - n) (p # ps)" by (simp only: k_def)
  moreover have "cm_items (drop_last_n_user_turns ext n cm) = take c ?items"
  proof -
    have "drop_last_n_user_turns ext n cm =
        (case trim_pre_turn_context_updates ext ?items p cut0 cm of (cm', c') \<Rightarrow> cm_replace (take c' ?items) cm')"
      using assms(1) unfolding drop_last_n_user_turns_def assms(2) cut0_def by (simp add: Let_def assms(2))
    with w show ?thesis by (simp add: trim_pre_turn_context_updates_def cm_replace_def bump_version_def)
  qed
  ultimately show ?thesis using c cut0 by (intro that [of c]) auto
qed

section \<open>Sums\<close>

lemma i64_of_usize_range: "0 \<le> i64_of_usize n \<and> i64_of_usize n \<le> i64_max"
  by (simp add: i64_of_usize_def i64_max_def)

lemma token_estimate_range: "0 \<le> estimate_item_token_count ext item \<and> estimate_item_token_count ext item \<le> i64_max"
  using i64_of_usize_range by (simp add: estimate_item_token_count_def approx_tokens_from_byte_count_i64_def i64_max_def)

text \<open>Saturating addition of counts is their sum, capped.\<close>

lemma sat_sum_eq:
  assumes "\<And>x. x \<in> set xs \<Longrightarrow> 0 \<le> f x"
  shows "sat_sum f xs = min i64_max (sum_list (map f xs))"
proof -
  have "foldl i64_saturating_add a ys = min i64_max (a + sum_list ys)"
    if "0 \<le> a" "a \<le> i64_max" "\<forall>y\<in>set ys. 0 \<le> y" for a ys
    using that
  proof (induction ys arbitrary: a)
    case (Cons y ys)
    have add: "i64_saturating_add a y = min i64_max (a + y)"
      using Cons.prems by (simp add: i64_saturating_add_def i64_clamp_def i64_min_def i64_max_def)
    have "0 \<le> min i64_max (a + y)" using Cons.prems by (simp add: i64_max_def)
    from Cons.IH [OF this] Cons.prems have "foldl i64_saturating_add a (y # ys) = min i64_max (min i64_max (a + y) + sum_list ys)"
      by (simp add: add)
    moreover have "0 \<le> sum_list ys" using Cons.prems by (simp add: sum_list_nonneg)
    ultimately show ?case by (simp add: min_def)
  qed simp
  from this [of 0 "map f xs"] assms show ?thesis by (simp add: sat_sum_def i64_max_def)
qed

lemma sat_sum_tokens:
  "sat_sum (estimate_item_token_count ext) items = min i64_max (sum_list (map (estimate_item_token_count ext) items))"
  using token_estimate_range by (intro sat_sum_eq) blast

lemma sat_sum_tokens_range:
  "0 \<le> sat_sum (estimate_item_token_count ext) items \<and> sat_sum (estimate_item_token_count ext) items \<le> i64_max"
proof -
  have "0 \<le> sum_list (map (estimate_item_token_count ext) items)"
    using token_estimate_range by (intro sum_list_nonneg) auto
  then show ?thesis by (simp add: sat_sum_tokens i64_max_def)
qed

section \<open>Properties\<close>


text \<open>C18: Dropping the oldest or the newest item keeps calls and outputs in pairs: each key occurs as often among the
  calls as among the outputs, so no call loses its output and no output its call.\<close>

theorem remove_item_keeps_pairs:
  assumes "balanced (cm_items cm)"
  shows "balanced (cm_items (remove_first_item cm)) \<and> balanced (cm_items (fst (remove_last_item cm))) \<and>
    calls_answered (cm_items (remove_first_item cm)) \<and> no_orphans (cm_items (remove_first_item cm))"
  using remove_first_balanced [OF assms] remove_last_balanced [OF assms] balanced_answered by blast

theorem remove_item_keeps_pairs_witness:
  "let cm = (cm_new :: (unit, unit) ContextManager)\<lparr>cm_items :=
      [FunctionCall None ''f'' None ''{}'' ''c1'', OtherItem, FunctionCallOutput ''c1'' aborted]\<rparr> in
   balanced (cm_items (remove_first_item cm)) \<and> cm_items (remove_first_item cm) = [OtherItem]"
proof -
  define cm where "cm = (cm_new :: (unit, unit) ContextManager)\<lparr>cm_items :=
      [FunctionCall None ''f'' None ''{}'' ''c1'', OtherItem, FunctionCallOutput ''c1'' aborted]\<rparr>"
  have "balanced (cm_items cm)"
    by (simp add: cm_def balanced_def calls_def outputs_def map_filter_Cons call_key_of_def output_key_of_def)
  moreover have "cm_items (remove_first_item cm) = [OtherItem]"
    by (simp add: cm_def remove_first_item_def remove_corresponding_for_def remove_first_matching_def
        is_function_output_def vec_remove_def)
  ultimately show ?thesis
    using remove_item_keeps_pairs [of cm] by (simp add: cm_def Let_def)
qed

text \<open>Recording appends the items a model may see, with long outputs shortened and nothing else changed; the keys of
  calls and outputs are those of the recorded items, so recording whole pairs keeps the history in pairs.\<close>

theorem record_items_spec:
  "cm_items (record_items items policy cm) = cm_items cm @ map (process_item policy) (filter is_api_message items) \<and>
   calls (cm_items (record_items items policy cm)) = calls (cm_items cm) @ calls items \<and>
   outputs (cm_items (record_items items policy cm)) = outputs (cm_items cm) @ outputs items"
  by (simp add: record_items_eq [symmetric] record_items_keys)

text \<open>The items after the last one with a property, none if there is no such item, and the items before it.\<close>

definition after_last :: "('a \<Rightarrow> bool) \<Rightarrow> 'a list \<Rightarrow> 'a list" where
  "after_last P xs = (if list_ex P xs then rev (takeWhile (\<lambda>x. \<not> P x) (rev xs)) else [])"

definition before_last :: "('a \<Rightarrow> bool) \<Rightarrow> 'a list \<Rightarrow> 'a list" where
  "before_last P xs = rev (tl (dropWhile (\<lambda>x. \<not> P x) (rev xs)))"

lemma rposition_parts:
  "rposition P xs = None \<Longrightarrow> after_last P xs = [] \<and> before_last P xs = []"
  "rposition P xs = Some i \<Longrightarrow> i < length xs \<and> after_last P xs = drop (Suc i) xs \<and> before_last P xs = take i xs"
proof -
  show "rposition P xs = None \<Longrightarrow> after_last P xs = [] \<and> before_last P xs = []"
    by (auto simp: rposition_def position_None_iff after_last_def before_last_def list_ex_iff dropWhile_eq_Nil_conv [THEN iffD2])
  assume "rposition P xs = Some i"
  then obtain k where k: "position P (rev xs) = Some k" "i = length xs - 1 - k" by (auto simp: rposition_def)
  from position_split [OF k(1)] obtain ys y zs where rev: "rev xs = ys @ y # zs" "length ys = k" "P y" "\<forall>x\<in>set ys. \<not> P x" by blast
  then have xs: "xs = rev zs @ y # rev ys" by (metis rev_rev_ident rev_append rev.simps(2) append.assoc append_Cons append_Nil)
  then have "i = length zs" using k(2) rev(2) by simp
  then show "i < length xs \<and> after_last P xs = drop (Suc i) xs \<and> before_last P xs = take i xs"
    using rev by (simp add: xs after_last_def before_last_def)
qed

fun encrypted_reasoning :: "'j ResponseItem \<Rightarrow> bool" where
  "encrypted_reasoning (Reasoning _ _ _ (Some _)) = True"
| "encrypted_reasoning _ = False"

text \<open>C38: The total token estimate is the count the server reported last, plus the estimates of the items added
  since the last one the model generated, plus, when the server does not count it, those of the encrypted
  reasoning before the last turn; the sum is capped at the largest \<open>i64\<close> instead of overflowing.  (The
  reported count is not negative and the history no longer than a vector can be.)\<close>

theorem token_usage_total:
  assumes "\<And>info. token_info cm = Some info \<Longrightarrow> 0 \<le> total_tokens (last_token_usage info) \<and> total_tokens (last_token_usage info) \<le> i64_max"
    and "length (cm_items cm) \<le> usize_max"
  shows "get_total_token_usage ext included cm = min i64_max
    ((case token_info cm of Some info \<Rightarrow> total_tokens (last_token_usage info) | None \<Rightarrow> 0) +
     (if included then 0
      else \<Sum>item\<leftarrow>filter encrypted_reasoning (before_last (is_user_turn_boundary ext) (cm_items cm)). estimate_item_token_count ext item) +
     (\<Sum>item\<leftarrow>after_last is_model_generated_item (cm_items cm). estimate_item_token_count ext item))"
proof -
  let ?E = "estimate_item_token_count ext" and ?items = "cm_items cm"
  define lt where "lt = (case token_info cm of Some info \<Rightarrow> total_tokens (last_token_usage info) | None \<Rightarrow> 0)"
  have lt: "0 \<le> lt" "lt \<le> i64_max" using assms(1) by (auto simp: lt_def i64_max_def split: option.splits)
  have nonneg: "0 \<le> sum_list (map ?E xs)" for xs using token_estimate_range by (intro sum_list_nonneg) auto
  have "(\<lambda>item :: 'a ResponseItem. case item of Reasoning _ _ _ (Some _) \<Rightarrow> True | _ \<Rightarrow> False) = encrypted_reasoning"
    by (auto simp: fun_eq_iff split: ResponseItem.splits option.splits)
  then have reasoning: "get_non_last_reasoning_items_tokens ext cm =
      min i64_max (sum_list (map ?E (filter encrypted_reasoning (before_last (is_user_turn_boundary ext) ?items))))"
    by (cases "rposition (is_user_turn_boundary ext) ?items")
      (auto simp: get_non_last_reasoning_items_tokens_def sat_sum_tokens i64_max_def dest: rposition_parts)
  have "items_after_last_model_generated_item cm = after_last is_model_generated_item ?items"
  proof (cases "rposition is_model_generated_item ?items")
    case (Some i)
    from rposition_parts(2) [OF this] assms(2) have "saturating_add i 1 = Suc i" by (simp add: saturating_add_def)
    with Some rposition_parts(2) [OF Some] show ?thesis by (simp add: items_after_last_model_generated_item_def)
  qed (simp add: items_after_last_model_generated_item_def rposition_parts)
  then have recent: "sat_sum ?E (items_after_last_model_generated_item cm) = min i64_max (sum_list (map ?E (after_last is_model_generated_item ?items)))"
    by (simp add: sat_sum_tokens)
  have add: "i64_saturating_add a b = min i64_max (a + b)" if "0 \<le> a" "0 \<le> b" for a b
    using that by (simp add: i64_saturating_add_def i64_clamp_def i64_min_def i64_max_def)
  have "i64_max > 0" by (simp add: i64_max_def)
  with lt nonneg [of "filter encrypted_reasoning (before_last (is_user_turn_boundary ext) ?items)"]
    nonneg [of "after_last is_model_generated_item ?items"] show ?thesis
    unfolding get_total_token_usage_def Let_def recent reasoning lt_def [symmetric] by (simp add: add min_def)
qed

text \<open>A history in which everything counts: reasoning of the first turn, and a message after the last answer.\<close>

definition counting_externals :: "unit externals" where
  "counting_externals = \<lparr>from_xml_str = \<lambda>_. None, is_inter_agent_json = \<lambda>_. False, json_len = \<lambda>_. Some 10, image_size = \<lambda>_. None\<rparr>"

definition counted_history :: "(unit, unit) ContextManager" where
  "counted_history = (set_token_usage_full 5 cm_new)\<lparr>cm_items :=
    [Message None ''user'' [InputText ''a''] None, Reasoning ''r'' [] None (Some (replicate 1000 (CHR ''x''))),
     Message None ''assistant'' [OutputText ''b''] None, Message None ''user'' [InputText ''c''] None]\<rparr>"

theorem token_usage_total_witness:
  "get_total_token_usage counting_externals True counted_history = 8 \<and>
   get_total_token_usage counting_externals False counted_history > 8"
proof -
  have info: "token_info counted_history = Some (full_context_window 5)" "length (cm_items counted_history) \<le> usize_max"
    by (simp_all add: counted_history_def set_token_usage_full_def cm_new_def new_or_append_def usize_max_def)
  have full: "total_tokens (last_token_usage (full_context_window 5)) = 5" by code_simp
  have recent: "after_last is_model_generated_item (cm_items counted_history) = [Message None ''user'' [InputText ''c''] None]" by code_simp
  have "\<not> is_contextual_user_fragment (\<lambda>_. None) (InputText ''c'')" by code_simp
  then have "before_last (is_user_turn_boundary counting_externals) (cm_items counted_history) =
      [Message None ''user'' [InputText ''a''] None, Reasoning ''r'' [] None (Some (replicate 1000 (CHR ''x''))), Message None ''assistant'' [OutputText ''b''] None]"
    by (simp add: before_last_def counted_history_def is_user_turn_boundary_def counting_externals_def is_contextual_user_message_content_def
        is_inter_agent_instruction_content_def)
  then have reasoning: "filter encrypted_reasoning (before_last (is_user_turn_boundary counting_externals) (cm_items counted_history)) =
      [Reasoning ''r'' [] None (Some (replicate 1000 (CHR ''x'')))]" by simp
  have parts: "estimate_item_token_count counting_externals (Message None ''user'' [InputText ''c''] None) = 3" by code_simp
  have "0 < estimate_item_token_count counting_externals (Reasoning ''r'' [] None (Some (replicate 1000 (CHR ''x''))))"
    by (simp add: estimate_item_token_count_def estimate_response_item_model_visible_bytes_def estimate_reasoning_length_def
        approx_tokens_from_byte_count_i64_def i64_of_usize_def i64_max_def saturating_mul_def saturating_add_def usize_max_def approx_tokens_from_byte_count_def APPROX_BYTES_PER_TOKEN_def)
  from token_usage_total [of counted_history counting_externals] info full parts this show ?thesis
    by (auto simp: recent reasoning i64_max_def min_def)
qed

end
