(* ===== verification/Rules_File.thy ===== *)
theory Rules_File
  imports Exec_Policy Utf8
begin

text \<open>
  Appending rules to a policy file (execpolicy/src/amend.rs).  The state is the contents of the file,
  \<open>None\<close> while it does not exist.  Every system call can fail: \<open>append_fault\<close> says which one does, and
  for the write of the line how many bytes reach the file first.  The source errors of an
  \<open>AmendError\<close> are left out.  \<open>serde_json::to_string\<close> on strings is a parameter.
\<close>

section \<open>Operations\<close>

datatype AmendError =
    EmptyPrefix
  | InvalidNetworkRule string
  | MissingParent string
  | CreatePolicyDir string
  | SerializePrefix
  | SerializeNetworkRule
  | OpenPolicyFile string
  | WritePolicyFile string
  | LockPolicyFile string
  | SeekPolicyFile string
  | ReadPolicyFile string
  | PolicyMetadata string

datatype append_fault =
    FailCreateDir
  | FailOpen
  | FailLock
  | FailSeek
  | FailRead
  | FailWriteNewline
  | FailWriteLine nat

definition file_text :: "string option \<Rightarrow> string" where
  "file_text file = (case file of Some c \<Rightarrow> c | None \<Rightarrow> [])"

definition append_locked_line ::
  "append_fault option \<Rightarrow> string \<Rightarrow> string \<Rightarrow> string option \<Rightarrow> string option \<times> (AmendError, unit) result" where
  "append_locked_line fault policy_path line file =
    (if fault = Some FailOpen then (file, Err (OpenPolicyFile policy_path))
     else
       (let contents = file_text file;
            newline = contents \<noteq> [] \<and> \<not> ends_with [LF] contents;
            contents1 = (if newline then contents @ [LF] else contents) in
        if fault = Some FailLock then (Some contents, Err (LockPolicyFile policy_path))
        else if fault = Some FailSeek then (Some contents, Err (SeekPolicyFile policy_path))
        else if fault = Some FailRead \<or> from_utf8 contents \<noteq> Utf8Valid
        then (Some contents, Err (ReadPolicyFile policy_path))
        else if list_ex (\<lambda>existing. existing = line) (str_lines contents) then (Some contents, Ok ())
        else if newline \<and> fault = Some FailWriteNewline then (Some contents, Err (WritePolicyFile policy_path))
        else (case fault of
                Some (FailWriteLine n) \<Rightarrow> (Some (contents1 @ take n (line @ [LF])), Err (WritePolicyFile policy_path))
              | _ \<Rightarrow> (Some (contents1 @ line @ [LF]), Ok ()))))"

definition append_rule_line ::
  "append_fault option \<Rightarrow> string \<Rightarrow> string \<Rightarrow> string option \<Rightarrow> string option \<times> (AmendError, unit) result" where
  "append_rule_line fault policy_path rule_line file =
    (case path_parent policy_path of
       None \<Rightarrow> (file, Err (MissingParent policy_path))
     | Some dir \<Rightarrow>
         if fault = Some FailCreateDir then (file, Err (CreatePolicyDir dir))
         else append_locked_line fault policy_path rule_line file)"

text \<open>The line of an allow rule, and of a network rule.\<close>

fun json_strings :: "(string \<Rightarrow> string option) \<Rightarrow> string list \<Rightarrow> string list option" where
  "json_strings json [] = Some []"
| "json_strings json (t # ts) =
    (case json t of None \<Rightarrow> None | Some s \<Rightarrow> map_option ((#) s) (json_strings json ts))"

definition allow_rule_line :: "string list \<Rightarrow> string" where
  "allow_rule_line tokens =
    ''prefix_rule(pattern='' @ ''['' @ join_with '', '' tokens @ '']'' @ '', decision='' @ [CHR 0x22] @ ''allow'' @ [CHR 0x22] @ '')''"

definition blocking_append_allow_prefix_rule ::
  "(string \<Rightarrow> string option) \<Rightarrow> append_fault option \<Rightarrow> string \<Rightarrow> string list \<Rightarrow> string option \<Rightarrow>
   string option \<times> (AmendError, unit) result" where
  "blocking_append_allow_prefix_rule json fault policy_path prefix_tokens file =
    (if prefix_tokens = [] then (file, Err EmptyPrefix)
     else (case json_strings json prefix_tokens of
        None \<Rightarrow> (file, Err SerializePrefix)
      | Some tokens \<Rightarrow> append_rule_line fault policy_path (allow_rule_line tokens) file))"

fun network_decision_str :: "Decision \<Rightarrow> string" where
  "network_decision_str Allow = ''allow''"
| "network_decision_str Prompt = ''prompt''"
| "network_decision_str Forbidden = ''deny''"

fun policy_error_str :: "policy_error \<Rightarrow> string" where
  "policy_error_str (InvalidDecision m) = ''invalid decision: '' @ m"
| "policy_error_str (InvalidPattern m) = ''invalid pattern element: '' @ m"
| "policy_error_str (InvalidRule m) = ''invalid rule: '' @ m"

definition network_rule_args ::
  "(string \<Rightarrow> string option) \<Rightarrow> string \<Rightarrow> NetworkRuleProtocol \<Rightarrow> Decision \<Rightarrow> string option \<Rightarrow> string list option" where
  "network_rule_args json host protocol d justification =
    (case (json host, json (as_policy_string protocol), json (network_decision_str d)) of
       (Some h, Some p, Some d) \<Rightarrow>
         (case justification of
            None \<Rightarrow> Some [''host='' @ h, ''protocol='' @ p, ''decision='' @ d]
          | Some j \<Rightarrow>
              map_option (\<lambda>j. [''host='' @ h, ''protocol='' @ p, ''decision='' @ d, ''justification='' @ j]) (json j))
     | _ \<Rightarrow> None)"

definition network_rule_line :: "string list \<Rightarrow> string" where
  "network_rule_line args = ''network_rule('' @ join_with '', '' args @ '')''"

definition blocking_append_network_rule ::
  "(string \<Rightarrow> string option) \<Rightarrow> append_fault option \<Rightarrow> string \<Rightarrow> string \<Rightarrow> NetworkRuleProtocol \<Rightarrow> Decision \<Rightarrow>
   string option \<Rightarrow> string option \<Rightarrow> string option \<times> (AmendError, unit) result" where
  "blocking_append_network_rule json fault policy_path host protocol d justification file =
    (case normalize_network_rule_host host of
       Err e \<Rightarrow> (file, Err (InvalidNetworkRule (policy_error_str e)))
     | Ok host \<Rightarrow>
         if (case justification of Some raw \<Rightarrow> trim raw = [] | None \<Rightarrow> False)
         then (file, Err (InvalidNetworkRule ''justification cannot be empty''))
         else (case network_rule_args json host protocol d justification of
            None \<Rightarrow> (file, Err SerializeNetworkRule)
          | Some args \<Rightarrow> append_rule_line fault policy_path (network_rule_line args) file))"

section \<open>Lines of a growing file\<close>

lemma split_char_mid: "split_char d (s @ d # t) = split_char d s @ split_char d t"
  by (induction s) (auto split: list.splits)

lemma last_split_Nil: "last (split_char d s) = [] \<longleftrightarrow> s = [] \<or> (\<exists>r. s = r @ [d])"
proof (cases "d \<in> set s")
  case True
  then obtain r t where s: "s = r @ d # t" "d \<notin> set t" by (meson split_list_last)
  then have "(\<exists>r. s = r @ [d]) \<longleftrightarrow> t = []" by (cases t rule: rev_cases) auto
  with s show ?thesis by (simp add: split_char_mid)
qed auto

definition ended :: "string \<Rightarrow> bool" where
  "ended c \<longleftrightarrow> c = [] \<or> ends_with [LF] c"

lemma ended_last: "ended c \<longleftrightarrow> last (split_char LF c) = []"
  by (auto simp: ended_def last_split_Nil ends_with_iff_suffix)

lemma str_lines_end: "str_lines (c @ LF # t) = map strip_cr (split_char LF c) @ str_lines t"
  by (simp add: str_lines_def split_char_mid butlast_append Let_def)

lemma str_lines_ended: "ended c \<Longrightarrow> str_lines (c @ t) = str_lines c @ str_lines t"
  by (auto simp: ended_def ends_with_iff_suffix str_lines_end) (auto simp: str_lines_def)

lemma strip_cr_id: "\<not> ends_with [CR] l \<Longrightarrow> strip_cr l = l"
  by (auto simp: strip_cr_def strip_suffix_def ends_with_def split: option.splits)

lemma str_lines_line: "LF \<notin> set l \<Longrightarrow> str_lines (l @ [LF]) = [strip_cr l]"
  using str_lines_end [of l "[]"] by (simp add: str_lines_def)

lemma lines_newline:
  assumes "l \<in> set (str_lines c)" "\<not> ends_with [CR] l"
  shows "l \<in> set (str_lines (c @ [LF]))"
proof -
  let ?ps = "split_char LF c"
  from assms(1) have "l \<in> strip_cr ` set (butlast ?ps) \<or> l = last ?ps"
    by (auto simp: str_lines_def Let_def split: if_splits)
  then consider "l \<in> strip_cr ` set (butlast ?ps)" | "l = last ?ps" by blast
  then have "l \<in> strip_cr ` set ?ps"
  proof cases
    case 1
    then show ?thesis by (auto dest: in_set_butlastD)
  next
    case 2
    then show ?thesis using strip_cr_id [OF assms(2)] by (intro image_eqI [of _ _ l]) simp_all
  qed
  then show ?thesis by (simp add: str_lines_end)
qed

text \<open>What an append leaves behind: the old text, closed by a newline where one was missing, and more.\<close>

definition with_newline :: "string \<Rightarrow> string" where
  "with_newline c = (if ended c then c else c @ [LF])"

lemma ended_with_newline: "ended (with_newline c)"
  by (simp add: with_newline_def ended_def ends_with_iff_suffix)

definition grown :: "string \<Rightarrow> string \<Rightarrow> bool" where
  "grown c c' \<longleftrightarrow> c' = c \<or> (\<exists>t. c' = with_newline c @ t)"

lemma grown_lines:
  assumes "grown c c'" "l \<in> set (str_lines c)" "\<not> ends_with [CR] l"
  shows "l \<in> set (str_lines c')"
proof -
  consider "c' = c" | t where "ended c" "c' = c @ t" | t where "c' = (c @ [LF]) @ t"
    using assms(1) unfolding grown_def with_newline_def by (metis (full_types))
  then show ?thesis
  proof cases
    case 2
    then show ?thesis using str_lines_ended [of c t] assms(2) by simp
  next
    case 3
    have "ended (c @ [LF])" by (simp add: ended_def ends_with_iff_suffix)
    then have "str_lines c' = str_lines (c @ [LF]) @ str_lines t" unfolding 3 by (rule str_lines_ended)
    then show ?thesis using lines_newline [OF assms(2,3)] by simp
  qed (use assms in simp)
qed

lemma grown_prefix: "grown c c' \<Longrightarrow> prefix c c'"
  by (auto simp: grown_def with_newline_def split: if_splits)

lemma grown_refl: "grown c c"
  by (simp add: grown_def)

lemma append_locked_line_grown: "grown (file_text file) (file_text (fst (append_locked_line fault path line file)))"
proof -
  have some: "file_text (Some c) = c" for c by (simp add: file_text_def)
  have unended: "(file_text file \<noteq> [] \<and> \<not> ends_with [LF] (file_text file)) \<longleftrightarrow> \<not> ended (file_text file)"
    by (simp add: ended_def)
  have app: "ended c \<Longrightarrow> grown c (c @ t)" "\<not> ended c \<Longrightarrow> grown c (c @ LF # t)" for c t
    by (simp_all add: grown_def with_newline_def)
  show ?thesis
    unfolding append_locked_line_def Let_def unended
    by (simp add: some grown_refl app split: append_fault.split option.split)
qed

lemma append_locked_line_Ok:
  assumes "append_locked_line fault path line file = (file', Ok ())"
  shows "from_utf8 (file_text file) = Utf8Valid \<and>
    (line \<in> set (str_lines (file_text file)) \<and> file' = Some (file_text file) \<or>
     file' = Some (with_newline (file_text file) @ line @ [LF]))"
  using assms
  by (auto simp: append_locked_line_def Let_def ended_def with_newline_def list_ex_iff split: if_splits append_fault.splits option.splits)

lemma append_rule_line_grown: "grown (file_text file) (file_text (fst (append_rule_line fault path line file)))"
  using append_locked_line_grown by (auto simp: append_rule_line_def grown_refl split: option.splits)

lemma append_locked_line_Ok_line:
  assumes "append_locked_line fault path line file = (file', Ok ())" "LF \<notin> set line" "\<not> ends_with [CR] line"
  shows "line \<in> set (str_lines (file_text file'))"
  using append_locked_line_Ok [OF assms(1)] str_lines_ended [OF ended_with_newline, of "file_text file" "line @ [LF]"]
    str_lines_line [OF assms(2)] strip_cr_id [OF assms(3)]
  by (auto simp: file_text_def)

lemma append_rule_line_Ok:
  assumes "append_rule_line fault path line file = (file', Ok ())" "LF \<notin> set line" "\<not> ends_with [CR] line"
  shows "line \<in> set (str_lines (file_text file'))"
proof -
  have "append_locked_line fault path line file = (file', Ok ())"
    using assms(1) by (auto simp: append_rule_line_def split: option.splits if_splits)
  then show ?thesis by (rule append_locked_line_Ok_line) (rule assms)+
qed

text \<open>Appending the same line again changes nothing.\<close>

lemma append_locked_line_again:
  assumes "line \<in> set (str_lines (file_text file))" "from_utf8 (file_text file) = Utf8Valid"
  shows "append_locked_line None path line file = (Some (file_text file), Ok ())"
  using assms by (simp add: append_locked_line_def Let_def list_ex_iff)

lemma from_utf8_both: "from_utf8 s = Utf8Valid \<Longrightarrow> from_utf8 t = Utf8Valid \<Longrightarrow> from_utf8 (s @ t) = Utf8Valid"
  by (simp add: from_utf8_valid_append shift_error_def del: from_utf8.simps)

lemma append_locked_line_utf8:
  assumes "append_locked_line fault path line file = (file', Ok ())" "from_utf8 line = Utf8Valid"
  shows "from_utf8 (file_text file') = Utf8Valid"
proof -
  have nl: "from_utf8 [LF] = Utf8Valid" by code_simp
  then have "from_utf8 (with_newline c) = Utf8Valid" if "from_utf8 c = Utf8Valid" for c
    using that from_utf8_both [of c "[LF]"] unfolding with_newline_def by presburger
  moreover have "from_utf8 (line @ [LF]) = Utf8Valid"
    using nl assms(2) from_utf8_both [of line "[LF]"] by presburger
  ultimately have "from_utf8 (with_newline c @ line @ [LF]) = Utf8Valid" if "from_utf8 c = Utf8Valid" for c
    using that from_utf8_both [of "with_newline c" "line @ [LF]"] by presburger
  with append_locked_line_Ok [OF assms(1)] show ?thesis by (auto simp: file_text_def)
qed

text \<open>Lines of rules are single lines, since JSON strings escape control characters.\<close>

definition json_escapes :: "(string \<Rightarrow> string option) \<Rightarrow> bool" where
  "json_escapes json \<longleftrightarrow> (\<forall>s t. json s = Some t \<longrightarrow> LF \<notin> set t)"

lemma json_strings_escape: "json_escapes json \<Longrightarrow> json_strings json ts = Some us \<Longrightarrow> \<forall>u\<in>set us. LF \<notin> set u"
  by (induction ts arbitrary: us) (auto simp: json_escapes_def split: option.splits)

lemma set_join_with: "set (join_with sep ls) \<subseteq> set sep \<union> (\<Union>l\<in>set ls. set l)"
  by (induction sep ls rule: join_with.induct) auto

lemma allow_rule_line_single:
  assumes "\<forall>u\<in>set us. LF \<notin> set u"
  shows "LF \<notin> set (allow_rule_line us) \<and> \<not> ends_with [CR] (allow_rule_line us)"
proof -
  have "LF \<notin> set (join_with '', '' us)" using set_join_with [of "'', ''" us] assms by auto
  then show ?thesis by (auto simp: allow_rule_line_def ends_with_iff_suffix)
qed

lemma network_rule_line_single:
  assumes "json_escapes json" "network_rule_args json host protocol d justification = Some args"
  shows "LF \<notin> set (network_rule_line args) \<and> \<not> ends_with [CR] (network_rule_line args)"
proof -
  have "\<forall>a\<in>set args. LF \<notin> set a"
    using assms by (auto simp: network_rule_args_def json_escapes_def split: option.splits)
  then have "LF \<notin> set (join_with '', '' args)" using set_join_with [of "'', ''" args] by auto
  then show ?thesis by (auto simp: network_rule_line_def ends_with_iff_suffix)
qed

section \<open>Properties\<close>

text \<open>C28: However an append of a rule line ends, it only adds to the end of the policy file and every complete
  rule line stays; if it succeeds the new line is there, and appending it again changes nothing, so
  the same rule is never written twice.\<close>

theorem rules_file_append:
  assumes "LF \<notin> set line" "\<not> ends_with [CR] line" "from_utf8 line = Utf8Valid"
    and "append_locked_line fault path line file = (file', r)"
  shows "prefix (file_text file) (file_text file') \<and>
    {l \<in> set (str_lines (file_text file)). \<not> ends_with [CR] l} \<subseteq> set (str_lines (file_text file')) \<and>
    (r = Ok () \<longrightarrow> line \<in> set (str_lines (file_text file')) \<and>
      append_locked_line None path line file' = (file', Ok ()))"
proof -
  note grown = append_locked_line_grown [of "file" fault path line, unfolded assms(4) fst_conv]
  have "line \<in> set (str_lines (file_text file')) \<and> append_locked_line None path line file' = (file', Ok ())" if "r = Ok ()"
  proof -
    note ok = assms(4) [unfolded that]
    have "line \<in> set (str_lines (file_text file'))" using append_locked_line_Ok_line [OF ok assms(1,2)] .
    moreover have "file' = Some (file_text file')" using append_locked_line_Ok [OF ok] by (auto simp: file_text_def)
    ultimately show ?thesis
      using append_locked_line_again [of line file' path] append_locked_line_utf8 [OF ok assms(3)] by simp
  qed
  then show ?thesis using grown_prefix [OF grown] grown_lines [OF grown] by blast
qed

theorem rules_file_append_witness:
  "append_locked_line None ''/h/rules/default.rules'' ''x'' (Some ''a'') = (Some (''a'' @ [LF] @ ''x'' @ [LF]), Ok ()) \<and>
   append_locked_line None ''/h/rules/default.rules'' ''x'' (Some (''a'' @ [LF] @ ''x'' @ [LF])) =
     (Some (''a'' @ [LF] @ ''x'' @ [LF]), Ok ())"
proof -
  have line: "LF \<notin> set ''x''" "\<not> ends_with [CR] ''x''" "from_utf8 ''x'' = Utf8Valid" by code_simp+
  have run: "append_locked_line None ''/h/rules/default.rules'' ''x'' (Some ''a'') = (Some (''a'' @ [LF] @ ''x'' @ [LF]), Ok ())"
    by code_simp
  from rules_file_append [OF line run] run show ?thesis by blast
qed

end
