(* ===== verification/Bash_Commands.thy ===== *)
theory Bash_Commands
  imports Abs_Path Utf8 "HOL-Library.Multiset"
begin

text \<open>
  Shell wrappers (shell-command/src/shell_detect.rs and bash.rs): which program of an argument vector
  is a shell, and how \<open>bash -lc script\<close> is taken apart into plain commands.  The syntax tree comes from
  the tree-sitter grammar for bash, which is not part of the sources: a tree is a value of \<open>ts_node\<close>,
  and \<open>try_parse_shell\<close>, from a script to its tree, is an argument of the operations that call it.
\<close>

section \<open>Shell detection\<close>

datatype ShellType = Zsh | Bash | PowerShell | Sh | Cmd

text \<open>\<open>Path::file_stem\<close>: the file name up to its last dot, unless that dot comes first.\<close>

definition stem_of :: "string \<Rightarrow> string" where
  "stem_of name =
    (case rsplit_once (CHR ''.'') name of
       Some (before, _) \<Rightarrow> if before = [] then name else before
     | None \<Rightarrow> name)"

definition path_file_stem :: "string \<Rightarrow> string option" where
  "path_file_stem path = map_option stem_of (path_file_name path)"

lemma split_char_piece_length: "l \<in> set (split_char d s) \<Longrightarrow> length l \<le> length s \<and> (length l = length s \<longrightarrow> l = s)"
proof (induction s arbitrary: l)
  case (Cons c s)
  obtain p ps where ps: "split_char d s = p # ps" by (cases "split_char d s") auto
  with Cons.prems consider "l = []" | "l \<in> set (p # ps)" | "c \<noteq> d" "l = c # p"
    by (auto split: if_splits)
  then show ?case
    using Cons.IH [of l] Cons.IH [of p] ps by cases auto
qed simp

lemma path_file_name_piece: "path_file_name path = Some n \<Longrightarrow> n \<in> set (split_char slash path)"
proof -
  assume *: "path_file_name path = Some n"
  then have "last_opt (path_components path) = Some (Normal n)"
    by (auto simp: path_file_name_def split: option.splits Component.splits)
  then have "Normal n \<in> set (path_components path)" by (auto simp: last_opt_Some_iff)
  then show ?thesis by (auto simp: path_components_def Let_def split: if_splits)
qed

lemma stem_of_length: "length (stem_of n) \<le> length n \<and> (length (stem_of n) = length n \<longrightarrow> stem_of n = n)"
  by (auto simp: stem_of_def split: option.splits dest!: rsplit_once_Some)

lemma path_file_stem_shorter:
  assumes "path_file_stem path = Some n" "path_components n \<noteq> path_components path"
  shows "length n < length path"
proof -
  obtain m where m: "path_file_name path = Some m" "n = stem_of m"
    using assms(1) by (auto simp: path_file_stem_def)
  then have "length m \<le> length path" "length m = length path \<longrightarrow> m = path"
    using split_char_piece_length [OF path_file_name_piece] by auto
  moreover have "n \<noteq> path" using assms(2) by auto
  ultimately show ?thesis
    using stem_of_length [of m] m(2) by (cases "length n = length path") auto
qed

text \<open>Two \<open>Path\<close>s are equal when their components are.\<close>

function detect_shell_type :: "string \<Rightarrow> ShellType option" where
  "detect_shell_type shell_path =
    (if shell_path = ''zsh'' then Some Zsh
     else if shell_path = ''sh'' then Some Sh
     else if shell_path = ''cmd'' then Some Cmd
     else if shell_path = ''bash'' then Some Bash
     else if shell_path = ''pwsh'' then Some PowerShell
     else if shell_path = ''powershell'' then Some PowerShell
     else (case path_file_stem shell_path of
        Some shell_name \<Rightarrow>
          if path_components shell_name \<noteq> path_components shell_path then detect_shell_type shell_name else None
      | None \<Rightarrow> None))"
  by pat_completeness auto
termination
  by (relation "measure length") (auto simp: path_file_stem_shorter)

declare detect_shell_type.simps [simp del]

section \<open>Syntax trees\<close>

datatype ts_node =
  Node (node_kind: string) (is_named: bool) (has_error: bool) (start_byte: nat) (end_byte: nat)
    (node_children: "ts_node list")

definition named_children :: "ts_node \<Rightarrow> ts_node list" where
  "named_children n = filter is_named (node_children n)"

text \<open>The text of a node; an error when the slice is not UTF-8.  The nodes of a tree lie in its source.\<close>

definition utf8_text :: "string \<Rightarrow> ts_node \<Rightarrow> string option" where
  "utf8_text src n =
    (let s = take (end_byte n - start_byte n) (drop (start_byte n) src) in
     if from_utf8 s = Utf8Valid then Some s else None)"

text \<open>All nodes of a tree, a node before its children and these from left to right.\<close>

fun nodes :: "ts_node \<Rightarrow> ts_node list" where
  "nodes (Node k nm e s t cs) = Node k nm e s t cs # concat (map nodes cs)"

lemma nodes_unfold: "nodes n = n # concat (map nodes (node_children n))"
  by (cases n) simp

lemma length_nodes_children:
  "(\<Sum>x\<leftarrow>node_children n. length (nodes x)) < length (nodes n)"
  by (cases n) (simp add: length_concat comp_def)

lemma sum_list_filter_le: "(\<Sum>x\<leftarrow>filter P xs. f x) \<le> (\<Sum>x\<leftarrow>xs. f x :: nat)"
  by (induction xs) auto

lemma sum_list_rev_map: "(\<Sum>x\<leftarrow>rev xs. f x) = (\<Sum>x\<leftarrow>xs. f x :: nat)"
  by (induction xs) auto

section \<open>Word-only scripts\<close>

definition ALLOWED_KINDS :: "string list" where
  "ALLOWED_KINDS =
    [''program'', ''list'', ''pipeline'', ''command'', ''command_name'', ''word'', ''string'',
     ''string_content'', ''raw_string'', ''number'', ''concatenation'']"

definition ALLOWED_PUNCT_TOKENS :: "string list" where
  "ALLOWED_PUNCT_TOKENS = [''&&'', ''||'', '';'', ''|'', [CHR 0x22], [CHR 0x27]]"

definition node_allowed :: "ts_node \<Rightarrow> bool" where
  "node_allowed n =
    (let kind = node_kind n in
     if is_named n then List.member ALLOWED_KINDS kind
     else if list_ex (\<lambda>c. List.member ''&;|'' c) kind \<and> \<not> List.member ALLOWED_PUNCT_TOKENS kind then False
     else List.member ALLOWED_PUNCT_TOKENS kind \<or> trim kind = [])"

definition is_command_node :: "ts_node \<Rightarrow> bool" where
  "is_command_node n \<longleftrightarrow> is_named n \<and> node_kind n = ''command''"

text \<open>The walk, with the top of the stack first.\<close>

function collect_commands :: "ts_node list \<Rightarrow> ts_node list \<Rightarrow> ts_node list option" where
  "collect_commands [] command_nodes = Some command_nodes"
| "collect_commands (node # stack) command_nodes =
    (if \<not> node_allowed node then None
     else collect_commands (rev (node_children node) @ stack)
       (if is_command_node node then command_nodes @ [node] else command_nodes))"
  by pat_completeness auto
termination
  by (relation "measure (\<lambda>(stack, _). \<Sum>n\<leftarrow>stack. length (nodes n))")
    (auto simp: sum_list_rev_map length_nodes_children)

definition parse_double_quoted_string :: "string \<Rightarrow> ts_node \<Rightarrow> string option" where
  "parse_double_quoted_string src node =
    (if node_kind node \<noteq> ''string'' then None
     else if list_ex (\<lambda>part. node_kind part \<noteq> ''string_content'') (named_children node) then None
     else (case utf8_text src node of
        None \<Rightarrow> None
      | Some raw \<Rightarrow>
          (case strip_prefix [CHR 0x22] raw of
             None \<Rightarrow> None
           | Some stripped \<Rightarrow> strip_suffix [CHR 0x22] stripped)))"

definition parse_raw_string :: "string \<Rightarrow> ts_node \<Rightarrow> string option" where
  "parse_raw_string src node =
    (if node_kind node \<noteq> ''raw_string'' then None
     else (case utf8_text src node of
        None \<Rightarrow> None
      | Some raw_string \<Rightarrow>
          (case strip_prefix [CHR 0x27] raw_string of
             None \<Rightarrow> None
           | Some stripped \<Rightarrow> strip_suffix [CHR 0x27] stripped)))"

text \<open>The text of a word, number or quoted string: the arguments and the parts of a concatenation.\<close>

definition word_part :: "string \<Rightarrow> ts_node \<Rightarrow> string option" where
  "word_part src part =
    (if node_kind part = ''word'' \<or> node_kind part = ''number'' then utf8_text src part
     else if node_kind part = ''string'' then parse_double_quoted_string src part
     else if node_kind part = ''raw_string'' then parse_raw_string src part
     else None)"

fun concat_parts :: "string \<Rightarrow> ts_node list \<Rightarrow> string \<Rightarrow> string option" where
  "concat_parts src [] concatenated = Some concatenated"
| "concat_parts src (part # parts) concatenated =
    (case word_part src part of
       None \<Rightarrow> None
     | Some s \<Rightarrow> concat_parts src parts (concatenated @ s))"

definition plain_word :: "string \<Rightarrow> ts_node \<Rightarrow> string option" where
  "plain_word src child =
    (if node_kind child = ''command_name'' then
       (case named_children child of
          [] \<Rightarrow> None
        | word_node # _ \<Rightarrow> if node_kind word_node \<noteq> ''word'' then None else utf8_text src word_node)
     else if node_kind child = ''concatenation'' then
       (case concat_parts src (named_children child) [] of
          None \<Rightarrow> None
        | Some concatenated \<Rightarrow> if concatenated = [] then None else Some concatenated)
     else word_part src child)"

fun plain_words :: "string \<Rightarrow> ts_node list \<Rightarrow> string list \<Rightarrow> string list option" where
  "plain_words src [] ws = Some ws"
| "plain_words src (child # children) ws =
    (case plain_word src child of
       None \<Rightarrow> None
     | Some w \<Rightarrow> plain_words src children (ws @ [w]))"

definition parse_plain_command_from_node :: "string \<Rightarrow> ts_node \<Rightarrow> string list option" where
  "parse_plain_command_from_node src cmd =
    (if node_kind cmd \<noteq> ''command'' then None else plain_words src (named_children cmd) [])"

fun parse_command_nodes :: "string \<Rightarrow> ts_node list \<Rightarrow> string list list \<Rightarrow> string list list option" where
  "parse_command_nodes src [] commands = Some commands"
| "parse_command_nodes src (node # ns) commands =
    (case parse_plain_command_from_node src node of
       Some ws \<Rightarrow> parse_command_nodes src ns (commands @ [ws])
     | None \<Rightarrow> None)"

definition try_parse_word_only_commands_sequence :: "ts_node \<Rightarrow> string \<Rightarrow> string list list option" where
  "try_parse_word_only_commands_sequence root src =
    (if has_error root then None
     else (case collect_commands [root] [] of
        None \<Rightarrow> None
      | Some command_nodes \<Rightarrow> parse_command_nodes src (sort_key start_byte command_nodes) []))"

section \<open>Shell invocations\<close>

definition extract_bash_command :: "string list \<Rightarrow> (string \<times> string) option" where
  "extract_bash_command command =
    (case command of
       [shell, flag, script] \<Rightarrow>
         if \<not> (flag = ''-lc'' \<or> flag = ''-c'') \<or>
            \<not> (case detect_shell_type shell of Some Zsh \<Rightarrow> True | Some Bash \<Rightarrow> True | Some Sh \<Rightarrow> True | _ \<Rightarrow> False)
         then None
         else Some (shell, script)
     | _ \<Rightarrow> None)"

definition parse_shell_lc_plain_commands ::
  "(string \<Rightarrow> ts_node option) \<Rightarrow> string list \<Rightarrow> string list list option" where
  "parse_shell_lc_plain_commands try_parse_shell command =
    (case extract_bash_command command of
       None \<Rightarrow> None
     | Some (_, script) \<Rightarrow>
         (case try_parse_shell script of
            None \<Rightarrow> None
          | Some tree \<Rightarrow> try_parse_word_only_commands_sequence tree script))"

text \<open>Scripts with a here-document.\<close>

function find_named_kind :: "string \<Rightarrow> ts_node list \<Rightarrow> bool" where
  "find_named_kind kind [] = False"
| "find_named_kind kind (current # stack) =
    (if node_kind current = kind then True
     else find_named_kind kind (rev (named_children current) @ stack))"
  by pat_completeness auto
termination
proof (relation "measure (\<lambda>(_, stack). \<Sum>n\<leftarrow>stack. length (nodes n))", simp, goal_cases)
  case (1 kind current stack)
  then show ?case
    using le_less_trans [OF sum_list_filter_le length_nodes_children]
    by (simp add: sum_list_rev_map named_children_def)
qed

definition has_named_descendant_kind :: "ts_node \<Rightarrow> string \<Rightarrow> bool" where
  "has_named_descendant_kind node kind = find_named_kind kind [node]"

function find_single_command :: "ts_node list \<Rightarrow> ts_node option \<Rightarrow> ts_node option" where
  "find_single_command [] single_command = single_command"
| "find_single_command (node # stack) single_command =
    (if node_kind node = ''command'' \<and> single_command \<noteq> None then None
     else find_single_command (rev (named_children node) @ stack)
       (if node_kind node = ''command'' then Some node else single_command))"
  by pat_completeness auto
termination
proof (relation "measure (\<lambda>(stack, _). \<Sum>n\<leftarrow>stack. length (nodes n))", simp, goal_cases)
  case (1 node stack single_command)
  then show ?case
    using le_less_trans [OF sum_list_filter_le length_nodes_children]
    by (simp add: sum_list_rev_map named_children_def)
qed

definition find_single_command_node :: "ts_node \<Rightarrow> ts_node option" where
  "find_single_command_node root = find_single_command [root] None"

definition is_literal_word_or_number :: "ts_node \<Rightarrow> bool" where
  "is_literal_word_or_number node \<longleftrightarrow>
    (node_kind node = ''word'' \<or> node_kind node = ''number'') \<and> named_children node = []"

definition is_allowed_heredoc_attachment_kind :: "string \<Rightarrow> bool" where
  "is_allowed_heredoc_attachment_kind kind \<longleftrightarrow>
    List.member [''heredoc_body'', ''simple_heredoc_body'', ''heredoc_redirect'', ''herestring_redirect'',
      ''redirected_statement''] kind"

fun heredoc_words :: "string \<Rightarrow> ts_node list \<Rightarrow> string list \<Rightarrow> string list option" where
  "heredoc_words src [] ws = Some ws"
| "heredoc_words src (child # children) ws =
    (if node_kind child = ''command_name'' then
       (case named_children child of
          [] \<Rightarrow> None
        | word_node # _ \<Rightarrow>
            if \<not> is_literal_word_or_number word_node then None
            else (case utf8_text src word_node of
               None \<Rightarrow> None
             | Some w \<Rightarrow> heredoc_words src children (ws @ [w])))
     else if node_kind child = ''word'' \<or> node_kind child = ''number'' then
       (if \<not> is_literal_word_or_number child then None
        else (case utf8_text src child of
           None \<Rightarrow> None
         | Some w \<Rightarrow> heredoc_words src children (ws @ [w])))
     else if node_kind child = ''comment'' \<or> is_allowed_heredoc_attachment_kind (node_kind child)
     then heredoc_words src children ws
     else None)"

definition parse_heredoc_command_words :: "string \<Rightarrow> ts_node \<Rightarrow> string list option" where
  "parse_heredoc_command_words src cmd =
    (if node_kind cmd \<noteq> ''command'' then None
     else (case heredoc_words src (named_children cmd) [] of
        None \<Rightarrow> None
      | Some ws \<Rightarrow> if ws = [] then None else Some ws))"

definition parse_shell_lc_single_command_prefix ::
  "(string \<Rightarrow> ts_node option) \<Rightarrow> string list \<Rightarrow> string list option" where
  "parse_shell_lc_single_command_prefix try_parse_shell command =
    (case extract_bash_command command of
       None \<Rightarrow> None
     | Some (_, script) \<Rightarrow>
         (case try_parse_shell script of
            None \<Rightarrow> None
          | Some root \<Rightarrow>
              if has_error root \<or> \<not> has_named_descendant_kind root ''heredoc_redirect'' \<or>
                 has_named_descendant_kind root ''file_redirect''
              then None
              else (case find_single_command_node root of
                 None \<Rightarrow> None
               | Some command_node \<Rightarrow> parse_heredoc_command_words script command_node)))"

section \<open>Source order\<close>

text \<open>
  What tree-sitter documents of a tree: the children of a node follow each other and lie within it,
  and no command is empty.
\<close>

fun ordered_tree :: "ts_node \<Rightarrow> bool" where
  "ordered_tree (Node k nm e s t cs) \<longleftrightarrow>
    s \<le> t \<and> (nm \<and> k = ''command'' \<longrightarrow> s < t) \<and>
    sorted_wrt (\<lambda>a b. end_byte a \<le> start_byte b) cs \<and>
    list_all (\<lambda>c. s \<le> start_byte c \<and> end_byte c \<le> t) cs \<and> list_all ordered_tree cs"

text \<open>The order in which the walk meets the nodes: children from right to left.\<close>

fun visited :: "ts_node \<Rightarrow> ts_node list" where
  "visited (Node k nm e s t cs) = Node k nm e s t cs # concat (map visited (rev cs))"

lemma visited_unfold: "visited n = n # concat (map visited (rev (node_children n)))"
  by (cases n) simp

lemma collect_commands_visited:
  "collect_commands stack acc =
    (if list_all node_allowed (concat (map visited stack))
     then Some (acc @ filter is_command_node (concat (map visited stack))) else None)"
proof (induction stack acc rule: collect_commands.induct)
  case (2 node stack acc)
  then show ?case by (simp add: visited_unfold [of node])
qed simp

lemma mset_visited: "mset (visited n) = mset (nodes n)"
proof (induction n)
  case (Node k nm e s t cs)
  then have "map (\<lambda>x. mset (visited x)) cs = map (\<lambda>x. mset (nodes x)) cs" by simp
  then have "sum_list (map (\<lambda>x. mset (visited x)) cs) = sum_list (map (\<lambda>x. mset (nodes x)) cs)" by (rule arg_cong)
  then show ?case by (simp add: mset_concat comp_def rev_map [symmetric])
qed

lemma set_visited: "set (visited n) = set (nodes n)"
  using mset_visited by (metis set_mset_mset)

lemma ordered_tree_range:
  "ordered_tree t \<Longrightarrow> n \<in> set (nodes t) \<Longrightarrow>
    start_byte t \<le> start_byte n \<and> end_byte n \<le> end_byte t \<and> (is_command_node n \<longrightarrow> start_byte n < end_byte n)"
proof (induction t)
  case (Node k nm e s t cs)
  show ?case
  proof (cases "n = Node k nm e s t cs")
    case False
    with Node.prems obtain c where c: "c \<in> set cs" "n \<in> set (nodes c)" by auto
    with Node.prems Node.IH [OF c(1)] show ?thesis by (fastforce simp: list_all_iff)
  qed (use Node.prems in \<open>auto simp: is_command_node_def\<close>)
qed

definition command_at :: "nat \<Rightarrow> ts_node \<Rightarrow> bool" where
  "command_at i n \<longleftrightarrow> is_command_node n \<and> start_byte n = i"

lemma command_at_in:
  assumes "ordered_tree t" "n \<in> set (nodes t)" "command_at i n"
  shows "start_byte t \<le> i \<and> i < end_byte t"
  using ordered_tree_range [OF assms(1,2)] assms(3) by (auto simp: command_at_def)

lemma concat_rev_sorted:
  assumes "sorted_wrt (\<lambda>a b. end_byte a \<le> start_byte b) cs"
    "\<And>c. c \<in> set cs \<Longrightarrow> f c \<noteq> [] \<Longrightarrow> start_byte c \<le> i \<and> i < end_byte c"
  shows "concat (map f (rev cs)) = concat (map f cs)"
  using assms
proof (induction cs)
  case (Cons c cs)
  show ?case
  proof (cases "f c = []")
    case False
    have "f d = []" if "d \<in> set cs" for d
      using Cons.prems(1) Cons.prems(2) [of c] Cons.prems(2) [of d] that False by fastforce
    then have "concat (map f cs) = []" "concat (map f (rev cs)) = []" by simp_all
    moreover have "concat (map f (rev (c # cs))) = concat (map f (rev cs)) @ f c" by simp
    ultimately show ?thesis by (simp only: list.map concat.simps append_Nil append_Nil2)
  qed (use Cons in simp)
qed simp

lemma visited_commands_at:
  "ordered_tree t \<Longrightarrow> filter (command_at i) (visited t) = filter (command_at i) (nodes t)"
proof (induction t)
  case (Node k nm e s t cs)
  let ?F = "\<lambda>c. filter (command_at i) (nodes c)"
  have eq: "map (\<lambda>c. filter (command_at i) (visited c)) (rev cs) = map ?F (rev cs)"
    using Node by (auto simp: list_all_iff)
  have "concat (map ?F (rev cs)) = concat (map ?F cs)"
  proof (rule concat_rev_sorted)
    show "sorted_wrt (\<lambda>a b. end_byte a \<le> start_byte b) cs" using Node.prems by simp
    show "start_byte c \<le> i \<and> i < end_byte c" if "c \<in> set cs" "?F c \<noteq> []" for c
      using that Node.prems command_at_in by (fastforce simp: list_all_iff filter_empty_conv)
  qed
  then have "concat (map (\<lambda>c. filter (command_at i) (visited c)) (rev cs)) = concat (map ?F cs)"
    by (simp only: eq)
  then show ?case by (simp add: filter_concat comp_def rev_map)
qed

lemma nodes_commands_sorted:
  "ordered_tree t \<Longrightarrow> sorted (map start_byte (filter is_command_node (nodes t)))"
proof (induction t)
  case (Node k nm e s t cs)
  let ?S = "\<lambda>c. map start_byte (filter is_command_node (nodes c))"
  have "sorted (concat (map ?S ds))" if "suffix ds cs" for ds
    using that
  proof (induction ds)
    case (Cons d ds)
    have d: "d \<in> set cs" "suffix ds cs" using Cons.prems by (auto dest: suffix_ConsD set_mono_suffix)
    have ord: "end_byte d \<le> start_byte x" "ordered_tree x" if "x \<in> set ds" for x
      using that Node.prems Cons.prems by (auto simp: suffix_def sorted_wrt_append list_all_iff)
    have "a \<le> b" if "a \<in> set (?S d)" "b \<in> set (concat (map ?S ds))" for a b
    proof -
      obtain n x m where n: "n \<in> set (nodes d)" "a = start_byte n" "is_command_node n"
        and x: "x \<in> set ds" "m \<in> set (nodes x)" "b = start_byte m" using \<open>a \<in> _\<close> \<open>b \<in> _\<close> by auto
      have "a < end_byte n" "end_byte n \<le> end_byte d"
        using ordered_tree_range [of d n] Node.prems d(1) n by (auto simp: list_all_iff)
      moreover have "start_byte x \<le> b" using ordered_tree_range [OF ord(2) [OF x(1)] x(2)] x(3) by simp
      ultimately show ?thesis using ord(1) [OF x(1)] by simp
    qed
    moreover have "sorted (?S d)" using Node d(1) by (auto simp: list_all_iff)
    ultimately show ?case using Cons.IH [OF d(2)] by (auto simp: sorted_append)
  qed simp
  from this [of cs] have cs: "sorted (concat (map ?S cs))" by simp
  have "s \<le> start_byte n" if "c \<in> set cs" "n \<in> set (nodes c)" for c n
    using ordered_tree_range [of c n] Node.prems that by (fastforce simp: list_all_iff)
  with cs show ?case by (auto simp: filter_concat map_concat comp_def)
qed

lemma sort_visited_commands:
  assumes "ordered_tree t"
  shows "sort_key start_byte (filter is_command_node (visited t)) = filter is_command_node (nodes t)"
proof (rule properties_for_sort_key)
  show "mset (filter is_command_node (nodes t)) = mset (filter is_command_node (visited t))"
    by (simp add: mset_visited)
  show "sorted (map start_byte (filter is_command_node (nodes t)))"
    by (rule nodes_commands_sorted [OF assms])
  have *: "filter (\<lambda>x. start_byte k = start_byte x) (filter is_command_node xs) = filter (command_at (start_byte k)) xs" for k xs
    by (auto simp: command_at_def intro: filter_cong)
  show "filter (\<lambda>x. start_byte k = start_byte x) (filter is_command_node (nodes t)) =
      filter (\<lambda>x. start_byte k = start_byte x) (filter is_command_node (visited t))" for k
    unfolding * by (simp add: visited_commands_at [OF assms])
qed

lemma parse_command_nodes_those:
  "parse_command_nodes src ns acc = map_option (append acc) (those (map (parse_plain_command_from_node src) ns))"
proof (induction ns arbitrary: acc)
  case (Cons n ns)
  then show ?case
    by (cases "those (map (parse_plain_command_from_node src) ns)") (auto split: option.splits)
qed simp

section \<open>Here-documents\<close>

text \<open>The named nodes below a node, from left to right and as the walks meet them.\<close>

fun named_nodes :: "ts_node \<Rightarrow> ts_node list" where
  "named_nodes (Node k nm e s t cs) =
    Node k nm e s t cs # concat (map (\<lambda>c. if is_named c then named_nodes c else []) cs)"

fun named_visited :: "ts_node \<Rightarrow> ts_node list" where
  "named_visited (Node k nm e s t cs) =
    Node k nm e s t cs # concat (map (\<lambda>c. if is_named c then named_visited c else []) (rev cs))"

lemma concat_map_filter: "concat (map (\<lambda>c. if P c then f c else []) cs) = concat (map f (filter P cs))"
  by (induction cs) auto

lemma named_visited_unfold: "named_visited n = n # concat (map named_visited (rev (named_children n)))"
  by (cases n) (simp add: concat_map_filter named_children_def rev_filter)

lemma mset_named_visited: "mset (named_visited n) = mset (named_nodes n)"
proof (induction n)
  case (Node k nm e s t cs)
  let ?m = "\<lambda>f. map (\<lambda>c. mset (if is_named c then f c else [])) cs"
  have "?m named_visited = ?m named_nodes" using Node by simp
  then have "sum_list (?m named_visited) = sum_list (?m named_nodes)" by (rule arg_cong)
  then show ?case by (simp add: mset_concat comp_def rev_map [symmetric])
qed

lemma has_named_descendant_kind_iff:
  "has_named_descendant_kind root kind \<longleftrightarrow> (\<exists>n\<in>set (named_nodes root). node_kind n = kind)"
proof -
  have "find_named_kind kind stack \<longleftrightarrow> (\<exists>n\<in>set (concat (map named_visited stack)). node_kind n = kind)" for stack
  proof (induction kind stack rule: find_named_kind.induct)
    case (2 kind current stack)
    then show ?case by (auto simp: named_visited_unfold [of current])
  qed simp
  then show ?thesis
    using mset_eq_setD [OF mset_named_visited [of root]] by (simp add: has_named_descendant_kind_def del: find_named_kind.simps)
qed

fun the_single :: "'a list \<Rightarrow> 'a option" where
  "the_single [x] = Some x"
| "the_single _ = None"

lemma the_single_mset: "mset xs = mset ys \<Longrightarrow> the_single xs = the_single ys"
  by (cases xs rule: the_single.cases; cases ys rule: the_single.cases) (auto dest: mset_eq_length)

lemma find_single_command_node_eq:
  "find_single_command_node root = the_single (filter (\<lambda>n. node_kind n = ''command'') (named_nodes root))"
proof -
  let ?C = "filter (\<lambda>n. node_kind n = ''command'')"
  have "find_single_command stack acc = the_single ((case acc of None \<Rightarrow> [] | Some c \<Rightarrow> [c]) @ ?C (concat (map named_visited stack)))"
    for stack acc
  proof (induction stack acc rule: find_single_command.induct)
    case (2 node stack acc)
    then show ?case by (cases acc) (auto simp: named_visited_unfold [of node])
  qed (auto split: option.splits)
  then have "find_single_command_node root = the_single (?C (named_visited root))"
    by (simp add: find_single_command_node_def)
  also have "\<dots> = the_single (?C (named_nodes root))"
    by (rule the_single_mset) (simp add: mset_named_visited)
  finally show ?thesis .
qed

section \<open>What the words of a command are\<close>

definition source_text :: "string \<Rightarrow> ts_node \<Rightarrow> string \<Rightarrow> bool" where
  "source_text src n s \<longleftrightarrow> s = take (end_byte n - start_byte n) (drop (start_byte n) src) \<and> from_utf8 s = Utf8Valid"

text \<open>A word or number stands for itself; a quoted string, without expansions in double quotes, for what is
  between its quotes.\<close>

definition spells :: "string \<Rightarrow> ts_node \<Rightarrow> string \<Rightarrow> bool" where
  "spells src n s \<longleftrightarrow>
    node_kind n \<in> {''word'', ''number''} \<and> source_text src n s \<or>
    node_kind n = ''string'' \<and> (\<forall>part\<in>set (named_children n). node_kind part = ''string_content'') \<and>
      source_text src n ([CHR 0x22] @ s @ [CHR 0x22]) \<or>
    node_kind n = ''raw_string'' \<and> source_text src n ([CHR 0x27] @ s @ [CHR 0x27])"

text \<open>The name of a command is an unquoted word, an argument a literal or a non-empty concatenation of literals.\<close>

definition spells_argument :: "string \<Rightarrow> ts_node \<Rightarrow> string \<Rightarrow> bool" where
  "spells_argument src n s \<longleftrightarrow>
    node_kind n = ''command_name'' \<and> (\<exists>w rest. named_children n = w # rest \<and> node_kind w = ''word'' \<and> source_text src w s) \<or>
    node_kind n = ''concatenation'' \<and> (\<exists>ss. list_all2 (spells src) (named_children n) ss \<and> s = concat ss \<and> s \<noteq> []) \<or>
    spells src n s"

definition spells_command :: "string \<Rightarrow> ts_node \<Rightarrow> string list \<Rightarrow> bool" where
  "spells_command src cmd ws \<longleftrightarrow> list_all2 (spells_argument src) (named_children cmd) ws"

text \<open>Named nodes of the kinds of plain commands, and as tokens the operators, quotes and white space.\<close>

definition plain_node :: "ts_node \<Rightarrow> bool" where
  "plain_node n \<longleftrightarrow>
    (if is_named n
     then node_kind n \<in> {''program'', ''list'', ''pipeline'', ''command'', ''command_name'', ''word'', ''string'',
       ''string_content'', ''raw_string'', ''number'', ''concatenation''}
     else node_kind n \<in> {''&&'', ''||'', '';'', ''|'', [CHR 0x22], [CHR 0x27]} \<or> trim (node_kind n) = [])"

lemma utf8_text_iff: "utf8_text src n = Some s \<longleftrightarrow> source_text src n s"
  by (auto simp: utf8_text_def source_text_def Let_def)

lemma strip_quotes_iff:
  "(case strip_prefix [q] raw of None \<Rightarrow> None | Some stripped \<Rightarrow> strip_suffix [q] stripped) = Some s \<longleftrightarrow> raw = [q] @ s @ [q]"
proof -
  have "strip_suffix [q] xs = Some s \<longleftrightarrow> xs = s @ [q]" for xs
    by (cases xs rule: rev_cases) (auto simp: strip_suffix_def ends_with_def)
  moreover have "strip_prefix [q] raw = Some xs \<longleftrightarrow> raw = q # xs" for xs by (cases raw) auto
  ultimately show ?thesis by (auto split: option.splits)
qed

lemma word_part_iff: "word_part src n = Some s \<longleftrightarrow> spells src n s"
proof -
  have q: "(case utf8_text src n of None \<Rightarrow> None | Some raw \<Rightarrow> case strip_prefix [q] raw of None \<Rightarrow> None | Some stripped \<Rightarrow> strip_suffix [q] stripped) = Some s \<longleftrightarrow>
      source_text src n ([q] @ s @ [q])" for q
    using strip_quotes_iff [of q _ s] by (cases "utf8_text src n") (auto simp flip: utf8_text_iff)
  show ?thesis
    using q [of "CHR 0x22"] q [of "CHR 0x27"]
    by (auto simp: word_part_def spells_def utf8_text_iff parse_double_quoted_string_def parse_raw_string_def list_ex_iff)
qed

lemma concat_parts_iff:
  "concat_parts src parts acc = Some s \<longleftrightarrow> (\<exists>ss. list_all2 (spells src) parts ss \<and> s = acc @ concat ss)"
proof (induction parts arbitrary: acc)
  case (Cons part parts)
  show ?case
  proof (cases "word_part src part")
    case None
    then have "\<not> spells src part w" for w using word_part_iff [of src part] by simp
    with None show ?thesis by (auto simp: list_all2_Cons1)
  next
    case (Some w)
    then have "spells src part w' \<longleftrightarrow> w' = w" for w' using word_part_iff [of src part w'] by auto
    with Some Cons.IH show ?thesis by (auto simp: list_all2_Cons1)
  qed
qed auto

lemma plain_word_iff: "plain_word src n = Some s \<longleftrightarrow> spells_argument src n s"
proof -
  consider "node_kind n = ''command_name''" | "node_kind n = ''concatenation''"
    | "node_kind n \<noteq> ''command_name''" "node_kind n \<noteq> ''concatenation''" by blast
  then show ?thesis
  proof cases
    case 1
    then show ?thesis by (auto simp: plain_word_def spells_argument_def spells_def utf8_text_iff split: list.splits)
  next
    case 2
    then have "plain_word src n = Some s \<longleftrightarrow> concat_parts src (named_children n) [] = Some s \<and> s \<noteq> []"
      by (auto simp: plain_word_def split: option.splits)
    with 2 show ?thesis by (auto simp: concat_parts_iff spells_argument_def spells_def)
  next
    case 3
    then show ?thesis by (simp add: plain_word_def spells_argument_def word_part_iff)
  qed
qed

lemma plain_words_iff: "plain_words src children acc = Some ws \<longleftrightarrow> (\<exists>vs. list_all2 (spells_argument src) children vs \<and> ws = acc @ vs)"
proof (induction children arbitrary: acc)
  case (Cons child children)
  show ?case
  proof (cases "plain_word src child")
    case None
    then have "\<not> spells_argument src child w" for w using plain_word_iff [of src child] by simp
    with None show ?thesis by (auto simp: list_all2_Cons1)
  next
    case (Some w)
    then have "spells_argument src child w' \<longleftrightarrow> w' = w" for w' using plain_word_iff [of src child w'] by auto
    with Some Cons.IH show ?thesis by (auto simp: list_all2_Cons1)
  qed
qed auto

lemma parse_plain_command_iff:
  "node_kind cmd = ''command'' \<Longrightarrow> parse_plain_command_from_node src cmd = Some ws \<longleftrightarrow> spells_command src cmd ws"
  by (simp add: parse_plain_command_from_node_def plain_words_iff spells_command_def)

lemma those_iff: "those xs = Some ys \<longleftrightarrow> list_all2 (\<lambda>x y. x = Some y) xs ys"
proof (induction xs arbitrary: ys)
  case (Cons x xs)
  then show ?case by (cases x; cases "those xs"; cases ys) auto
qed auto

text \<open>Trimming keeps what is visible, so the test for \<open>&\<close>, \<open>;\<close> and \<open>|\<close> rejects nothing that the others accept.\<close>

lemma strip_ws_keeps:
  assumes "c \<in> set s" "\<not> ascii_ws c" "\<And>a b. w2 a b \<Longrightarrow> c \<noteq> a \<and> c \<noteq> b" "\<And>a b d. w3 a b d \<Longrightarrow> c \<noteq> a \<and> c \<noteq> b \<and> c \<noteq> d"
  shows "c \<in> set (strip_ws w2 w3 s)"
  using assms by (induction w2 w3 s rule: strip_ws.induct) (auto split: if_splits, blast+)

lemma trim_keeps:
  assumes "c \<in> set s" "is_ascii c" "\<not> ascii_ws c"
  shows "c \<in> set (trim s)"
proof -
  have "c \<in> set (trim_end s)" unfolding trim_end_def set_rev
    by (rule strip_ws_keeps) (use assms not_ascii_ws_bytes in auto)
  then show ?thesis unfolding trim_def trim_start_def
    by (rule strip_ws_keeps) (use assms not_ascii_ws_bytes in auto)
qed

lemma node_allowed_iff: "node_allowed n \<longleftrightarrow> plain_node n"
proof -
  have "c \<notin> {CHR ''&'', CHR '';'', CHR ''|''}" if "trim kind = []" "c \<in> set kind" for c kind
  proof
    assume "c \<in> {CHR ''&'', CHR '';'', CHR ''|''}"
    then have "is_ascii c" "\<not> ascii_ws c" by (auto simp: is_ascii_def ascii_ws_def)
    with trim_keeps [OF that(2)] that(1) show False by simp
  qed
  then show ?thesis
    by (auto simp: node_allowed_def plain_node_def ALLOWED_KINDS_def ALLOWED_PUNCT_TOKENS_def Let_def list_ex_iff)
qed

text \<open>The words of a command in front of a here-document: literal words and numbers, which have no parts.\<close>

definition literal_leaf :: "string \<Rightarrow> ts_node \<Rightarrow> string \<Rightarrow> bool" where
  "literal_leaf src n w \<longleftrightarrow> node_kind n \<in> {''word'', ''number''} \<and> named_children n = [] \<and> source_text src n w"

inductive literal_words :: "string \<Rightarrow> ts_node list \<Rightarrow> string list \<Rightarrow> bool" for src where
  literal_none: "literal_words src [] []"
| literal_name: "node_kind n = ''command_name'' \<Longrightarrow> named_children n = leaf # rest \<Longrightarrow> literal_leaf src leaf w \<Longrightarrow>
    literal_words src ns ws \<Longrightarrow> literal_words src (n # ns) (w # ws)"
| literal_argument: "literal_leaf src n w \<Longrightarrow> literal_words src ns ws \<Longrightarrow> literal_words src (n # ns) (w # ws)"
| literal_attachment: "node_kind n \<in> {''comment'', ''heredoc_body'', ''simple_heredoc_body'', ''heredoc_redirect'', ''herestring_redirect'',
    ''redirected_statement''} \<Longrightarrow> literal_words src ns ws \<Longrightarrow> literal_words src (n # ns) ws"

lemma heredoc_words_literal:
  "heredoc_words src children acc = Some ws \<Longrightarrow> \<exists>vs. literal_words src children vs \<and> ws = acc @ vs"
proof (induction src children acc rule: heredoc_words.induct)
  case (1 src acc)
  then show ?case by (auto intro: literal_none)
next
  case (2 src child children acc)
  consider leaf rest w where "node_kind child = ''command_name''" "named_children child = leaf # rest" "is_literal_word_or_number leaf"
      "utf8_text src leaf = Some w" "heredoc_words src children (acc @ [w]) = Some ws"
    | w where "node_kind child \<noteq> ''command_name''" "node_kind child \<in> {''word'', ''number''}" "is_literal_word_or_number child"
      "utf8_text src child = Some w" "heredoc_words src children (acc @ [w]) = Some ws"
    | "node_kind child \<noteq> ''command_name''" "\<not> (node_kind child = ''word'' \<or> node_kind child = ''number'')"
      "node_kind child = ''comment'' \<or> is_allowed_heredoc_attachment_kind (node_kind child)" "heredoc_words src children acc = Some ws"
    using 2(4) by (auto split: if_splits list.splits option.splits)
  then show ?case
  proof cases
    case (1 leaf rest w)
    then obtain vs where "literal_words src children vs" "ws = (acc @ [w]) @ vs" using 2(1) by blast
    moreover have "literal_leaf src leaf w" using 1 by (auto simp: literal_leaf_def is_literal_word_or_number_def utf8_text_iff)
    ultimately show ?thesis using literal_name [OF 1(1,2)] by fastforce
  next
    case (2 w)
    then obtain vs where "literal_words src children vs" "ws = (acc @ [w]) @ vs" using 2(1) "2.IH"(2) by blast
    moreover have "literal_leaf src child w" using 2 by (auto simp: literal_leaf_def is_literal_word_or_number_def utf8_text_iff)
    ultimately show ?thesis using literal_argument by fastforce
  next
    case 3
    then obtain vs where "literal_words src children vs" "ws = acc @ vs" using "2.IH"(3) by blast
    with 3 show ?thesis by (auto simp: is_allowed_heredoc_attachment_kind_def intro!: literal_attachment)
  qed
qed

lemma literal_heredoc_words: "literal_words src children vs \<Longrightarrow> heredoc_words src children acc = Some (acc @ vs)"
proof (induction arbitrary: acc rule: literal_words.induct)
  case (literal_argument n w ns ws)
  then show ?case by (auto simp: literal_leaf_def is_literal_word_or_number_def simp flip: utf8_text_iff)
qed (auto simp: literal_leaf_def is_literal_word_or_number_def is_allowed_heredoc_attachment_kind_def simp flip: utf8_text_iff)

lemma heredoc_command_iff:
  assumes "node_kind cmd = ''command''"
  shows "parse_heredoc_command_words src cmd = Some ws \<longleftrightarrow> literal_words src (named_children cmd) ws \<and> ws \<noteq> []"
proof
  assume "parse_heredoc_command_words src cmd = Some ws"
  with assms have "heredoc_words src (named_children cmd) [] = Some ws" "ws \<noteq> []"
    by (auto simp: parse_heredoc_command_words_def split: option.splits if_splits)
  with heredoc_words_literal [OF this(1)] show "literal_words src (named_children cmd) ws \<and> ws \<noteq> []" by auto
next
  assume "literal_words src (named_children cmd) ws \<and> ws \<noteq> []"
  with assms literal_heredoc_words [of src "named_children cmd" ws "[]"] show "parse_heredoc_command_words src cmd = Some ws"
    by (simp add: parse_heredoc_command_words_def)
qed

section \<open>Properties\<close>

text \<open>C11: A script, with the syntax tree of the grammar, is taken apart into commands exactly when the tree is
  free of errors, consists of the nodes of plain commands and their operators only, and every command is
  an unquoted name followed by literal arguments.  The result then is the words of each command as they
  stand in the source, quotes removed, in the order of the source: the walk with a stack and the sort by
  position amount to a traversal from left to right.\<close>

theorem word_only_commands_spec:
  assumes "ordered_tree root"
  shows "try_parse_word_only_commands_sequence root src = Some commands \<longleftrightarrow>
    \<not> has_error root \<and> list_all plain_node (nodes root) \<and>
    list_all2 (spells_command src) (filter (\<lambda>n. is_named n \<and> node_kind n = ''command'') (nodes root)) commands"
proof -
  let ?cs = "filter is_command_node (nodes root)"
  have "map_option (append []) x = x" for x :: "string list list option" by (cases x) auto
  with sort_visited_commands [OF assms] set_visited [of root]
  have "try_parse_word_only_commands_sequence root src =
    (if has_error root \<or> \<not> list_all plain_node (nodes root) then None else those (map (parse_plain_command_from_node src) ?cs))"
    by (auto simp: try_parse_word_only_commands_sequence_def collect_commands_visited parse_command_nodes_those node_allowed_iff list_all_iff)
  moreover have "those (map (parse_plain_command_from_node src) ?cs) = Some commands \<longleftrightarrow> list_all2 (spells_command src) ?cs commands"
    unfolding those_iff list_all2_map1
    by (rule list.rel_cong) (auto simp: is_command_node_def parse_plain_command_iff)
  moreover have "is_command_node = (\<lambda>n. is_named n \<and> node_kind n = ''command'')" by (auto simp: is_command_node_def)
  ultimately show ?thesis by simp
qed

text \<open>The tree of \<open>ls -l | wc\<close>.\<close>

definition ls_wc_tree :: ts_node where
  "ls_wc_tree =
    Node ''program'' True False 0 10
      [Node ''pipeline'' True False 0 10
        [Node ''command'' True False 0 5
          [Node ''command_name'' True False 0 2 [Node ''word'' True False 0 2 []],
           Node ''word'' True False 3 5 []],
         Node ''|'' False False 6 7 [],
         Node ''command'' True False 8 10
          [Node ''command_name'' True False 8 10 [Node ''word'' True False 8 10 []]]]]"

theorem word_only_commands_spec_witness:
  "list_all2 (spells_command ''ls -l | wc'') (filter (\<lambda>n. is_named n \<and> node_kind n = ''command'') (nodes ls_wc_tree)) [[''ls'', ''-l''], [''wc'']]"
proof -
  have "ordered_tree ls_wc_tree" "try_parse_word_only_commands_sequence ls_wc_tree ''ls -l | wc'' = Some [[''ls'', ''-l''], [''wc'']]"
    by code_simp+
  with word_only_commands_spec [of ls_wc_tree "''ls -l | wc''"] show ?thesis by blast
qed

text \<open>C34: The here-document fallback yields words exactly for a shell invocation whose script parses without
  errors, contains a here-document, redirects to or from no file anywhere, and has exactly one command,
  which consists of literal words and numbers without parts, comments and here-documents; the words are
  then those of the command as they stand in the source, and there is at least one.\<close>

theorem heredoc_prefix_conservative:
  "parse_shell_lc_single_command_prefix try_parse_shell command = Some ws \<longleftrightarrow>
    (\<exists>shell script root cmd. extract_bash_command command = Some (shell, script) \<and>
      try_parse_shell script = Some root \<and> \<not> has_error root \<and>
      (\<exists>n\<in>set (named_nodes root). node_kind n = ''heredoc_redirect'') \<and>
      \<not> (\<exists>n\<in>set (named_nodes root). node_kind n = ''file_redirect'') \<and>
      filter (\<lambda>n. node_kind n = ''command'') (named_nodes root) = [cmd] \<and>
      literal_words script (named_children cmd) ws \<and> ws \<noteq> [])"
proof -
  have single: "find_single_command_node root = Some cmd \<longleftrightarrow> filter (\<lambda>n. node_kind n = ''command'') (named_nodes root) = [cmd]" for root cmd
    unfolding find_single_command_node_eq by (auto elim: the_single.elims)
  then have "node_kind cmd = ''command''" if "find_single_command_node root = Some cmd" for root cmd
    using that filter_eq_ConsD [of "\<lambda>n. node_kind n = ''command''" "named_nodes root" cmd "[]"] by auto
  then have "parse_shell_lc_single_command_prefix try_parse_shell command = Some ws \<longleftrightarrow>
    (\<exists>shell script root cmd. extract_bash_command command = Some (shell, script) \<and>
      try_parse_shell script = Some root \<and> \<not> has_error root \<and> has_named_descendant_kind root ''heredoc_redirect'' \<and>
      \<not> has_named_descendant_kind root ''file_redirect'' \<and> find_single_command_node root = Some cmd \<and>
      literal_words script (named_children cmd) ws \<and> ws \<noteq> [])"
    using heredoc_command_iff
    by (cases "extract_bash_command command") (auto simp: parse_shell_lc_single_command_prefix_def split: option.splits if_splits)
  then show ?thesis unfolding single has_named_descendant_kind_iff .
qed

text \<open>The tree of \<open>cat <<E\<close> with a body.\<close>

definition heredoc_tree :: ts_node where
  "heredoc_tree =
    Node ''program'' True False 0 11
      [Node ''redirected_statement'' True False 0 11
        [Node ''command'' True False 0 3
          [Node ''command_name'' True False 0 3 [Node ''word'' True False 0 3 []]],
         Node ''heredoc_redirect'' True False 4 11 []]]"

theorem heredoc_prefix_conservative_witness:
  "\<exists>cmd. filter (\<lambda>n. node_kind n = ''command'') (named_nodes heredoc_tree) = [cmd] \<and>
    literal_words ''cat <<E a E'' (named_children cmd) [''cat'']"
proof -
  have e: "parse_shell_lc_single_command_prefix (\<lambda>_. Some heredoc_tree) [''bash'', ''-lc'', ''cat <<E a E''] = Some [''cat'']"
    "extract_bash_command [''bash'', ''-lc'', ''cat <<E a E''] = Some (''bash'', ''cat <<E a E'')" by code_simp+
  from e(1) [unfolded heredoc_prefix_conservative] e(2) show ?thesis by auto
qed

end
