(* ===== verification/Command_Safety.thy ===== *)
theory Command_Safety
  imports Bash_Commands
begin

text \<open>
  The command classifiers (shell-command/src/command_safety): \<open>is_dangerous_command.rs\<close>,
  \<open>is_safe_command.rs\<close> and \<open>windows_safe_commands.rs\<close>, as compiled for Unix.  What they take from
  outside is collected in a record: whether the target is Linux, the bash grammar, and the PowerShell
  process that \<open>parse_with_powershell_ast\<close> talks to (nothing unless it returns commands).
\<close>

record safety_env =
  target_linux :: bool
  try_parse_shell :: "string \<Rightarrow> ts_node option"
  powershell_ast :: "string \<Rightarrow> string \<Rightarrow> string list list option"

section \<open>Dangerous commands\<close>

definition is_git_global_option_with_value :: "string \<Rightarrow> bool" where
  "is_git_global_option_with_value arg \<longleftrightarrow>
    List.member [''-C'', ''-c'', ''--config-env'', ''--exec-path'', ''--git-dir'', ''--namespace'',
      ''--super-prefix'', ''--work-tree''] arg"

definition is_git_global_option_with_inline_value :: "string \<Rightarrow> bool" where
  "is_git_global_option_with_inline_value arg \<longleftrightarrow>
    starts_with ''--config-env='' arg \<or> starts_with ''--exec-path='' arg \<or> starts_with ''--git-dir='' arg \<or>
    starts_with ''--namespace='' arg \<or> starts_with ''--super-prefix='' arg \<or> starts_with ''--work-tree='' arg \<or>
    ((starts_with ''-C'' arg \<or> starts_with ''-c'' arg) \<and> length arg > 2)"

definition git_global_option_requires_prompt :: "string \<Rightarrow> bool" where
  "git_global_option_requires_prompt arg \<longleftrightarrow>
    List.member [''-C'', ''-c'', ''--config-env'', ''--exec-path'', ''--git-dir'', ''--namespace'',
      ''--super-prefix'', ''--work-tree''] arg \<or>
    ((starts_with ''-C'' arg \<or> starts_with ''-c'' arg) \<and> length arg > 2) \<or>
    starts_with ''--config-env='' arg \<or> starts_with ''--exec-path='' arg \<or> starts_with ''--git-dir='' arg \<or>
    starts_with ''--namespace='' arg \<or> starts_with ''--super-prefix='' arg \<or> starts_with ''--work-tree='' arg"

definition executable_name_lookup_key :: "string \<Rightarrow> string option" where
  "executable_name_lookup_key raw = path_file_name raw"

text \<open>The loop over the arguments, from position \<open>idx\<close> on.\<close>

fun git_subcommand_loop :: "string list \<Rightarrow> bool \<Rightarrow> nat \<Rightarrow> string list \<Rightarrow> (nat \<times> string) option" where
  "git_subcommand_loop subcommands skip_next idx [] = None"
| "git_subcommand_loop subcommands skip_next idx (arg # args) =
    (if skip_next then git_subcommand_loop subcommands False (idx + 1) args
     else if is_git_global_option_with_inline_value arg then git_subcommand_loop subcommands False (idx + 1) args
     else if is_git_global_option_with_value arg then git_subcommand_loop subcommands True (idx + 1) args
     else if arg = ''--'' \<or> starts_with ''-'' arg then git_subcommand_loop subcommands False (idx + 1) args
     else if List.member subcommands arg then Some (idx, arg)
     else None)"

definition find_git_subcommand :: "string list \<Rightarrow> string list \<Rightarrow> (nat \<times> string) option" where
  "find_git_subcommand command subcommands =
    (case command of
       [] \<Rightarrow> None
     | cmd0 # args \<Rightarrow>
         if executable_name_lookup_key cmd0 \<noteq> Some ''git'' then None
         else git_subcommand_loop subcommands False 1 args)"

fun is_dangerous_to_call_with_exec :: "string list \<Rightarrow> bool" where
  "is_dangerous_to_call_with_exec [] = False"
| "is_dangerous_to_call_with_exec (cmd0 # args) =
    (if cmd0 = ''rm'' then (case args of [] \<Rightarrow> False | a # _ \<Rightarrow> a = ''-f'' \<or> a = ''-rf'')
     else if cmd0 = ''sudo'' then is_dangerous_to_call_with_exec args
     else False)"

definition command_might_be_dangerous :: "safety_env \<Rightarrow> string list \<Rightarrow> bool" where
  "command_might_be_dangerous env command =
    (if is_dangerous_to_call_with_exec command then True
     else (case parse_shell_lc_plain_commands (try_parse_shell env) command of
        Some all_commands \<Rightarrow> list_ex is_dangerous_to_call_with_exec all_commands
      | None \<Rightarrow> False))"

section \<open>Safe git commands\<close>

definition git_has_unsafe_global_option :: "string list \<Rightarrow> bool" where
  "git_has_unsafe_global_option command = list_ex git_global_option_requires_prompt (drop 1 command)"

definition git_subcommand_args_are_read_only :: "string list \<Rightarrow> bool" where
  "git_subcommand_args_are_read_only args \<longleftrightarrow>
    \<not> list_ex (\<lambda>arg.
        List.member [''--output'', ''--ext-diff'', ''--textconv'', ''--exec'', ''--paginate''] arg \<or>
        starts_with ''--output='' arg \<or> starts_with ''--exec='' arg) args"

fun branch_args_loop :: "string list \<Rightarrow> bool \<Rightarrow> bool" where
  "branch_args_loop [] saw_read_only_flag = saw_read_only_flag"
| "branch_args_loop (arg # args) saw_read_only_flag =
    (if List.member [''--list'', ''-l'', ''--show-current'', ''-a'', ''--all'', ''-r'', ''--remotes'', ''-v'',
        ''-vv'', ''--verbose''] arg \<or> starts_with ''--format='' arg
     then branch_args_loop args True
     else False)"

definition git_branch_is_read_only :: "string list \<Rightarrow> bool" where
  "git_branch_is_read_only branch_args = (if branch_args = [] then True else branch_args_loop branch_args False)"

definition is_safe_git_command :: "string list \<Rightarrow> bool" where
  "is_safe_git_command command =
    (if git_has_unsafe_global_option command then False
     else (case find_git_subcommand command [''status'', ''log'', ''diff'', ''show'', ''branch''] of
        None \<Rightarrow> False
      | Some (subcommand_idx, subcommand) \<Rightarrow>
          (let subcommand_args = drop (subcommand_idx + 1) command in
           if List.member [''status'', ''log'', ''diff'', ''show''] subcommand
           then git_subcommand_args_are_read_only subcommand_args
           else if subcommand = ''branch''
           then git_subcommand_args_are_read_only subcommand_args \<and> git_branch_is_read_only subcommand_args
           else False)))"

section \<open>Safe PowerShell invocations\<close>

definition trim_matches :: "(char \<Rightarrow> bool) \<Rightarrow> string \<Rightarrow> string" where
  "trim_matches P s = rev (dropWhile P (rev (dropWhile P s)))"

definition powershell_inner_word :: "string \<Rightarrow> string" where
  "powershell_inner_word w =
    to_ascii_lowercase (dropWhile (\<lambda>c. c = CHR ''-'') (trim_matches (\<lambda>c. c = CHR ''('' \<or> c = CHR '')'') w))"

definition side_effecting_cmdlets :: "string list" where
  "side_effecting_cmdlets =
    [''set-content'', ''add-content'', ''out-file'', ''new-item'', ''remove-item'', ''move-item'', ''copy-item'',
     ''rename-item'', ''start-process'', ''stop-process'']"

definition is_safe_ripgrep :: "string list \<Rightarrow> bool" where
  "is_safe_ripgrep ws \<longleftrightarrow>
    \<not> list_ex (\<lambda>arg.
        (let arg_lc = to_ascii_lowercase arg in
         List.member [''--search-zip'', ''-z''] arg_lc \<or>
         list_ex (\<lambda>opt. arg_lc = opt \<or> starts_with (opt @ ''='') arg_lc) [''--pre'', ''--hostname-bin'']))
      (drop 1 ws)"

definition is_safe_powershell_words :: "string list \<Rightarrow> bool" where
  "is_safe_powershell_words ws =
    (case ws of
       [] \<Rightarrow> False
     | w # _ \<Rightarrow>
         if list_ex (\<lambda>w. List.member side_effecting_cmdlets (powershell_inner_word w)) ws then False
         else (let command = powershell_inner_word w in
           if List.member [''echo'', ''write-output'', ''write-host'', ''dir'', ''ls'', ''get-childitem'', ''gci'',
                ''cat'', ''type'', ''gc'', ''get-content'', ''select-string'', ''sls'', ''findstr'',
                ''measure-object'', ''measure'', ''get-location'', ''gl'', ''pwd'', ''test-path'', ''tp'',
                ''resolve-path'', ''rvpa'', ''select-object'', ''select'', ''get-item''] command
           then True
           else if command = ''git'' then is_safe_git_command ws
           else if command = ''rg'' then is_safe_ripgrep ws
           else False))"

definition quote_argument :: "string \<Rightarrow> string" where
  "quote_argument arg =
    (if arg = [] then [CHR 0x27, CHR 0x27]
     else if \<not> has_whitespace arg then arg
     else [CHR 0x27] @ concat (map (\<lambda>c. if c = CHR 0x27 then [c, c] else [c]) arg) @ [CHR 0x27])"

definition join_arguments_as_script :: "string list \<Rightarrow> string" where
  "join_arguments_as_script args =
    (case args of
       [] \<Rightarrow> []
     | first # rest \<Rightarrow> join_with '' '' (first # map quote_argument rest))"

definition is_powershell_executable :: "string \<Rightarrow> bool" where
  "is_powershell_executable exe =
    (let executable_name = to_ascii_lowercase (case path_file_name exe of Some n \<Rightarrow> n | None \<Rightarrow> exe) in
     List.member [''powershell'', ''powershell.exe'', ''pwsh'', ''pwsh.exe''] executable_name)"

fun powershell_args_loop :: "safety_env \<Rightarrow> string \<Rightarrow> string list \<Rightarrow> string list list option" where
  "powershell_args_loop env executable [] = None"
| "powershell_args_loop env executable (arg # args) =
    (let lower = to_ascii_lowercase arg in
     if List.member [''-command'', ''/command'', ''-c''] lower then
       (case args of [script] \<Rightarrow> powershell_ast env executable script | _ \<Rightarrow> None)
     else if starts_with ''-command:'' lower \<or> starts_with ''/command:'' lower then
       (if args \<noteq> [] then None
        else (case split_once (CHR '':'') arg of
           None \<Rightarrow> None
         | Some (_, script) \<Rightarrow> powershell_ast env executable script))
     else if List.member [''-nologo'', ''-noprofile'', ''-noninteractive'', ''-mta'', ''-sta''] lower then
       powershell_args_loop env executable args
     else if List.member [''-encodedcommand'', ''-ec'', ''-file'', ''/file'', ''-windowstyle'', ''-executionpolicy'',
         ''-workingdirectory''] lower then None
     else if starts_with ''-'' lower then None
     else powershell_ast env executable (join_arguments_as_script (arg # args)))"

definition parse_powershell_invocation :: "safety_env \<Rightarrow> string \<Rightarrow> string list \<Rightarrow> string list list option" where
  "parse_powershell_invocation env executable args =
    (if args = [] then None else powershell_args_loop env executable args)"

definition try_parse_powershell_command_sequence :: "safety_env \<Rightarrow> string list \<Rightarrow> string list list option" where
  "try_parse_powershell_command_sequence env command =
    (case command of
       [] \<Rightarrow> None
     | exe # rest \<Rightarrow>
         if is_powershell_executable exe then parse_powershell_invocation env exe rest else None)"

definition is_safe_command_windows :: "safety_env \<Rightarrow> string list \<Rightarrow> bool" where
  "is_safe_command_windows env command =
    (case try_parse_powershell_command_sequence env command of
       Some commands \<Rightarrow> list_all is_safe_powershell_words commands
     | None \<Rightarrow> False)"

section \<open>Safe commands\<close>

definition is_valid_sed_n_arg :: "string option \<Rightarrow> bool" where
  "is_valid_sed_n_arg arg =
    (case arg of
       None \<Rightarrow> False
     | Some s \<Rightarrow>
         (case strip_suffix ''p'' s of
            None \<Rightarrow> False
          | Some core \<Rightarrow>
              (case split_char (CHR '','') core of
                 [num] \<Rightarrow> num \<noteq> [] \<and> list_all is_ascii_digit num
               | [a, b] \<Rightarrow> a \<noteq> [] \<and> b \<noteq> [] \<and> list_all is_ascii_digit a \<and> list_all is_ascii_digit b
               | _ \<Rightarrow> False)))"

definition nth_opt :: "'a list \<Rightarrow> nat \<Rightarrow> 'a option" where
  "nth_opt xs i = (if i < length xs then Some (xs ! i) else None)"

definition plain_safe_programs :: "string list" where
  "plain_safe_programs =
    [''cat'', ''cd'', ''cut'', ''echo'', ''expr'', ''false'', ''grep'', ''head'', ''id'', ''ls'', ''nl'', ''paste'',
     ''pwd'', ''rev'', ''seq'', ''stat'', ''tail'', ''tr'', ''true'', ''uname'', ''uniq'', ''wc'', ''which'', ''whoami'']"

definition base64_arg_unsafe :: "string \<Rightarrow> bool" where
  "base64_arg_unsafe arg \<longleftrightarrow>
    List.member [''-o'', ''--output''] arg \<or> starts_with ''--output='' arg \<or>
    (starts_with ''-o'' arg \<and> arg \<noteq> ''-o'')"

definition find_arg_unsafe :: "string \<Rightarrow> bool" where
  "find_arg_unsafe arg \<longleftrightarrow>
    List.member [''-exec'', ''-execdir'', ''-ok'', ''-okdir'', ''-delete'', ''-fls'', ''-fprint'', ''-fprint0'',
      ''-fprintf''] arg"

definition rg_arg_unsafe :: "string \<Rightarrow> bool" where
  "rg_arg_unsafe arg \<longleftrightarrow>
    List.member [''--search-zip'', ''-z''] arg \<or>
    list_ex (\<lambda>opt. arg = opt \<or> starts_with (opt @ ''='') arg) [''--pre'', ''--hostname-bin'']"

definition is_safe_to_call_with_exec :: "safety_env \<Rightarrow> string list \<Rightarrow> bool" where
  "is_safe_to_call_with_exec env command =
    (case command of
       [] \<Rightarrow> False
     | cmd0 # args \<Rightarrow>
         (case executable_name_lookup_key cmd0 of
            None \<Rightarrow> False
          | Some cmd \<Rightarrow>
              if target_linux env \<and> List.member [''numfmt'', ''tac''] cmd then True
              else if List.member plain_safe_programs cmd then True
              else if cmd = ''base64'' then \<not> list_ex base64_arg_unsafe args
              else if cmd = ''find'' then \<not> list_ex find_arg_unsafe command
              else if cmd = ''rg'' then \<not> list_ex rg_arg_unsafe command
              else if cmd = ''git'' then is_safe_git_command command
              else if cmd = ''sed'' \<and> length command \<le> 4 \<and> nth_opt command 1 = Some ''-n'' \<and>
                  is_valid_sed_n_arg (nth_opt command 2) then True
              else False))"

definition is_known_safe_command :: "safety_env \<Rightarrow> string list \<Rightarrow> bool" where
  "is_known_safe_command env command =
    (let command = map (\<lambda>s. if s = ''zsh'' then ''bash'' else s) command in
     if is_safe_command_windows env command then True
     else if is_safe_to_call_with_exec env command then True
     else (case parse_shell_lc_plain_commands (try_parse_shell env) command of
        Some all_commands \<Rightarrow> all_commands \<noteq> [] \<and> list_all (is_safe_to_call_with_exec env) all_commands
      | None \<Rightarrow> False))"

section \<open>Names of shells\<close>

lemma path_file_name_no_slash: "path_file_name p = Some n \<Longrightarrow> slash \<notin> set n"
  using path_file_name_piece split_char_no_sep by blast

lemma path_file_name_plain: "slash \<notin> set s \<Longrightarrow> path_file_name s = Some m \<Longrightarrow> m = s"
  by (auto simp: path_file_name_def path_components_def Let_def split: option.splits Component.splits if_splits)

lemma stem_of_cases: "stem_of n = s \<Longrightarrow> n = s \<or> (\<exists>rest. n = s @ CHR ''.'' # rest)"
  by (auto simp: stem_of_def split: option.splits if_splits dest!: rsplit_once_Some)

lemma path_file_name_shells:
  "path_file_name ''zsh'' = Some ''zsh''" "path_file_name ''sh'' = Some ''sh''" "path_file_name ''cmd'' = Some ''cmd''"
  "path_file_name ''bash'' = Some ''bash''" "path_file_name ''pwsh'' = Some ''pwsh''"
  "path_file_name ''powershell'' = Some ''powershell''"
  by code_simp+

definition shell_names :: "string set" where
  "shell_names = {''zsh'', ''sh'', ''cmd'', ''bash'', ''pwsh'', ''powershell''}"

text \<open>A detected shell is named by its file name up to some dot.\<close>

lemma detect_shell_name:
  "detect_shell_type p = Some t \<Longrightarrow>
    \<exists>base ext. path_file_name p = Some (base @ ext) \<and> (ext = [] \<or> hd ext = CHR ''.'') \<and>
      base \<in> shell_names \<and> detect_shell_type base = Some t"
proof (induction p rule: detect_shell_type.induct)
  case (1 p)
  show ?case
  proof (cases "p \<in> shell_names")
    case True
    then have "path_file_name p = Some p" using path_file_name_shells by (auto simp: shell_names_def)
    with True "1.prems" show ?thesis by (intro exI [of _ p] exI [of _ "[]"]) simp
  next
    case False
    then have unfold: "detect_shell_type p = (case path_file_stem p of
        Some s \<Rightarrow> if path_components s \<noteq> path_components p then detect_shell_type s else None | None \<Rightarrow> None)"
      by (subst detect_shell_type.simps) (simp add: shell_names_def)
    then obtain s where s: "path_file_stem p = Some s" "path_components s \<noteq> path_components p" "detect_shell_type s = Some t"
      using "1.prems" by (auto split: option.splits if_splits)
    obtain n where n: "path_file_name p = Some n" "stem_of n = s" using s(1) by (auto simp: path_file_stem_def)
    have "p \<noteq> ''zsh''" "p \<noteq> ''sh''" "p \<noteq> ''cmd''" "p \<noteq> ''bash''" "p \<noteq> ''pwsh''" "p \<noteq> ''powershell''"
      using False by (auto simp: shell_names_def)
    from "1.IH" [OF this s(1,2,3)] obtain base ext where b: "path_file_name s = Some (base @ ext)"
      "ext = [] \<or> hd ext = CHR ''.''" "base \<in> shell_names" "detect_shell_type base = Some t" by blast
    consider "n = s" | rest where "n = s @ CHR ''.'' # rest" using stem_of_cases [OF n(2)] by blast
    note stem = this
    then have "set s \<subseteq> set n" by cases auto
    then have s': "s = base @ ext"
      using path_file_name_plain [OF _ b(1)] path_file_name_no_slash [OF n(1)] by blast
    from stem show ?thesis
    proof cases
      case 1
      with s' n(1) b show ?thesis by blast
    next
      case (2 rest)
      with s' have "n = base @ (ext @ CHR ''.'' # rest)" by simp
      moreover have "hd (ext @ CHR ''.'' # rest) = CHR ''.''" using b(2) by (cases ext) auto
      ultimately show ?thesis using n(1) b(3,4) by blast
    qed
  qed
qed

definition is_posix_shell :: "ShellType option \<Rightarrow> bool" where
  "is_posix_shell t \<longleftrightarrow> t \<in> {Some Zsh, Some Bash, Some Sh}"

lemma detect_names:
  "detect_shell_type ''cmd'' = Some Cmd" "detect_shell_type ''pwsh'' = Some PowerShell"
  "detect_shell_type ''powershell'' = Some PowerShell" "detect_shell_type ''bash'' = Some Bash"
  by (simp_all add: detect_shell_type.simps)

lemma posix_shell_name:
  assumes "is_posix_shell (detect_shell_type p)"
  shows "\<exists>base ext. path_file_name p = Some (base @ ext) \<and> (ext = [] \<or> hd ext = CHR ''.'') \<and>
    base \<in> {''zsh'', ''sh'', ''bash''}"
proof -
  obtain t where t: "detect_shell_type p = Some t" "t \<in> {Zsh, Bash, Sh}"
    using assms by (auto simp: is_posix_shell_def)
  from detect_shell_name [OF t(1)] obtain base ext where
    "path_file_name p = Some (base @ ext)" "ext = [] \<or> hd ext = CHR ''.''" "base \<in> shell_names" "detect_shell_type base = Some t"
    by blast
  with t(2) show ?thesis by (auto simp: shell_names_def detect_names)
qed

lemma posix_shell_not_powershell: "is_posix_shell (detect_shell_type p) \<Longrightarrow> \<not> is_powershell_executable p"
  by (drule posix_shell_name)
    (auto simp: is_powershell_executable_def to_ascii_lowercase_def to_ascii_lowercase_char_def)

definition safe_keys :: "string set" where
  "safe_keys = {''numfmt'', ''tac'', ''base64'', ''find'', ''rg'', ''git'', ''sed''} \<union> set plain_safe_programs"

lemma exec_safe_key:
  "is_safe_to_call_with_exec env (c # args) \<Longrightarrow> \<exists>n\<in>safe_keys. path_file_name c = Some n"
  by (auto simp: is_safe_to_call_with_exec_def executable_name_lookup_key_def safe_keys_def List.member_iff
      split: option.splits if_splits)

lemma shell_not_safe_key:
  "base \<in> {''zsh'', ''sh'', ''bash''} \<Longrightarrow> base @ ext \<notin> safe_keys"
  by (elim insertE) (simp_all add: safe_keys_def plain_safe_programs_def)

lemma posix_shell_not_safe: "is_posix_shell (detect_shell_type p) \<Longrightarrow> \<not> is_safe_to_call_with_exec env (p # args)"
proof
  assume "is_posix_shell (detect_shell_type p)" "is_safe_to_call_with_exec env (p # args)"
  then obtain base ext n where "path_file_name p = Some (base @ ext)" "base \<in> {''zsh'', ''sh'', ''bash''}"
    "path_file_name p = Some n" "n \<in> safe_keys"
    using posix_shell_name exec_safe_key by meson
  then show False using shell_not_safe_key [of base ext] by (metis option.inject)
qed

lemma extract_bash_command_Some:
  "extract_bash_command command = Some (shell, script) \<longleftrightarrow>
    is_posix_shell (detect_shell_type shell) \<and> (\<exists>flag. (flag = ''-lc'' \<or> flag = ''-c'') \<and> command = [shell, flag, script])"
  by (auto simp: extract_bash_command_def is_posix_shell_def split: list.splits option.splits ShellType.splits if_splits)

section \<open>Dangerous is not safe\<close>

lemma dangerous_head: "is_dangerous_to_call_with_exec command \<Longrightarrow> \<exists>c args. command = c # args \<and> c \<in> {''rm'', ''sudo''}"
  by (cases command) (auto split: if_splits)

lemma head_not_safe: "c \<in> {''rm'', ''sudo''} \<Longrightarrow> \<not> is_safe_to_call_with_exec env (c # args)"
proof -
  have "path_file_name ''rm'' = Some ''rm''" "path_file_name ''sudo'' = Some ''sudo''" by code_simp+
  moreover have "''rm'' \<notin> safe_keys" "''sudo'' \<notin> safe_keys" by (simp_all add: safe_keys_def plain_safe_programs_def)
  ultimately show "c \<in> {''rm'', ''sudo''} \<Longrightarrow> ?thesis"
    using exec_safe_key [of env c args] by (metis empty_iff insert_iff option.inject)
qed

lemma dangerous_not_exec_safe: "is_dangerous_to_call_with_exec command \<Longrightarrow> \<not> is_safe_to_call_with_exec env command"
  using dangerous_head head_not_safe by blast

lemma head_not_shell:
  "c \<in> {''rm'', ''sudo''} \<Longrightarrow> \<not> is_powershell_executable c \<and> \<not> is_posix_shell (detect_shell_type c)"
proof -
  have "\<not> is_powershell_executable ''rm''" "\<not> is_powershell_executable ''sudo''"
    "detect_shell_type ''rm'' = None" "detect_shell_type ''sudo'' = None" by code_simp+
  then show "c \<in> {''rm'', ''sudo''} \<Longrightarrow> ?thesis" by (auto simp: is_posix_shell_def)
qed

lemma parse_shell_Some:
  "parse_shell_lc_plain_commands f command = Some cmds \<Longrightarrow>
    \<exists>shell flag script. is_posix_shell (detect_shell_type shell) \<and> (flag = ''-lc'' \<or> flag = ''-c'') \<and> command = [shell, flag, script] \<and>
      (\<forall>shell'. is_posix_shell (detect_shell_type shell') \<longrightarrow> parse_shell_lc_plain_commands f [shell', flag, script] = Some cmds)"
proof -
  assume *: "parse_shell_lc_plain_commands f command = Some cmds"
  then obtain shell script where e: "extract_bash_command command = Some (shell, script)"
    by (auto simp: parse_shell_lc_plain_commands_def split: option.splits)
  then obtain flag where f: "is_posix_shell (detect_shell_type shell)" "flag = ''-lc'' \<or> flag = ''-c''" "command = [shell, flag, script]"
    by (auto simp: extract_bash_command_Some)
  moreover have "extract_bash_command [shell', flag, script] = Some (shell', script)"
    if "is_posix_shell (detect_shell_type shell')" for shell'
    using that f(2) by (auto simp: extract_bash_command_Some)
  then have "parse_shell_lc_plain_commands f [shell', flag, script] = Some cmds"
    if "is_posix_shell (detect_shell_type shell')" for shell'
    using * e that by (simp add: parse_shell_lc_plain_commands_def)
  ultimately show ?thesis by blast
qed

lemma parse_shell_head: "parse_shell_lc_plain_commands f (c # args) = Some cmds \<Longrightarrow> is_posix_shell (detect_shell_type c)"
  by (drule parse_shell_Some) blast

lemma not_safe_windows: "\<not> is_powershell_executable c \<Longrightarrow> \<not> is_safe_command_windows env (c # args)"
  by (simp add: is_safe_command_windows_def try_parse_powershell_command_sequence_def)

section \<open>Git\<close>

lemma git_subcommand_loop_eq:
  "list_all (\<lambda>a. \<not> git_global_option_requires_prompt a) args \<Longrightarrow>
    git_subcommand_loop subs False i args =
      (case dropWhile (starts_with ''-'') args of
         [] \<Rightarrow> None
       | sub # _ \<Rightarrow> if List.member subs sub
                    then Some (i + length (takeWhile (starts_with ''-'') args), sub) else None)"
proof (induction args arbitrary: i)
  case (Cons a args)
  then have "\<not> is_git_global_option_with_value a" "\<not> is_git_global_option_with_inline_value a"
    by (auto simp: git_global_option_requires_prompt_def is_git_global_option_with_value_def
        is_git_global_option_with_inline_value_def)
  with Cons show ?case
    by (cases "starts_with ''-'' a"; cases "dropWhile (starts_with ''-'') args")
      (auto simp del: dropWhile_eq_Nil_conv)
qed simp

definition branch_query_flag :: "string \<Rightarrow> bool" where
  "branch_query_flag arg \<longleftrightarrow>
    arg \<in> {''--list'', ''-l'', ''--show-current'', ''-a'', ''--all'', ''-r'', ''--remotes'', ''-v'', ''-vv'', ''--verbose''} \<or>
    starts_with ''--format='' arg"

lemma branch_args_loop_eq: "branch_args_loop args saw \<longleftrightarrow> list_all branch_query_flag args \<and> (args \<noteq> [] \<or> saw)"
  by (induction args arbitrary: saw) (auto simp: branch_query_flag_def List.member_iff)

lemma git_branch_is_read_only_eq: "git_branch_is_read_only args \<longleftrightarrow> list_all branch_query_flag args"
  by (simp add: git_branch_is_read_only_def branch_args_loop_eq)

lemma git_subcommand_not_option:
  "sub \<in> {''status'', ''log'', ''diff'', ''show'', ''branch''} \<Longrightarrow>
    \<not> git_global_option_requires_prompt sub \<and> \<not> starts_with ''-'' sub"
  by (elim insertE) (simp_all add: git_global_option_requires_prompt_def)

lemma safe_git_Nil [simp]: "\<not> is_safe_git_command []"
  by (auto simp: is_safe_git_command_def find_git_subcommand_def)

lemma safe_git_cases:
  "is_safe_git_command (exe # as) \<longleftrightarrow>
    path_file_name exe = Some ''git'' \<and> list_all (\<lambda>a. \<not> git_global_option_requires_prompt a) as \<and>
    (case dropWhile (starts_with ''-'') as of
       [] \<Rightarrow> False
     | sub # args \<Rightarrow> sub \<in> {''status'', ''log'', ''diff'', ''show'', ''branch''} \<and>
         git_subcommand_args_are_read_only args \<and> (sub \<noteq> ''branch'' \<or> list_all branch_query_flag args))"
proof (cases "list_all (\<lambda>a. \<not> git_global_option_requires_prompt a) as \<and> path_file_name exe = Some ''git''")
  case True
  obtain opts D where as: "takeWhile (starts_with ''-'') as = opts" "dropWhile (starts_with ''-'') as = D" "as = opts @ D"
    by (metis takeWhile_dropWhile_id)
  have drop: "drop (Suc (length opts)) as = tl D" by (subst as(3)) (simp add: drop_Suc)
  have "\<not> git_has_unsafe_global_option (exe # as)"
    using True by (auto simp: git_has_unsafe_global_option_def list_ex_iff list_all_iff)
  with True as(1,2) show ?thesis
    by (cases D) (auto simp: is_safe_git_command_def find_git_subcommand_def git_subcommand_loop_eq
        executable_name_lookup_key_def git_branch_is_read_only_eq drop simp del: dropWhile_eq_Nil_conv)
next
  case False
  then show ?thesis
    by (auto simp: is_safe_git_command_def find_git_subcommand_def executable_name_lookup_key_def
        git_has_unsafe_global_option_def list_ex_iff list_all_iff)
qed

section \<open>Line ranges\<close>

definition all_decimal :: "string \<Rightarrow> bool" where
  "all_decimal s \<longleftrightarrow> s \<noteq> [] \<and> list_all is_ascii_digit s"

lemma strip_suffix_append: "strip_suffix p (s @ p) = Some s"
  by (simp add: strip_suffix_def ends_with_iff_suffix)

lemma strip_suffix_Some_iff: "strip_suffix p s = Some r \<longleftrightarrow> s = r @ p"
  by (auto simp: strip_suffix_def ends_with_iff_suffix split: if_splits)

section \<open>Properties\<close>

lemma known_safe_not_dangerous:
  assumes "is_known_safe_command env command" "drop 2 command \<noteq> [''zsh'']"
  shows "\<not> command_might_be_dangerous env command"
proof
  let ?z = "map (\<lambda>s. if s = ''zsh'' then ''bash'' else s)"
  assume "command_might_be_dangerous env command"
  then consider (direct) "is_dangerous_to_call_with_exec command"
    | (shell) cmds where "parse_shell_lc_plain_commands (try_parse_shell env) command = Some cmds"
        "list_ex is_dangerous_to_call_with_exec cmds"
    by (auto simp: command_might_be_dangerous_def split: if_splits option.splits)
  then show False
  proof cases
    case direct
    then obtain c args where c: "command = c # args" "c \<in> {''rm'', ''sudo''}" using dangerous_head by blast
    then have z: "?z command = c # ?z args" by auto
    have "parse_shell_lc_plain_commands (try_parse_shell env) (c # ?z args) = None"
      using parse_shell_head [of "try_parse_shell env" c "?z args"] head_not_shell [OF c(2)]
      by (cases "parse_shell_lc_plain_commands (try_parse_shell env) (c # ?z args)") simp_all
    then show False
      using assms(1) not_safe_windows head_not_shell [OF c(2)] head_not_safe [OF c(2)]
      by (simp add: is_known_safe_command_def z)
  next
    case shell
    obtain sh flag script where c: "is_posix_shell (detect_shell_type sh)" "flag = ''-lc'' \<or> flag = ''-c''" "command = [sh, flag, script]"
      and parse: "\<And>sh'. is_posix_shell (detect_shell_type sh') \<Longrightarrow>
        parse_shell_lc_plain_commands (try_parse_shell env) [sh', flag, script] = Some cmds"
      using parse_shell_Some [OF shell(1)] by blast
    define sh' where "sh' = (if sh = ''zsh'' then ''bash'' else sh)"
    have z: "?z command = [sh', flag, script]" using c assms(2) by (auto simp: sh'_def)
    have sh': "is_posix_shell (detect_shell_type sh')"
      using c(1) by (simp add: sh'_def detect_names is_posix_shell_def)
    then have "list_all (is_safe_to_call_with_exec env) cmds"
      using assms(1) not_safe_windows [OF posix_shell_not_powershell] posix_shell_not_safe parse
      by (simp add: is_known_safe_command_def z)
    with shell(2) dangerous_not_exec_safe show False by (auto simp: list_all_iff list_ex_iff)
  qed
qed

text \<open>C22: No command is both known to be safe and flagged as dangerous: neither directly nor through a shell
  wrapper, whatever the bash grammar and the PowerShell parser return.  The one invocation left out
  is a shell script that consists of the word \<open>zsh\<close>, which the safe-list check reads as \<open>bash\<close>.\<close>

theorem safe_not_dangerous:
  assumes "is_known_safe_command env command" "drop 2 command \<noteq> [''zsh'']"
  shows "\<not> command_might_be_dangerous env command"
  using assms by (rule known_safe_not_dangerous)

definition ls_env :: safety_env where
  "ls_env = \<lparr>target_linux = True, try_parse_shell = (\<lambda>s. if s = ''ls -l | wc'' then Some ls_wc_tree else None),
    powershell_ast = (\<lambda>_ _. None)\<rparr>"

theorem safe_not_dangerous_witness:
  "is_known_safe_command ls_env [''zsh'', ''-lc'', ''ls -l | wc''] \<and>
   \<not> command_might_be_dangerous ls_env [''zsh'', ''-lc'', ''ls -l | wc'']"
proof -
  have "is_known_safe_command ls_env [''zsh'', ''-lc'', ''ls -l | wc'']" by code_simp
  with safe_not_dangerous [OF this] show ?thesis by simp
qed

text \<open>A git command is approved exactly when it is \<open>git\<close>, options, one of the five read-only subcommands,
  and arguments, where no argument at all can redirect git's configuration, repository or helpers, no
  argument of the subcommand writes a file or runs a program, and \<open>branch\<close> has only listing flags.\<close>

theorem safe_git_command_iff:
  "is_safe_git_command command \<longleftrightarrow>
    (\<exists>exe opts sub args. command = exe # opts @ sub # args \<and> path_file_name exe = Some ''git'' \<and>
       list_all (starts_with ''-'') opts \<and>
       sub \<in> {''status'', ''log'', ''diff'', ''show'', ''branch''} \<and>
       list_all (\<lambda>a. \<not> git_global_option_requires_prompt a) (opts @ args) \<and>
       git_subcommand_args_are_read_only args \<and>
       (sub \<noteq> ''branch'' \<or> list_all branch_query_flag args))"
  (is "_ \<longleftrightarrow> ?rhs")
proof
  assume safe: "is_safe_git_command command"
  then obtain exe as where c: "command = exe # as"
    by (cases command) simp_all
  obtain sub args where d: "dropWhile (starts_with ''-'') as = sub # args"
    using safe c by (auto simp: safe_git_cases split: list.splits)
  have facts: "path_file_name exe = Some ''git''" "sub \<in> {''status'', ''log'', ''diff'', ''show'', ''branch''}"
    "list_all (\<lambda>a. \<not> git_global_option_requires_prompt a) as" "git_subcommand_args_are_read_only args"
    "sub \<noteq> ''branch'' \<or> list_all branch_query_flag args"
    using safe unfolding c safe_git_cases d list.case by simp_all
  define opts where "opts = takeWhile (starts_with ''-'') as"
  have opts: "list_all (starts_with ''-'') opts" by (auto simp: opts_def list_all_iff dest: set_takeWhileD)
  have as: "as = opts @ sub # args"
    using takeWhile_dropWhile_id [of "starts_with ''-''" as, symmetric] unfolding d opts_def .
  have "list_all (\<lambda>a. \<not> git_global_option_requires_prompt a) (opts @ args)" using facts(3) unfolding as by simp
  with c opts facts(1,2,4,5) show ?rhs
    unfolding as by (intro exI [where x = exe] exI [where x = opts] exI [where x = sub] exI [where x = args] conjI)
next
  assume ?rhs
  then obtain exe opts sub args where r: "command = exe # opts @ sub # args \<and> path_file_name exe = Some ''git'' \<and>
       list_all (starts_with ''-'') opts \<and> sub \<in> {''status'', ''log'', ''diff'', ''show'', ''branch''} \<and>
       list_all (\<lambda>a. \<not> git_global_option_requires_prompt a) (opts @ args) \<and>
       git_subcommand_args_are_read_only args \<and> (sub \<noteq> ''branch'' \<or> list_all branch_query_flag args)"
    by (elim exE) (rule that)
  have "\<not> git_global_option_requires_prompt sub" "\<not> starts_with ''-'' sub"
    using r git_subcommand_not_option by auto
  moreover have "dropWhile (starts_with ''-'') (opts @ sub # args) = sub # args"
    using r calculation(2) by (auto simp: dropWhile_append list_all_iff)
  ultimately show "is_safe_git_command command"
    using r by (simp add: safe_git_cases)
qed

theorem safe_git_command_iff_witness:
  "is_safe_git_command [''/usr/bin/git'', ''--no-pager'', ''branch'', ''--list''] \<and> branch_query_flag ''--list''"
proof -
  have "path_file_name ''/usr/bin/git'' = Some ''git''" "branch_query_flag ''--list''"
    "list_all (\<lambda>a. \<not> git_global_option_requires_prompt a) [''--no-pager'', ''--list'']"
    "git_subcommand_args_are_read_only [''--list'']" by code_simp+
  then have "is_safe_git_command [''/usr/bin/git'', ''--no-pager'', ''branch'', ''--list'']"
    by (intro safe_git_command_iff [THEN iffD2] exI [where x = "''/usr/bin/git''"] exI [where x = "[''--no-pager'']"]
        exI [where x = "''branch''"] exI [where x = "[''--list'']"]) simp
  then show ?thesis using \<open>branch_query_flag ''--list''\<close> by simp
qed

text \<open>The one flag that pages output is recognised after the subcommand only, although git takes it before.\<close>

lemma paginate_before_subcommand:
  "is_safe_git_command [''git'', ''--paginate'', ''log''] \<and> \<not> is_safe_git_command [''git'', ''log'', ''--paginate'']"
  by code_simp

text \<open>The argument of \<open>sed -n\<close> is accepted exactly when it matches \<open>(digits,)?digits p\<close>.\<close>

theorem sed_arg_iff:
  "is_valid_sed_n_arg (Some s) \<longleftrightarrow>
    (\<exists>pre num. s = pre @ num @ ''p'' \<and> all_decimal num \<and> (pre = [] \<or> (\<exists>a. pre = a @ '','' \<and> all_decimal a)))"
  (is "_ \<longleftrightarrow> ?rhs")
proof
  assume "is_valid_sed_n_arg (Some s)"
  then obtain core where s: "s = core @ ''p''"
    and parts: "(\<exists>num. split_char (CHR '','') core = [num] \<and> all_decimal num) \<or>
      (\<exists>a b. split_char (CHR '','') core = [a, b] \<and> all_decimal a \<and> all_decimal b)"
    by (auto simp: is_valid_sed_n_arg_def all_decimal_def strip_suffix_Some_iff split: option.splits list.splits)
  from parts show ?rhs
  proof (elim disjE exE conjE)
    fix num assume "split_char (CHR '','') core = [num]" "all_decimal num"
    then show ?rhs using s join_split_char [of "CHR '',''" core] by (intro exI [of _ "[]"] exI [of _ num]) simp
  next
    fix a b assume "split_char (CHR '','') core = [a, b]" "all_decimal a" "all_decimal b"
    then show ?rhs
      using s join_split_char [of "CHR '',''" core] by (intro exI [of _ "a @ '',''"] exI [of _ b]) auto
  qed
next
  have no: "CHR '','' \<notin> set d" if "all_decimal d" for d
    using that by (auto simp: all_decimal_def list_all_iff is_ascii_digit_def)
  assume ?rhs
  then obtain pre num where s: "s = (pre @ num) @ ''p''" and num: "all_decimal num"
    and pre: "pre = [] \<or> (\<exists>a. pre = a @ '','' \<and> all_decimal a)" by auto
  have "strip_suffix ''p'' s = Some (pre @ num)" unfolding s by (rule strip_suffix_append)
  with num pre no show "is_valid_sed_n_arg (Some s)"
    by (auto simp: is_valid_sed_n_arg_def split_char_append all_decimal_def)
qed

end
