(* ===== verification/Sandbox_Policy.thy ===== *)
theory Sandbox_Policy
  imports Abs_Path "HOL-Library.Product_Lexorder"
begin

text \<open>
  File-system sandbox policies (protocol/src/permissions.rs): entries that grant or deny access to
  paths, globs and special paths, the access they resolve to for a path, and the operations that
  derive one policy from another.  Paths are Unix paths; two paths are equal when their components
  are.  The environment (home and current directory, \<open>TMPDIR\<close>, what the file system contains) is an
  argument.
\<close>

record path_env =
  pe_home :: "string option"
  pe_cwd :: "string option"
  pe_tmpdir :: "string option"
  fs_is_dir :: "string \<Rightarrow> bool"
  fs_is_file :: "string \<Rightarrow> bool"
  fs_exists :: "string \<Rightarrow> bool"
  fs_read_to_string :: "string \<Rightarrow> string option"
  fs_symlink_metadata :: "string \<Rightarrow> bool option"
  fs_canonicalize :: "string \<Rightarrow> string option"

definition abs_from :: "path_env \<Rightarrow> string \<Rightarrow> string option" where
  "abs_from env path = from_absolute_path (pe_home env) (pe_cwd env) path"

definition abs_join :: "path_env \<Rightarrow> string \<Rightarrow> string \<Rightarrow> string" where
  "abs_join env base path = resolve_path_against_base (pe_home env) path base"

definition path_eq :: "string \<Rightarrow> string \<Rightarrow> bool" where
  "path_eq a b \<longleftrightarrow> path_components a = path_components b"

text \<open>\<open>Path::starts_with\<close> and \<open>Path::strip_prefix\<close>, by whole components.\<close>

definition path_starts_with :: "string \<Rightarrow> string \<Rightarrow> bool" where
  "path_starts_with path base \<longleftrightarrow>
    take (length (path_components base)) (path_components path) = path_components base"

definition path_strip_prefix :: "string \<Rightarrow> string \<Rightarrow> Component list option" where
  "path_strip_prefix path base =
    (if path_starts_with path base
     then Some (drop (length (path_components base)) (path_components path)) else None)"

section \<open>Types\<close>

datatype NetworkSandboxPolicy = NetRestricted | NetEnabled

fun network_is_enabled :: "NetworkSandboxPolicy \<Rightarrow> bool" where
  "network_is_enabled NetEnabled = True"
| "network_is_enabled NetRestricted = False"

datatype FileSystemAccessMode = AccessRead | AccessWrite | AccessNone

fun access_rank :: "FileSystemAccessMode \<Rightarrow> nat" where
  "access_rank AccessRead = 0"
| "access_rank AccessWrite = 1"
| "access_rank AccessNone = 2"

instantiation FileSystemAccessMode :: linorder
begin

definition less_eq_FileSystemAccessMode :: "FileSystemAccessMode \<Rightarrow> FileSystemAccessMode \<Rightarrow> bool" where
  "a \<le> b \<longleftrightarrow> access_rank a \<le> access_rank b"

definition less_FileSystemAccessMode :: "FileSystemAccessMode \<Rightarrow> FileSystemAccessMode \<Rightarrow> bool" where
  "a < b \<longleftrightarrow> access_rank a < access_rank b"

instance
proof (intro_classes, goal_cases)
  case (4 a b)
  then show ?case by (cases a; cases b; simp add: less_eq_FileSystemAccessMode_def)
qed (auto simp: less_eq_FileSystemAccessMode_def less_FileSystemAccessMode_def)

end

fun can_read :: "FileSystemAccessMode \<Rightarrow> bool" where
  "can_read AccessNone = False"
| "can_read _ = True"

fun can_write :: "FileSystemAccessMode \<Rightarrow> bool" where
  "can_write AccessWrite = True"
| "can_write _ = False"

datatype FileSystemSpecialPath =
    Root
  | Minimal
  | ProjectRoots "string option"
  | Tmpdir
  | SlashTmp
  | Unknown string "string option"

datatype FileSystemPath =
    PathEntry string
  | GlobPattern string
  | Special FileSystemSpecialPath

record FileSystemSandboxEntry =
  entry_path :: FileSystemPath
  entry_access :: FileSystemAccessMode

datatype FileSystemSandboxKind = Restricted | Unrestricted | ExternalSandbox

record FileSystemSandboxPolicy =
  fs_kind :: FileSystemSandboxKind
  glob_scan_max_depth :: "nat option"
  fs_entries :: "FileSystemSandboxEntry list"

record ResolvedFileSystemEntry =
  resolved_path :: string
  resolved_access :: FileSystemAccessMode

definition entry :: "FileSystemPath \<Rightarrow> FileSystemAccessMode \<Rightarrow> FileSystemSandboxEntry" where
  "entry path access = \<lparr>entry_path = path, entry_access = access\<rparr>"

definition default_policy :: FileSystemSandboxPolicy where
  "default_policy =
    \<lparr>fs_kind = Restricted, glob_scan_max_depth = None, fs_entries = [entry (Special Root) AccessRead]\<rparr>"

definition unrestricted :: FileSystemSandboxPolicy where
  "unrestricted = \<lparr>fs_kind = Unrestricted, glob_scan_max_depth = None, fs_entries = []\<rparr>"

definition external_sandbox :: FileSystemSandboxPolicy where
  "external_sandbox = \<lparr>fs_kind = ExternalSandbox, glob_scan_max_depth = None, fs_entries = []\<rparr>"

definition restricted :: "FileSystemSandboxEntry list \<Rightarrow> FileSystemSandboxPolicy" where
  "restricted entries = \<lparr>fs_kind = Restricted, glob_scan_max_depth = None, fs_entries = entries\<rparr>"

section \<open>Resolution of paths\<close>

text \<open>\<open>Path::ancestors\<close> of an absolute path: the path, its parent, and so on up to the root.\<close>

definition path_ancestors :: "string \<Rightarrow> string list" where
  "path_ancestors path =
    (let cs = path_components path in map (\<lambda>k. path_str (take k cs)) (rev [1..<Suc (length cs)]))"

text \<open>The root of an absolute path, which \<open>from_absolute_path\<close> leaves alone.\<close>

definition absolute_root_path_for_cwd :: "string \<Rightarrow> string" where
  "absolute_root_path_for_cwd cwd = last (path_ancestors cwd)"

definition resolve_file_system_special_path ::
  "path_env \<Rightarrow> FileSystemSpecialPath \<Rightarrow> string option \<Rightarrow> string option" where
  "resolve_file_system_special_path env value cwd =
    (case value of
       Root \<Rightarrow> None
     | Minimal \<Rightarrow> None
     | Unknown _ _ \<Rightarrow> None
     | ProjectRoots subpath \<Rightarrow>
         (case cwd of
            None \<Rightarrow> None
          | Some cwd \<Rightarrow>
              (case subpath of
                 Some subpath \<Rightarrow> Some (resolve_path_against_base (pe_home env) subpath cwd)
               | None \<Rightarrow> Some cwd))
     | Tmpdir \<Rightarrow>
         (case pe_tmpdir env of
            None \<Rightarrow> None
          | Some tmpdir \<Rightarrow> if tmpdir = [] then None else abs_from env tmpdir)
     | SlashTmp \<Rightarrow>
         (case abs_from env ''/tmp'' of
            None \<Rightarrow> None
          | Some slash_tmp \<Rightarrow> if \<not> fs_is_dir env slash_tmp then None else Some slash_tmp))"

definition resolve_file_system_path :: "path_env \<Rightarrow> FileSystemPath \<Rightarrow> string option \<Rightarrow> string option" where
  "resolve_file_system_path env path cwd =
    (case path of
       PathEntry path \<Rightarrow> Some path
     | GlobPattern _ \<Rightarrow> None
     | Special value \<Rightarrow> resolve_file_system_special_path env value cwd)"

definition resolve_entry_path :: "path_env \<Rightarrow> FileSystemPath \<Rightarrow> string option \<Rightarrow> string option" where
  "resolve_entry_path env path cwd =
    (case path of
       Special Root \<Rightarrow> map_option absolute_root_path_for_cwd cwd
     | _ \<Rightarrow> resolve_file_system_path env path cwd)"

definition resolve_candidate_path :: "path_env \<Rightarrow> string \<Rightarrow> string \<Rightarrow> string option" where
  "resolve_candidate_path env path cwd =
    (if is_absolute path then abs_from env path
     else map_option (\<lambda>base. abs_join env base path) (abs_from env cwd))"

definition resolved_entries_with_cwd ::
  "path_env \<Rightarrow> FileSystemSandboxPolicy \<Rightarrow> string \<Rightarrow> ResolvedFileSystemEntry list" where
  "resolved_entries_with_cwd env p cwd =
    (let cwd_absolute = abs_from env cwd in
     List.map_filter (\<lambda>e.
       map_option (\<lambda>path. \<lparr>resolved_path = path, resolved_access = entry_access e\<rparr>)
         (resolve_entry_path env (entry_path e) cwd_absolute)) (fs_entries p))"

definition special_paths_share_target :: "FileSystemSpecialPath \<Rightarrow> FileSystemSpecialPath \<Rightarrow> bool" where
  "special_paths_share_target left right =
    (case (left, right) of
       (Root, Root) \<Rightarrow> True
     | (Minimal, Minimal) \<Rightarrow> True
     | (Tmpdir, Tmpdir) \<Rightarrow> True
     | (SlashTmp, SlashTmp) \<Rightarrow> True
     | (ProjectRoots l, ProjectRoots r) \<Rightarrow>
         (case (l, r) of (None, None) \<Rightarrow> True | (Some l, Some r) \<Rightarrow> path_eq l r | _ \<Rightarrow> False)
     | (Unknown l ls, Unknown r rs) \<Rightarrow>
         l = r \<and> (case (ls, rs) of (None, None) \<Rightarrow> True | (Some l, Some r) \<Rightarrow> path_eq l r | _ \<Rightarrow> False)
     | _ \<Rightarrow> False)"

definition special_path_matches_absolute_path :: "FileSystemSpecialPath \<Rightarrow> string \<Rightarrow> bool" where
  "special_path_matches_absolute_path value path =
    (case value of
       Root \<Rightarrow> path_parent path = None
     | SlashTmp \<Rightarrow> path_eq path ''/tmp''
     | _ \<Rightarrow> False)"

definition file_system_paths_share_target :: "FileSystemPath \<Rightarrow> FileSystemPath \<Rightarrow> bool" where
  "file_system_paths_share_target left right =
    (case (left, right) of
       (PathEntry l, PathEntry r) \<Rightarrow> path_eq l r
     | (Special l, Special r) \<Rightarrow> special_paths_share_target l r
     | (PathEntry path, Special value) \<Rightarrow> special_path_matches_absolute_path value path
     | (Special value, PathEntry path) \<Rightarrow> special_path_matches_absolute_path value path
     | (GlobPattern l, GlobPattern r) \<Rightarrow> l = r
     | _ \<Rightarrow> False)"

section \<open>Full-disk access\<close>

definition has_root_access :: "FileSystemSandboxPolicy \<Rightarrow> (FileSystemAccessMode \<Rightarrow> bool) \<Rightarrow> bool" where
  "has_root_access p predicate \<longleftrightarrow>
    fs_kind p = Restricted \<and>
    list_ex (\<lambda>e. entry_path e = Special Root \<and> predicate (entry_access e)) (fs_entries p)"

definition has_denied_read_restrictions :: "FileSystemSandboxPolicy \<Rightarrow> bool" where
  "has_denied_read_restrictions p \<longleftrightarrow>
    fs_kind p = Restricted \<and> list_ex (\<lambda>e. entry_access e = AccessNone) (fs_entries p)"

definition has_same_target_write_override :: "FileSystemSandboxPolicy \<Rightarrow> FileSystemSandboxEntry \<Rightarrow> bool" where
  "has_same_target_write_override p e \<longleftrightarrow>
    list_ex (\<lambda>candidate. can_write (entry_access candidate) \<and> entry_access candidate > entry_access e \<and>
      file_system_paths_share_target (entry_path candidate) (entry_path e)) (fs_entries p)"

definition narrows_write :: "FileSystemSandboxPolicy \<Rightarrow> FileSystemSandboxEntry \<Rightarrow> bool" where
  "narrows_write p e =
    (if can_write (entry_access e) then False
     else (case entry_path e of
        PathEntry _ \<Rightarrow> \<not> has_same_target_write_override p e
      | GlobPattern _ \<Rightarrow> True
      | Special value \<Rightarrow>
          (case value of
             Root \<Rightarrow> entry_access e = AccessNone
           | Minimal \<Rightarrow> False
           | Unknown _ _ \<Rightarrow> False
           | _ \<Rightarrow> \<not> has_same_target_write_override p e)))"

definition has_write_narrowing_entries :: "FileSystemSandboxPolicy \<Rightarrow> bool" where
  "has_write_narrowing_entries p \<longleftrightarrow> fs_kind p = Restricted \<and> list_ex (narrows_write p) (fs_entries p)"

definition has_full_disk_read_access :: "FileSystemSandboxPolicy \<Rightarrow> bool" where
  "has_full_disk_read_access p =
    (case fs_kind p of
       Restricted \<Rightarrow> has_root_access p can_read \<and> \<not> has_denied_read_restrictions p
     | _ \<Rightarrow> True)"

definition has_full_disk_write_access :: "FileSystemSandboxPolicy \<Rightarrow> bool" where
  "has_full_disk_write_access p =
    (case fs_kind p of
       Restricted \<Rightarrow> has_root_access p can_write \<and> \<not> has_write_narrowing_entries p
     | _ \<Rightarrow> True)"

definition include_platform_defaults :: "FileSystemSandboxPolicy \<Rightarrow> bool" where
  "include_platform_defaults p \<longleftrightarrow>
    \<not> has_full_disk_read_access p \<and> fs_kind p = Restricted \<and>
    list_ex (\<lambda>e. entry_path e = Special Minimal \<and> can_read (entry_access e)) (fs_entries p)"

section \<open>Access to a path\<close>

text \<open>\<open>Iterator::max_by_key\<close> returns the last of several maximal elements.\<close>

definition max_by_key :: "('a \<Rightarrow> 'k::linorder) \<Rightarrow> 'a list \<Rightarrow> 'a option" where
  "max_by_key f xs =
    (case xs of
       [] \<Rightarrow> None
     | x # xs \<Rightarrow> Some (foldl (\<lambda>m y. if f m \<le> f y then y else m) x xs))"

definition resolved_entry_precedence :: "ResolvedFileSystemEntry \<Rightarrow> nat \<times> FileSystemAccessMode" where
  "resolved_entry_precedence e = (length (path_components (resolved_path e)), resolved_access e)"

definition resolve_access_with_cwd ::
  "path_env \<Rightarrow> FileSystemSandboxPolicy \<Rightarrow> string \<Rightarrow> string \<Rightarrow> FileSystemAccessMode" where
  "resolve_access_with_cwd env p path cwd =
    (case fs_kind p of
       Restricted \<Rightarrow>
         (case resolve_candidate_path env path cwd of
            None \<Rightarrow> AccessNone
          | Some path \<Rightarrow>
              (case max_by_key resolved_entry_precedence
                  (filter (\<lambda>e. path_starts_with path (resolved_path e)) (resolved_entries_with_cwd env p cwd)) of
                 Some e \<Rightarrow> resolved_access e
               | None \<Rightarrow> AccessNone))
     | _ \<Rightarrow> AccessWrite)"

definition can_read_path_with_cwd :: "path_env \<Rightarrow> FileSystemSandboxPolicy \<Rightarrow> string \<Rightarrow> string \<Rightarrow> bool" where
  "can_read_path_with_cwd env p path cwd = can_read (resolve_access_with_cwd env p path cwd)"

definition PROTECTED_METADATA_PATH_NAMES :: "string list" where
  "PROTECTED_METADATA_PATH_NAMES = [''.git'', ''.agents'', ''.codex'', ''.xtech'']"

definition metadata_path_name :: "string \<Rightarrow> string option" where
  "metadata_path_name name = List.find (\<lambda>metadata_name. name = metadata_name) PROTECTED_METADATA_PATH_NAMES"

definition metadata_child :: "path_env \<Rightarrow> string \<Rightarrow> ResolvedFileSystemEntry \<Rightarrow> (string \<times> string) option" where
  "metadata_child env target e =
    (case path_strip_prefix target (resolved_path e) of
       Some (first_component # _) \<Rightarrow>
         map_option (\<lambda>metadata_name. (abs_join env (resolved_path e) metadata_name, metadata_name))
           (metadata_path_name (component_str first_component))
     | _ \<Rightarrow> None)"

definition metadata_child_of_writable_root ::
  "path_env \<Rightarrow> FileSystemSandboxPolicy \<Rightarrow> string \<Rightarrow> string \<Rightarrow> (string \<times> string) option" where
  "metadata_child_of_writable_root env p target cwd =
    find_map (metadata_child env target)
      (filter (\<lambda>e. can_write (resolved_access e)) (resolved_entries_with_cwd env p cwd))"

definition has_explicit_write_entry_for_metadata_path ::
  "path_env \<Rightarrow> FileSystemSandboxPolicy \<Rightarrow> string \<Rightarrow> string \<Rightarrow> string \<Rightarrow> bool" where
  "has_explicit_write_entry_for_metadata_path env p protected_metadata_path target cwd =
    list_ex (\<lambda>e. can_write (resolved_access e) \<and> path_starts_with target (resolved_path e) \<and>
        path_starts_with (resolved_path e) protected_metadata_path)
      (resolved_entries_with_cwd env p cwd)"

definition is_metadata_write_denied :: "path_env \<Rightarrow> FileSystemSandboxPolicy \<Rightarrow> string \<Rightarrow> string \<Rightarrow> bool" where
  "is_metadata_write_denied env p path cwd =
    (if fs_kind p \<noteq> Restricted then False
     else (case resolve_candidate_path env path cwd of
        None \<Rightarrow> True
      | Some target \<Rightarrow>
          (case metadata_child_of_writable_root env p target cwd of
             None \<Rightarrow> False
           | Some (protected_metadata_path, _) \<Rightarrow>
               \<not> has_explicit_write_entry_for_metadata_path env p protected_metadata_path target cwd)))"

definition can_write_path_with_cwd :: "path_env \<Rightarrow> FileSystemSandboxPolicy \<Rightarrow> string \<Rightarrow> string \<Rightarrow> bool" where
  "can_write_path_with_cwd env p path cwd =
    (if \<not> can_write (resolve_access_with_cwd env p path cwd) then False
     else if has_full_disk_write_access p then True
     else \<not> is_metadata_write_denied env p path cwd)"

definition forbidden_agent_metadata_write ::
  "path_env \<Rightarrow> string \<Rightarrow> string \<Rightarrow> FileSystemSandboxPolicy \<Rightarrow> string option" where
  "forbidden_agent_metadata_write env path cwd p =
    (if fs_kind p \<noteq> Restricted then None
     else (case resolve_candidate_path env path cwd of
        None \<Rightarrow> None
      | Some target \<Rightarrow>
          (case metadata_child_of_writable_root env p target cwd of
             None \<Rightarrow> None
           | Some (protected_metadata_path, metadata_name) \<Rightarrow>
               if has_explicit_write_entry_for_metadata_path env p protected_metadata_path target cwd then None
               else if \<not> can_write_path_with_cwd env p target cwd then Some metadata_name
               else None)))"

section \<open>Environments\<close>

definition wf_env :: "path_env \<Rightarrow> bool" where
  "wf_env env \<longleftrightarrow>
    (case pe_home env of None \<Rightarrow> True | Some h \<Rightarrow> is_absolute h) \<and>
    (case pe_cwd env of None \<Rightarrow> True | Some c \<Rightarrow> is_absolute c)"

lemma abs_from_normal:
  assumes "wf_env env" "abs_from env path = Some q"
  shows "\<exists>cs. normal_abs cs \<and> q = path_str cs"
proof -
  let ?p = "maybe_expand_home_directory (pe_home env) path"
  have "q = normalize_path ?p \<and> is_absolute ?p \<or> (\<exists>c. pe_cwd env = Some c \<and> q = absolutize_from ?p c)"
    using assms(2) by (auto simp: abs_from_def from_absolute_path_def absolutize_def split: if_splits)
  moreover have "is_absolute (path_with_base ?p c)" if "pe_cwd env = Some c" for c
    using assms(1) that by (auto simp: wf_env_def path_with_base_def path_join_absolute)
  ultimately show ?thesis
    using normalize_path_abs unfolding absolutize_from_def by metis
qed

lemma abs_from_absolute: "is_absolute path \<Longrightarrow> abs_from env path = Some (normalize_path path)"
proof -
  assume "is_absolute path"
  then obtain r where "path = slash # r" by (cases path) (auto simp: is_absolute_def starts_with_def)
  then have "maybe_expand_home_directory h path = path" for h
    by (auto simp: maybe_expand_home_directory_def slash_def split: option.splits)
  with \<open>is_absolute path\<close> show ?thesis by (simp add: abs_from_def from_absolute_path_def absolutize_def)
qed

lemma normal_abs_absolute: "normal_abs cs \<Longrightarrow> is_absolute (path_str cs)"
  using path_str_root by (auto simp: normal_abs_def)

lemma candidate_path_str:
  assumes "wf_env env" "resolve_candidate_path env path cwd = Some t"
  shows "\<exists>cs. normal_abs cs \<and> t = path_str cs"
proof (cases "is_absolute path")
  case True
  then show ?thesis using assms abs_from_normal by (simp add: resolve_candidate_path_def)
next
  case False
  then obtain base where base: "abs_from env cwd = Some base" "t = resolve_path_against_base (pe_home env) path base"
    using assms(2) by (auto simp: resolve_candidate_path_def abs_join_def)
  obtain cs where "normal_abs cs" "base = path_str cs" using abs_from_normal [OF assms(1) base(1)] by blast
  then show ?thesis using resolved_normal normal_abs_absolute base(2) by simp
qed

lemma candidate_normal:
  assumes "wf_env env" "resolve_candidate_path env path cwd = Some t"
  shows "normal_abs (path_components t)"
  using candidate_path_str [OF assms] components_path_str by auto

lemma candidate_idem:
  assumes "wf_env env" "resolve_candidate_path env path cwd = Some t"
  shows "resolve_candidate_path env t cwd = Some t"
proof -
  obtain cs where "normal_abs cs" "t = path_str cs" using candidate_path_str [OF assms] by blast
  then show ?thesis
    by (simp add: resolve_candidate_path_def normal_abs_absolute abs_from_absolute normalize_path_normal)
qed

lemma candidate_exists:
  "abs_from env cwd = Some base \<Longrightarrow> \<exists>t. resolve_candidate_path env path cwd = Some t"
  by (auto simp: resolve_candidate_path_def abs_from_absolute)

lemma root_of_absolute:
  assumes "normal_abs cs"
  shows "absolute_root_path_for_cwd (path_str cs) = [slash]"
proof -
  obtain ns where cs: "cs = RootDir # map Normal ns" using assms by (auto simp: normal_abs_def)
  have "[1..<Suc (length cs)] = 1 # [Suc 1..<Suc (length cs)]" using cs by (intro upt_conv_Cons) simp
  then have "rev [1..<Suc (length cs)] = rev [Suc 1..<Suc (length cs)] @ [1]" by (simp only: rev.simps)
  then show ?thesis
    by (simp add: absolute_root_path_for_cwd_def path_ancestors_def components_path_str [OF assms] Let_def del: upt_Suc)
      (simp add: cs path_str_def)
qed

lemma components_root: "path_components [slash] = [RootDir]"
  by code_simp

lemma path_components_RootDir: "path_components p = cs @ [RootDir] \<Longrightarrow> cs = []"
  using pieces_no_CurDir [of RootDir p]
  by (cases cs) (auto simp: path_components_pieces append_eq_Cons_conv split: if_splits)

lemma no_parent: "path_parent p = None \<Longrightarrow> path_components p = [] \<or> path_components p = [RootDir]"
  by (auto simp: path_parent_def Let_def last_opt_Some_iff split: option.splits Component.splits
      dest!: path_components_RootDir)

section \<open>The entry that decides\<close>

lemma max_by_key_None: "max_by_key f xs = None \<longleftrightarrow> xs = []"
  by (simp add: max_by_key_def split: list.splits)

lemma max_by_key_Some:
  assumes "max_by_key f xs = Some m"
  shows "m \<in> set xs \<and> (\<forall>x\<in>set xs. f x \<le> f m)"
proof -
  obtain y ys where xs: "xs = y # ys" "m = foldl (\<lambda>m y. if f m \<le> f y then y else m) y ys"
    using assms by (auto simp: max_by_key_def split: list.splits)
  have "foldl (\<lambda>m y. if f m \<le> f y then y else m) y ys \<in> set (y # ys) \<and>
    (\<forall>x\<in>set (y # ys). f x \<le> f (foldl (\<lambda>m y. if f m \<le> f y then y else m) y ys))"
  proof (induction ys rule: rev_induct)
    case (snoc z ys)
    then show ?case by (auto intro: order_trans)
  qed simp
  with xs show ?thesis by simp
qed

definition matching_entries ::
  "path_env \<Rightarrow> FileSystemSandboxPolicy \<Rightarrow> string \<Rightarrow> string \<Rightarrow> ResolvedFileSystemEntry set" where
  "matching_entries env p target cwd =
    {e \<in> set (resolved_entries_with_cwd env p cwd). path_starts_with target (resolved_path e)}"

lemma resolved_entries_iff:
  "r \<in> set (resolved_entries_with_cwd env p cwd) \<longleftrightarrow>
    (\<exists>e\<in>set (fs_entries p). \<exists>path. resolve_entry_path env (entry_path e) (abs_from env cwd) = Some path \<and>
      r = \<lparr>resolved_path = path, resolved_access = entry_access e\<rparr>)"
  by (auto simp: resolved_entries_with_cwd_def set_map_filter)

lemma resolve_access_max:
  assumes "fs_kind p = Restricted" "resolve_candidate_path env path cwd = Some t" "matching_entries env p t cwd \<noteq> {}"
  shows "\<exists>e\<in>matching_entries env p t cwd. resolve_access_with_cwd env p path cwd = resolved_access e \<and>
    (\<forall>e'\<in>matching_entries env p t cwd. resolved_entry_precedence e' \<le> resolved_entry_precedence e)"
proof -
  let ?xs = "filter (\<lambda>e. path_starts_with t (resolved_path e)) (resolved_entries_with_cwd env p cwd)"
  have set: "set ?xs = matching_entries env p t cwd" by (auto simp: matching_entries_def)
  with assms(3) have "?xs \<noteq> []" by force
  then obtain m where m: "max_by_key resolved_entry_precedence ?xs = Some m"
    using max_by_key_None by (metis option.exhaust)
  with max_by_key_Some [OF m] assms(1,2) show ?thesis
    unfolding set by (auto simp: resolve_access_with_cwd_def)
qed

section \<open>Overrides\<close>

lemma slash_tmp_resolved: "abs_from env ''/tmp'' = Some ''/tmp''"
proof -
  have "is_absolute ''/tmp''" "normalize_path ''/tmp'' = ''/tmp''" by code_simp+
  then show ?thesis by (simp add: abs_from_absolute)
qed

text \<open>An entry with the same target resolves to a path that is at least as specific and covers the same paths.\<close>

lemma share_target_resolved:
  assumes env: "wf_env env" "abs_from env cwd = Some base" "fs_is_dir env ''/tmp''"
    and share: "file_system_paths_share_target a b" "b \<noteq> Special Root"
    and res: "resolve_entry_path env b (Some base) = Some q"
  shows "\<exists>q'. resolve_entry_path env a (Some base) = Some q' \<and>
    (path_components q' = path_components q \<or> path_components q = [] \<and> path_components q' = [RootDir])"
proof -
  obtain cs where cs: "normal_abs cs" "base = path_str cs" using abs_from_normal [OF env(1,2)] by blast
  have root: "resolve_entry_path env (Special Root) (Some base) = Some [slash]"
    using cs root_of_absolute by (simp add: resolve_entry_path_def)
  have tmp: "resolve_entry_path env (Special SlashTmp) (Some base) = Some ''/tmp''"
    using env(3) slash_tmp_resolved by (simp add: resolve_entry_path_def resolve_file_system_path_def resolve_file_system_special_path_def)
  show ?thesis
  proof (cases a)
    case (PathEntry x)
    then show ?thesis
      using share res tmp
      by (cases b) (auto simp: file_system_paths_share_target_def path_eq_def special_path_matches_absolute_path_def
          resolve_entry_path_def resolve_file_system_path_def split: FileSystemSpecialPath.splits)
  next
    case (GlobPattern x)
    then show ?thesis using share res
      by (cases b) (auto simp: file_system_paths_share_target_def resolve_entry_path_def resolve_file_system_path_def)
  next
    case (Special v)
    show ?thesis
    proof (cases b)
      case (PathEntry x)
      have "q = x" using res PathEntry by (simp add: resolve_entry_path_def resolve_file_system_path_def)
      have "special_path_matches_absolute_path v x"
        using share(1) PathEntry \<open>a = Special v\<close> by (simp add: file_system_paths_share_target_def)
      then consider "v = Root" "path_parent x = None" | "v = SlashTmp" "path_components x = path_components ''/tmp''"
        by (cases v) (simp_all add: special_path_matches_absolute_path_def path_eq_def)
      then show ?thesis
        using root tmp components_root no_parent [of x] \<open>a = Special v\<close> \<open>q = x\<close> by cases auto
    next
      case (Special w)
      have home: "\<And>h. pe_home env = Some h \<Longrightarrow> is_absolute h" using env(1) by (auto simp: wf_env_def)
      have abs: "is_absolute base" using cs normal_abs_absolute by simp
      show ?thesis
      proof (cases "v = w")
        case True
        then show ?thesis using res Special \<open>a = Special v\<close> by blast
      next
        case False
        then obtain l r where "v = ProjectRoots (Some l)" "w = ProjectRoots (Some r)" "path_components l = path_components r"
          using share res Special \<open>a = Special v\<close>
          by (auto simp: file_system_paths_share_target_def special_paths_share_target_def path_eq_def resolve_entry_path_def
              resolve_file_system_path_def resolve_file_system_special_path_def
              split: FileSystemSpecialPath.splits option.splits)
        then show ?thesis
          using res Special \<open>a = Special v\<close> resolve_path_components [OF _ abs home, of l r]
          by (auto simp: resolve_entry_path_def resolve_file_system_path_def resolve_file_system_special_path_def)
      qed
    qed (use share \<open>a = Special v\<close> in \<open>auto simp: file_system_paths_share_target_def\<close>)
  qed
qed

lemma starts_with_components:
  "path_starts_with t q \<Longrightarrow> path_components q' = path_components q \<Longrightarrow> path_starts_with t q'"
  by (simp add: path_starts_with_def)

lemma starts_with_root: "normal_abs (path_components t) \<Longrightarrow> path_components q = [RootDir] \<Longrightarrow> path_starts_with t q"
  by (auto simp: path_starts_with_def normal_abs_def)

section \<open>Properties\<close>

text \<open>The components of the paths of the entries that cover \<open>t\<close>, with their access.\<close>

definition covering_entry :: "path_env \<Rightarrow> FileSystemSandboxPolicy \<Rightarrow> string \<Rightarrow> string \<Rightarrow> Component list \<Rightarrow> FileSystemAccessMode \<Rightarrow> bool" where
  "covering_entry env p t cwd cs a \<longleftrightarrow>
    (\<exists>e\<in>set (fs_entries p). \<exists>q. resolve_entry_path env (entry_path e) (abs_from env cwd) = Some q \<and>
      cs = path_components q \<and> a = entry_access e \<and> prefix cs (path_components t))"

lemma path_starts_with_prefix: "path_starts_with t q \<longleftrightarrow> prefix (path_components q) (path_components t)"
  unfolding path_starts_with_def prefix_def by (metis append_eq_conv_conj append_take_drop_id)

lemma covering_iff_matching:
  "covering_entry env p t cwd cs a \<longleftrightarrow>
    (\<exists>r\<in>matching_entries env p t cwd. cs = path_components (resolved_path r) \<and> a = resolved_access r)"
  by (force simp: covering_entry_def matching_entries_def resolved_entries_iff path_starts_with_prefix)

text \<open>C8: The access to a path under a restricted policy is that of the most specific entry that covers it, the
  one whose path has every other covering path as a prefix; among entries for the same path denial beats
  writing and writing beats reading; a path no entry covers is denied.  In particular the order of the
  entries does not matter.\<close>

theorem most_specific_entry_decides:
  assumes "fs_kind p = Restricted" "resolve_candidate_path env path cwd = Some t" "a = resolve_access_with_cwd env p path cwd"
  shows "(\<nexists>cs b. covering_entry env p t cwd cs b) \<and> a = AccessNone \<or>
    (\<exists>cs. covering_entry env p t cwd cs a \<and>
      (\<forall>ds b. covering_entry env p t cwd ds b \<longrightarrow> prefix ds cs \<and>
        (ds = cs \<longrightarrow> (b = AccessNone \<longrightarrow> a = AccessNone) \<and> (b = AccessWrite \<longrightarrow> a \<noteq> AccessRead))))"
proof (cases "matching_entries env p t cwd = {}")
  case True
  then have "filter (\<lambda>e. path_starts_with t (resolved_path e)) (resolved_entries_with_cwd env p cwd) = []"
    by (auto simp: matching_entries_def filter_empty_conv)
  with True assms show ?thesis by (simp add: resolve_access_with_cwd_def max_by_key_def covering_iff_matching)
next
  case False
  then obtain e where e: "e \<in> matching_entries env p t cwd" "a = resolved_access e"
    "\<forall>e'\<in>matching_entries env p t cwd. resolved_entry_precedence e' \<le> resolved_entry_precedence e"
    using resolve_access_max [OF assms(1,2)] assms(3) by auto
  let ?cs = "path_components (resolved_path e)"
  have "prefix ds ?cs \<and> (ds = ?cs \<longrightarrow> (b = AccessNone \<longrightarrow> a = AccessNone) \<and> (b = AccessWrite \<longrightarrow> a \<noteq> AccessRead))"
    if "covering_entry env p t cwd ds b" for ds b
  proof -
    from that obtain r where r: "r \<in> matching_entries env p t cwd" "ds = path_components (resolved_path r)" "b = resolved_access r"
      by (auto simp: covering_iff_matching)
    with e(3) have "length ds < length ?cs \<or> length ds = length ?cs \<and> b \<le> a"
      by (auto simp: resolved_entry_precedence_def e(2) less_eq_prod_def)
    moreover have "prefix ds (path_components t)" "prefix ?cs (path_components t)"
      using r e(1) by (auto simp: matching_entries_def path_starts_with_prefix)
    ultimately have "prefix ds ?cs" "ds = ?cs \<longrightarrow> b \<le> a"
      by (auto intro: prefix_length_prefix)
    then show ?thesis by (cases a; cases b) (auto simp: less_eq_FileSystemAccessMode_def)
  qed
  with e(1,2) show ?thesis by (auto simp: covering_iff_matching)
qed

text \<open>When a policy reports full-disk write access, every path really is writable: no entry that the
  report passes over as shadowed reduces the access to any path.  (\<open>/tmp\<close> has to be a directory, since
  the special entry for it counts as shadowing even where it resolves to nothing.)\<close>

theorem full_disk_write_sound:
  assumes "has_full_disk_write_access p" "wf_env env" "abs_from env cwd = Some base" "fs_is_dir env ''/tmp''"
  shows "resolve_access_with_cwd env p path cwd = AccessWrite \<and> can_write_path_with_cwd env p path cwd"
proof -
  have "resolve_access_with_cwd env p path cwd = AccessWrite"
  proof (cases "fs_kind p = Restricted")
    case True
    obtain t where t: "resolve_candidate_path env path cwd = Some t" using candidate_exists [OF assms(3)] by blast
    note tn = candidate_normal [OF assms(2) t]
    obtain cs where cs: "normal_abs cs" "base = path_str cs" using abs_from_normal [OF assms(2,3)] by blast
    obtain w where w: "w \<in> set (fs_entries p)" "entry_path w = Special Root" "entry_access w = AccessWrite"
      using assms(1) True by (auto simp: has_full_disk_write_access_def has_root_access_def list_ex_iff elim: can_write.elims)
    define root where "root = \<lparr>resolved_path = [slash], resolved_access = AccessWrite\<rparr>"
    have root: "root \<in> matching_entries env p t cwd"
      using w assms(3) cs root_of_absolute starts_with_root [OF tn components_root]
      by (force simp: matching_entries_def resolved_entries_iff resolve_entry_path_def root_def)
    then obtain m where m: "m \<in> matching_entries env p t cwd" "resolve_access_with_cwd env p path cwd = resolved_access m"
      and max: "\<And>e. e \<in> matching_entries env p t cwd \<Longrightarrow> resolved_entry_precedence e \<le> resolved_entry_precedence m"
      using resolve_access_max [OF True t] by blast
    obtain e q where e: "e \<in> set (fs_entries p)" "resolve_entry_path env (entry_path e) (Some base) = Some q"
      "m = \<lparr>resolved_path = q, resolved_access = entry_access e\<rparr>" and cover: "path_starts_with t q"
      using m(1) assms(3) by (auto simp: matching_entries_def resolved_entries_iff)
    have narrow: "\<not> narrows_write p e"
      using assms(1) True e(1) by (auto simp: has_full_disk_write_access_def has_write_narrowing_entries_def list_ex_iff)
    have "can_write (entry_access e)"
    proof (rule ccontr)
      assume nw: "\<not> can_write (entry_access e)"
      show False
      proof (cases "entry_path e = Special Root")
        case True
        then have "entry_access e = AccessRead" "q = [slash]"
          using narrow nw e(2) cs root_of_absolute
          by (cases "entry_access e"; auto simp: narrows_write_def resolve_entry_path_def)+
        with max [OF root] e(3) show False
          by (simp add: resolved_entry_precedence_def root_def less_eq_FileSystemAccessMode_def)
      next
        case False
        then have "has_same_target_write_override p e"
          using narrow nw e(2)
          by (auto simp: narrows_write_def resolve_entry_path_def resolve_file_system_path_def
              resolve_file_system_special_path_def split: FileSystemPath.splits FileSystemSpecialPath.splits)
        then obtain c where c: "c \<in> set (fs_entries p)" "entry_access c = AccessWrite" "entry_access e < AccessWrite"
          "file_system_paths_share_target (entry_path c) (entry_path e)"
          by (auto simp: has_same_target_write_override_def list_ex_iff elim!: can_write.elims)
        obtain q' where q': "resolve_entry_path env (entry_path c) (Some base) = Some q'"
          "path_components q' = path_components q \<or> path_components q = [] \<and> path_components q' = [RootDir]"
          using share_target_resolved [OF assms(2,3,4) c(4) False e(2)] by blast
        have "path_starts_with t q'"
          using q'(2) cover tn starts_with_components starts_with_root by blast
        then have "\<lparr>resolved_path = q', resolved_access = AccessWrite\<rparr> \<in> matching_entries env p t cwd"
          using c(1,2) q'(1) assms(3) by (force simp: matching_entries_def resolved_entries_iff)
        from max [OF this] c(3) e(3) q'(2) show False
          by (auto simp: resolved_entry_precedence_def)
      qed
    qed
    with m(2) e(3) show ?thesis by (auto elim: can_write.elims)
  qed (cases "fs_kind p"; simp add: resolve_access_with_cwd_def)
  with assms(1) show ?thesis by (simp add: can_write_path_with_cwd_def)
qed

text \<open>A machine whose only directory below the root is \<open>/tmp\<close>.\<close>

definition plain_env :: path_env where
  "plain_env = \<lparr>pe_home = Some ''/home/u'', pe_cwd = Some ''/repo'', pe_tmpdir = None, fs_is_dir = (\<lambda>d. d = ''/tmp''),
    fs_is_file = (\<lambda>_. False), fs_exists = (\<lambda>_. False), fs_read_to_string = (\<lambda>_. None),
    fs_symlink_metadata = (\<lambda>_. None), fs_canonicalize = (\<lambda>_. None)\<rparr>"

lemma wf_plain_env: "wf_env plain_env"
  by code_simp

definition shadowed_policy :: FileSystemSandboxPolicy where
  "shadowed_policy = restricted
    [entry (Special Root) AccessWrite, entry (PathEntry ''/tmp'') AccessRead, entry (Special SlashTmp) AccessWrite]"

theorem most_specific_entry_decides_witness:
  "(\<exists>cs. covering_entry plain_env default_policy ''/repo/src/a.rs'' ''/repo'' cs AccessRead \<and>
    (\<forall>ds b. covering_entry plain_env default_policy ''/repo/src/a.rs'' ''/repo'' ds b \<longrightarrow> prefix ds cs))"
proof -
  have c: "fs_kind default_policy = Restricted" "resolve_candidate_path plain_env ''src/a.rs'' ''/repo'' = Some ''/repo/src/a.rs''"
    "AccessRead = resolve_access_with_cwd plain_env default_policy ''src/a.rs'' ''/repo''" by code_simp+
  from most_specific_entry_decides [OF c] show ?thesis by auto
qed

theorem full_disk_write_sound_witness:
  "has_full_disk_write_access shadowed_policy \<and> can_write_path_with_cwd plain_env shadowed_policy ''/tmp/x'' ''/repo''"
proof -
  have "has_full_disk_write_access shadowed_policy" "abs_from plain_env ''/repo'' = Some ''/repo''"
    "fs_is_dir plain_env ''/tmp''" by code_simp+
  then show ?thesis
    using full_disk_write_sound [OF _ wf_plain_env, of shadowed_policy "''/repo''" "''/repo''" "''/tmp/x''"] by simp
qed

text \<open>Without a \<open>/tmp\<close> directory the same policy still reports full-disk write access, and \<open>/tmp/x\<close> is
  read-only.\<close>

lemma full_disk_write_missing_tmp:
  "has_full_disk_write_access shadowed_policy \<and>
   resolve_access_with_cwd (plain_env\<lparr>fs_is_dir := (\<lambda>_. False)\<rparr>) shadowed_policy ''/tmp/x'' ''/repo'' = AccessRead"
  by code_simp

lemma metadata_names_components:
  assumes "normal_abs (path_components r)" "n \<in> set PROTECTED_METADATA_PATH_NAMES"
  shows "path_components (abs_join env r n) = path_components r @ [Normal n]"
proof -
  obtain ns where ns: "path_components r = RootDir # map Normal ns" "\<forall>n\<in>set ns. name_ok n"
    using assms(1) by (auto simp: normal_abs_def)
  then have r: "is_absolute r" "pieces r = map Normal ns"
    using pieces_no_CurDir [of _ r] by (auto simp: path_components_pieces split: if_splits)
  have n: "name_ok n" "\<not> is_absolute n" "pieces n = [Normal n]" "maybe_expand_home_directory (pe_home env) n = n"
  proof -
    have "list_all (\<lambda>n. name_ok n \<and> \<not> is_absolute n \<and> pieces n = [Normal n]) PROTECTED_METADATA_PATH_NAMES" by code_simp
    then show "name_ok n" "\<not> is_absolute n" "pieces n = [Normal n]" using assms(2) by (auto simp: list_all_iff)
    show "maybe_expand_home_directory (pe_home env) n = n"
      using assms(2) by (auto simp: PROTECTED_METADATA_PATH_NAMES_def maybe_expand_home_directory_def split: option.splits)
  qed
  let ?cs = "RootDir # map Normal (ns @ [n])"
  have "path_components (path_join r n) = ?cs"
    using r n by (simp add: path_components_pieces path_join_absolute pieces_join)
  moreover have "foldl normalize_step [] ?cs = ?cs"
    using foldl_normalize_normal [of "[RootDir]" "ns @ [n]"] by (simp add: pathbuf_push_def)
  moreover have "normal_abs ?cs" unfolding normal_abs_def using ns(2) n(1) by (intro exI [of _ "ns @ [n]"]) auto
  ultimately have "abs_join env r n = path_str ?cs"
    using n by (simp add: abs_join_def resolve_path_against_base_def absolutize_from_def path_with_base_def normalize_path_def)
  then show ?thesis using components_path_str [OF \<open>normal_abs ?cs\<close>] ns(1) by simp
qed

lemma metadata_child_Some:
  "metadata_child env t e = Some (path, name) \<longleftrightarrow>
    (\<exists>c rest. path_components t = path_components (resolved_path e) @ c # rest \<and>
      component_str c = name \<and> name \<in> set PROTECTED_METADATA_PATH_NAMES \<and> path = abs_join env (resolved_path e) name)"
proof -
  have strip: "path_strip_prefix t b = Some cs \<longleftrightarrow> path_components t = path_components b @ cs" for b cs
    by (auto simp: path_strip_prefix_def path_starts_with_def) (metis append_take_drop_id)
  have "metadata_path_name c = Some n \<longleftrightarrow> c = n \<and> n \<in> set PROTECTED_METADATA_PATH_NAMES" for c n
    by (auto simp: metadata_path_name_def find_Some_iff in_set_conv_nth PROTECTED_METADATA_PATH_NAMES_def nth_Cons split: nat.splits)
  moreover have "path_strip_prefix t b = None \<longleftrightarrow> (\<nexists>cs. path_components t = path_components b @ cs)" for b
    using strip [of b] by (cases "path_strip_prefix t b") auto
  ultimately show ?thesis
    by (auto simp: metadata_child_def strip split: option.splits list.splits)
qed


text \<open>With several writable roots the first one in the list alone decides which metadata directory a path lies
  in: swapping two entries changes what may be written.\<close>

lemma metadata_entry_order:
  "can_write_path_with_cwd plain_env (restricted [entry (PathEntry ''/a'') AccessWrite, entry (PathEntry ''/a/.git/x'') AccessWrite])
     ''/a/.git/x/.git/config'' ''/repo'' \<and>
   \<not> can_write_path_with_cwd plain_env (restricted [entry (PathEntry ''/a/.git/x'') AccessWrite, entry (PathEntry ''/a'') AccessWrite])
     ''/a/.git/x/.git/config'' ''/repo''"
  by code_simp


end
