(* ===== verification/Sandbox_Roots.thy ===== *)
theory Sandbox_Roots
  imports Sandbox_Policy "HOL-Library.Char_ord" "HOL-Library.List_Lexorder"
begin

text \<open>
  Deriving sandbox policies and their roots (protocol/src/permissions.rs, the legacy policy of
  protocol/src/protocol.rs, the permission profiles of protocol/src/models.rs and
  \<open>canonicalize_preserving_symlinks\<close> of utils/absolute-path): construction of policies, the roots
  a sandbox has to mount, the projection to and from the legacy policy, and the read-deny matcher.
  Compiled globs, which come from the \<open>globset\<close> package, are an argument.
\<close>

section \<open>Effective paths\<close>

definition should_preserve_logical_path :: "path_env \<Rightarrow> string \<Rightarrow> bool" where
  "should_preserve_logical_path env logical =
    list_ex (\<lambda>ancestor.
      case fs_symlink_metadata env ancestor of
        None \<Rightarrow> False
      | Some is_symlink \<Rightarrow>
          is_symlink \<and> (case path_parent ancestor of None \<Rightarrow> False | Some parent \<Rightarrow> path_parent parent \<noteq> None))
      (path_ancestors logical)"

definition canonicalize_preserving_symlinks :: "path_env \<Rightarrow> string \<Rightarrow> string option" where
  "canonicalize_preserving_symlinks env path =
    (case abs_from env path of
       None \<Rightarrow> None
     | Some logical \<Rightarrow>
         (case fs_canonicalize env path of
            Some canonical \<Rightarrow>
              if should_preserve_logical_path env logical \<and> \<not> path_eq canonical logical then Some logical
              else Some canonical
          | None \<Rightarrow> Some logical))"

definition normalize_effective_absolute_path :: "path_env \<Rightarrow> string \<Rightarrow> string" where
  "normalize_effective_absolute_path env path =
    (case find_map (\<lambda>ancestor.
        if fs_symlink_metadata env ancestor = None then None
        else (case canonicalize_preserving_symlinks env ancestor of
           None \<Rightarrow> None
         | Some normalized_ancestor \<Rightarrow>
             (case path_strip_prefix path ancestor of
                None \<Rightarrow> None
              | Some sfx \<Rightarrow> abs_from env (path_join normalized_ancestor (path_str sfx)))))
        (path_ancestors path) of
       Some normalized_path \<Rightarrow> normalized_path
     | None \<Rightarrow> path)"

fun dedup_loop :: "path_env \<Rightarrow> bool \<Rightarrow> string list \<Rightarrow> string list \<Rightarrow> string list" where
  "dedup_loop env norm deduped [] = deduped"
| "dedup_loop env norm deduped (path # paths) =
    (let dedup_path = (if norm then normalize_effective_absolute_path env path else path) in
     dedup_loop env norm
       (if list_ex (path_eq dedup_path) deduped then deduped else deduped @ [dedup_path]) paths)"

definition dedup_absolute_paths :: "path_env \<Rightarrow> string list \<Rightarrow> bool \<Rightarrow> string list" where
  "dedup_absolute_paths env paths normalize_effective_paths = dedup_loop env normalize_effective_paths [] paths"

section \<open>Protected subpaths\<close>

definition is_git_pointer_file :: "path_env \<Rightarrow> string \<Rightarrow> bool" where
  "is_git_pointer_file env path \<longleftrightarrow> fs_is_file env path \<and> path_file_name path = Some ''.git''"

definition resolve_gitdir_from_file :: "path_env \<Rightarrow> string \<Rightarrow> string option" where
  "resolve_gitdir_from_file env dot_git =
    (case fs_read_to_string env dot_git of
       None \<Rightarrow> None
     | Some contents \<Rightarrow>
         (case split_once (CHR '':'') (trim contents) of
            None \<Rightarrow> None
          | Some (pre, gitdir_raw) \<Rightarrow>
              if trim pre \<noteq> ''gitdir'' then None
              else (let gitdir_raw = trim gitdir_raw in
                if gitdir_raw = [] then None
                else (case path_parent dot_git of
                   None \<Rightarrow> None
                 | Some base \<Rightarrow>
                     (let gitdir_path = resolve_path_against_base (pe_home env) gitdir_raw base in
                      if \<not> fs_exists env gitdir_path then None else Some gitdir_path)))))"

definition default_read_only_subpaths_for_writable_root :: "path_env \<Rightarrow> string \<Rightarrow> bool \<Rightarrow> string list" where
  "default_read_only_subpaths_for_writable_root env writable_root protect_missing_dot_codex =
    (let top_level_git = abs_join env writable_root ''.git'';
         top_level_git_is_file = fs_is_file env top_level_git;
         top_level_git_is_dir = fs_is_dir env top_level_git;
         git = (if top_level_git_is_dir \<or> top_level_git_is_file
                then (if top_level_git_is_file \<and> is_git_pointer_file env top_level_git
                      then (case resolve_gitdir_from_file env top_level_git of Some gitdir \<Rightarrow> [gitdir] | None \<Rightarrow> [])
                      else []) @ [top_level_git]
                else []);
         top_level_agents = abs_join env writable_root ''.agents'';
         agents = (if fs_is_dir env top_level_agents then [top_level_agents] else []);
         top_level_codex = abs_join env writable_root ''.codex'';
         codex = (if protect_missing_dot_codex \<or> fs_is_dir env top_level_codex then [top_level_codex] else []);
         top_level_xtech = abs_join env writable_root ''.xtech'';
         xtech = (if protect_missing_dot_codex \<or> fs_is_dir env top_level_xtech then [top_level_xtech] else [])
     in dedup_absolute_paths env (git @ agents @ codex @ xtech) False)"

definition append_default_read_only_entry_if_no_explicit_rule ::
  "FileSystemSandboxEntry list \<Rightarrow> FileSystemPath \<Rightarrow> FileSystemSandboxEntry list" where
  "append_default_read_only_entry_if_no_explicit_rule entries path =
    (if list_ex (\<lambda>e. file_system_paths_share_target (entry_path e) path) entries then entries
     else entries @ [entry path AccessRead])"

definition append_default_read_only_project_root_subpath_if_no_explicit_rule ::
  "FileSystemSandboxEntry list \<Rightarrow> string \<Rightarrow> FileSystemSandboxEntry list" where
  "append_default_read_only_project_root_subpath_if_no_explicit_rule entries subpath =
    append_default_read_only_entry_if_no_explicit_rule entries (Special (ProjectRoots (Some subpath)))"

definition append_default_read_only_path_if_no_explicit_rule ::
  "FileSystemSandboxEntry list \<Rightarrow> string \<Rightarrow> FileSystemSandboxEntry list" where
  "append_default_read_only_path_if_no_explicit_rule entries path =
    append_default_read_only_entry_if_no_explicit_rule entries (PathEntry path)"

section \<open>Legacy policies\<close>

datatype NetworkAccess = NARestricted | NAEnabled

datatype SandboxPolicy =
    DangerFullAccess
  | ReadOnly (ro_network_access: bool)
  | LegacyExternalSandbox (ext_network_access: NetworkAccess)
  | WorkspaceWrite (writable_roots: "string list") (ww_network_access: bool)
      (exclude_tmpdir_env_var: bool) (exclude_slash_tmp: bool)

definition has_full_network_access :: "SandboxPolicy \<Rightarrow> bool" where
  "has_full_network_access sp =
    (case sp of
       DangerFullAccess \<Rightarrow> True
     | LegacyExternalSandbox network_access \<Rightarrow> network_access = NAEnabled
     | ReadOnly network_access \<Rightarrow> network_access
     | WorkspaceWrite _ network_access _ _ \<Rightarrow> network_access)"

text \<open>The entries before the protected subpaths, and the protection of each writable root.\<close>

definition workspace_grants :: "string list \<Rightarrow> bool \<Rightarrow> bool \<Rightarrow> FileSystemSandboxEntry list" where
  "workspace_grants roots excl_tmpdir excl_slash_tmp =
    [entry (Special Root) AccessRead, entry (Special (ProjectRoots None)) AccessWrite] @
    (if \<not> excl_slash_tmp then [entry (Special SlashTmp) AccessWrite] else []) @
    (if \<not> excl_tmpdir then [entry (Special Tmpdir) AccessWrite] else []) @
    map (\<lambda>path. entry (PathEntry path) AccessWrite) roots"

definition protect_root :: "path_env \<Rightarrow> bool \<Rightarrow> FileSystemSandboxEntry list \<Rightarrow> string \<Rightarrow> FileSystemSandboxEntry list" where
  "protect_root env protect_missing entries root =
    foldl append_default_read_only_path_if_no_explicit_rule entries
      (default_read_only_subpaths_for_writable_root env root protect_missing)"

definition workspace_write :: "path_env \<Rightarrow> string list \<Rightarrow> bool \<Rightarrow> bool \<Rightarrow> FileSystemSandboxPolicy" where
  "workspace_write env roots excl_tmpdir excl_slash_tmp =
    (let entries = workspace_grants roots excl_tmpdir excl_slash_tmp;
         entries = foldl append_default_read_only_project_root_subpath_if_no_explicit_rule entries
           [''.git'', ''.agents'', ''.codex'', ''.xtech'']
     in restricted (foldl (protect_root env False) entries roots))"

definition from_sandbox_policy :: "path_env \<Rightarrow> SandboxPolicy \<Rightarrow> FileSystemSandboxPolicy" where
  "from_sandbox_policy env sp =
    (case sp of
       DangerFullAccess \<Rightarrow> unrestricted
     | LegacyExternalSandbox _ \<Rightarrow> external_sandbox
     | ReadOnly _ \<Rightarrow> restricted [entry (Special Root) AccessRead]
     | WorkspaceWrite roots _ excl_tmpdir excl_slash_tmp \<Rightarrow> workspace_write env roots excl_tmpdir excl_slash_tmp)"

definition network_from_sandbox_policy :: "SandboxPolicy \<Rightarrow> NetworkSandboxPolicy" where
  "network_from_sandbox_policy sp = (if has_full_network_access sp then NetEnabled else NetRestricted)"

definition protect_cwd_and_roots ::
  "path_env \<Rightarrow> string \<Rightarrow> string list \<Rightarrow> FileSystemSandboxEntry list \<Rightarrow> FileSystemSandboxEntry list" where
  "protect_cwd_and_roots env cwd roots entries =
    foldl (protect_root env False)
      (case abs_from env cwd of Some cwd_root \<Rightarrow> protect_root env True entries cwd_root | None \<Rightarrow> entries) roots"

definition from_legacy_sandbox_policy_for_cwd :: "path_env \<Rightarrow> SandboxPolicy \<Rightarrow> string \<Rightarrow> FileSystemSandboxPolicy" where
  "from_legacy_sandbox_policy_for_cwd env sp cwd =
    (let p = from_sandbox_policy env sp in
     case sp of
       WorkspaceWrite roots _ _ _ \<Rightarrow> p\<lparr>fs_entries := protect_cwd_and_roots env cwd roots (fs_entries p)\<rparr>
     | _ \<Rightarrow> p)"

definition legacy_runtime_file_system_policy_for_cwd :: "path_env \<Rightarrow> SandboxPolicy \<Rightarrow> string \<Rightarrow> FileSystemSandboxPolicy" where
  "legacy_runtime_file_system_policy_for_cwd env sp cwd =
    (case sp of
       WorkspaceWrite roots _ excl_tmpdir excl_slash_tmp \<Rightarrow>
         restricted (protect_cwd_and_roots env cwd roots (workspace_grants roots excl_tmpdir excl_slash_tmp))
     | _ \<Rightarrow> from_sandbox_policy env sp)"

text \<open>The projection back; the loop over the entries collects what is writable.\<close>

record legacy_scan =
  workspace_root_writable :: bool
  scan_writable_roots :: "string list"
  tmpdir_writable :: bool
  slash_tmp_writable :: bool
  unbridgeable_root_write :: bool

definition scan_start :: legacy_scan where
  "scan_start = \<lparr>workspace_root_writable = False, scan_writable_roots = [], tmpdir_writable = False,
    slash_tmp_writable = False, unbridgeable_root_write = False\<rparr>"

definition scan_entry :: "path_env \<Rightarrow> string option \<Rightarrow> legacy_scan \<Rightarrow> FileSystemSandboxEntry \<Rightarrow> legacy_scan" where
  "scan_entry env cwd_absolute s e =
    (let w = can_write (entry_access e) in
     case entry_path e of
       GlobPattern _ \<Rightarrow> s
     | PathEntry path \<Rightarrow>
         if w then
           (if (case cwd_absolute of Some cwd \<Rightarrow> path_eq cwd path | None \<Rightarrow> False)
            then s\<lparr>workspace_root_writable := True\<rparr>
            else s\<lparr>scan_writable_roots := scan_writable_roots s @ [path]\<rparr>)
         else s
     | Special value \<Rightarrow>
         (case value of
            Root \<Rightarrow> if entry_access e = AccessWrite then s\<lparr>unbridgeable_root_write := True\<rparr> else s
          | Minimal \<Rightarrow> s
          | ProjectRoots subpath \<Rightarrow>
              if subpath = None \<and> w then s\<lparr>workspace_root_writable := True\<rparr>
              else (case resolve_file_system_special_path env value cwd_absolute of
                 Some path \<Rightarrow> if w then s\<lparr>scan_writable_roots := scan_writable_roots s @ [path]\<rparr> else s
               | None \<Rightarrow> s)
          | Tmpdir \<Rightarrow> if w then s\<lparr>tmpdir_writable := True\<rparr> else s
          | SlashTmp \<Rightarrow> if w then s\<lparr>slash_tmp_writable := True\<rparr> else s
          | Unknown _ _ \<Rightarrow> s))"

definition legacy_error :: string where
  "legacy_error = ''permissions profile requests filesystem writes outside the workspace root, which is not supported until the runtime enforces FileSystemSandboxPolicy directly''"

definition to_legacy_sandbox_policy ::
  "path_env \<Rightarrow> FileSystemSandboxPolicy \<Rightarrow> NetworkSandboxPolicy \<Rightarrow> string \<Rightarrow> (string, SandboxPolicy) result" where
  "to_legacy_sandbox_policy env p network_policy cwd =
    (let net = network_is_enabled network_policy in
     case fs_kind p of
       ExternalSandbox \<Rightarrow> Ok (LegacyExternalSandbox (if net then NAEnabled else NARestricted))
     | Unrestricted \<Rightarrow> Ok (if net then DangerFullAccess else LegacyExternalSandbox NARestricted)
     | Restricted \<Rightarrow>
         (let s = foldl (scan_entry env (abs_from env cwd)) scan_start (fs_entries p) in
          if has_full_disk_write_access p
          then Ok (if net then DangerFullAccess else LegacyExternalSandbox NARestricted)
          else if workspace_root_writable s
          then Ok (WorkspaceWrite (dedup_absolute_paths env (scan_writable_roots s) False) net
            (\<not> tmpdir_writable s) (\<not> slash_tmp_writable s))
          else if unbridgeable_root_write s \<or> scan_writable_roots s \<noteq> [] \<or> tmpdir_writable s \<or> slash_tmp_writable s
          then Err legacy_error
          else Ok (ReadOnly net)))"

section \<open>Deriving policies\<close>

definition file_system_path_eq :: "FileSystemPath \<Rightarrow> FileSystemPath \<Rightarrow> bool" where
  "file_system_path_eq left right =
    (case (left, right) of
       (PathEntry l, PathEntry r) \<Rightarrow> path_eq l r
     | (GlobPattern l, GlobPattern r) \<Rightarrow> l = r
     | (Special l, Special r) \<Rightarrow> special_paths_share_target l r
     | _ \<Rightarrow> False)"

definition entry_eq :: "FileSystemSandboxEntry \<Rightarrow> FileSystemSandboxEntry \<Rightarrow> bool" where
  "entry_eq a b \<longleftrightarrow> file_system_path_eq (entry_path a) (entry_path b) \<and> entry_access a = entry_access b"

definition push_missing_deny_entries ::
  "FileSystemSandboxEntry list \<Rightarrow> FileSystemSandboxEntry list \<Rightarrow> FileSystemSandboxEntry list" where
  "push_missing_deny_entries entries existing =
    foldl (\<lambda>entries deny_entry. if list_ex (\<lambda>e. entry_eq e deny_entry) entries then entries else entries @ [deny_entry])
      entries (filter (\<lambda>e. entry_access e = AccessNone) existing)"

definition from_legacy_sandbox_policy_preserving_deny_entries ::
  "path_env \<Rightarrow> SandboxPolicy \<Rightarrow> string \<Rightarrow> FileSystemSandboxPolicy \<Rightarrow> FileSystemSandboxPolicy" where
  "from_legacy_sandbox_policy_preserving_deny_entries env sp cwd existing =
    (let rebuilt = from_legacy_sandbox_policy_for_cwd env sp cwd in
     if fs_kind rebuilt \<noteq> Restricted then rebuilt
     else rebuilt\<lparr>glob_scan_max_depth := glob_scan_max_depth existing,
       fs_entries := push_missing_deny_entries (fs_entries rebuilt) (fs_entries existing)\<rparr>)"

definition preserve_deny_read_restrictions_from ::
  "FileSystemSandboxPolicy \<Rightarrow> FileSystemSandboxPolicy \<Rightarrow> FileSystemSandboxPolicy" where
  "preserve_deny_read_restrictions_from self existing =
    (let has_deny_read_entries = list_ex (\<lambda>e. entry_access e = AccessNone) (fs_entries existing);
         self = (if fs_kind self = Unrestricted \<and> has_deny_read_entries
                 then restricted [entry (Special Root) AccessWrite] else self) in
     if fs_kind self \<noteq> Restricted then self
     else self\<lparr>glob_scan_max_depth :=
         (if glob_scan_max_depth self = None then glob_scan_max_depth existing else glob_scan_max_depth self),
       fs_entries := push_missing_deny_entries (fs_entries self) (fs_entries existing)\<rparr>)"

definition materialize_entry :: "path_env \<Rightarrow> string option \<Rightarrow> FileSystemSandboxEntry \<Rightarrow> FileSystemSandboxEntry" where
  "materialize_entry env cwd e =
    (case entry_path e of
       Special (ProjectRoots _) \<Rightarrow>
         (case resolve_file_system_path env (entry_path e) cwd of
            Some path \<Rightarrow> e\<lparr>entry_path := PathEntry path\<rparr>
          | None \<Rightarrow> e)
     | _ \<Rightarrow> e)"

definition materialize_project_roots_with_cwd :: "path_env \<Rightarrow> FileSystemSandboxPolicy \<Rightarrow> string \<Rightarrow> FileSystemSandboxPolicy" where
  "materialize_project_roots_with_cwd env p cwd =
    p\<lparr>fs_entries := map (materialize_entry env (abs_from env cwd)) (fs_entries p)\<rparr>"

fun add_readable_roots :: "path_env \<Rightarrow> string \<Rightarrow> FileSystemSandboxPolicy \<Rightarrow> string list \<Rightarrow> FileSystemSandboxPolicy" where
  "add_readable_roots env cwd p [] = p"
| "add_readable_roots env cwd p (path # paths) =
    (if can_read_path_with_cwd env p path cwd then add_readable_roots env cwd p paths
     else add_readable_roots env cwd (p\<lparr>fs_entries := fs_entries p @ [entry (PathEntry path) AccessRead]\<rparr>) paths)"

definition with_additional_readable_roots ::
  "path_env \<Rightarrow> FileSystemSandboxPolicy \<Rightarrow> string \<Rightarrow> string list \<Rightarrow> FileSystemSandboxPolicy" where
  "with_additional_readable_roots env p cwd roots =
    (if has_full_disk_read_access p then p else add_readable_roots env cwd p roots)"

fun with_additional_writable_roots ::
  "path_env \<Rightarrow> FileSystemSandboxPolicy \<Rightarrow> string \<Rightarrow> string list \<Rightarrow> FileSystemSandboxPolicy" where
  "with_additional_writable_roots env p cwd [] = p"
| "with_additional_writable_roots env p cwd (path # paths) =
    (if can_write_path_with_cwd env p path cwd then with_additional_writable_roots env p cwd paths
     else with_additional_writable_roots env
       (p\<lparr>fs_entries := fs_entries p @ [entry (PathEntry path) AccessWrite]\<rparr>) cwd paths)"

definition add_legacy_root :: "path_env \<Rightarrow> FileSystemSandboxEntry list \<Rightarrow> string \<Rightarrow> FileSystemSandboxEntry list" where
  "add_legacy_root env entries path =
    protect_root env False
      (if list_ex (\<lambda>e. can_write (entry_access e) \<and>
          (case entry_path e of PathEntry existing \<Rightarrow> path_eq existing path | _ \<Rightarrow> False)) entries
       then entries else entries @ [entry (PathEntry path) AccessWrite]) path"

definition with_additional_legacy_workspace_writable_roots ::
  "path_env \<Rightarrow> FileSystemSandboxPolicy \<Rightarrow> string list \<Rightarrow> FileSystemSandboxPolicy" where
  "with_additional_legacy_workspace_writable_roots env p roots =
    (if fs_kind p \<noteq> Restricted then p else p\<lparr>fs_entries := foldl (add_legacy_root env) (fs_entries p) roots\<rparr>)"

section \<open>Roots\<close>

record WritableRoot =
  wr_root :: string
  read_only_subpaths :: "string list"
  protected_metadata_names :: "string list"

definition path_contains_protected_metadata_name :: "WritableRoot \<Rightarrow> string \<Rightarrow> bool" where
  "path_contains_protected_metadata_name wr path =
    (case path_strip_prefix path (wr_root wr) of
       Some (first_component # _) \<Rightarrow>
         list_ex (\<lambda>name. component_str first_component = name) (protected_metadata_names wr)
     | _ \<Rightarrow> False)"

definition is_path_writable :: "WritableRoot \<Rightarrow> string \<Rightarrow> bool" where
  "is_path_writable wr path =
    (if \<not> path_starts_with path (wr_root wr) then False
     else if list_ex (\<lambda>subpath. path_starts_with path subpath) (read_only_subpaths wr) then False
     else if path_contains_protected_metadata_name wr path then False
     else True)"

definition get_readable_roots_with_cwd :: "path_env \<Rightarrow> FileSystemSandboxPolicy \<Rightarrow> string \<Rightarrow> string list" where
  "get_readable_roots_with_cwd env p cwd =
    (if has_full_disk_read_access p then []
     else dedup_absolute_paths env
       (map resolved_path (filter (\<lambda>e. can_read_path_with_cwd env p (resolved_path e) cwd)
         (filter (\<lambda>e. can_read (resolved_access e)) (resolved_entries_with_cwd env p cwd)))) True)"

definition protected_metadata_names_for_writable_root ::
  "path_env \<Rightarrow> FileSystemSandboxPolicy \<Rightarrow> string \<Rightarrow> string list \<Rightarrow> string \<Rightarrow> string list" where
  "protected_metadata_names_for_writable_root env p root raw_writable_roots cwd =
    filter (\<lambda>metadata_name.
        list_all (\<lambda>metadata_path. \<not> can_write_path_with_cwd env p metadata_path cwd)
          (abs_join env root metadata_name # map (\<lambda>raw_root. abs_join env raw_root metadata_name) raw_writable_roots))
      PROTECTED_METADATA_PATH_NAMES"

definition has_explicit_resolved_path_entry :: "ResolvedFileSystemEntry list \<Rightarrow> string \<Rightarrow> bool" where
  "has_explicit_resolved_path_entry entries path = list_ex (\<lambda>e. path_eq (resolved_path e) path) entries"

definition carveout_path :: "path_env \<Rightarrow> string \<Rightarrow> string list \<Rightarrow> ResolvedFileSystemEntry \<Rightarrow> string option" where
  "carveout_path env root raw_writable_roots e =
    (let effective_path = normalize_effective_absolute_path env (resolved_path e);
         preserve_raw_carveout_paths = (path_parent root \<noteq> None);
         raw_carveout_path =
           (if preserve_raw_carveout_paths then
              (if path_eq (resolved_path e) root then None
               else if path_starts_with (resolved_path e) root then Some (resolved_path e)
               else find_map (\<lambda>raw_root.
                  case path_strip_prefix (resolved_path e) raw_root of
                    None \<Rightarrow> None
                  | Some sfx \<Rightarrow> if sfx = [] then None else Some (abs_join env root (path_str sfx))) raw_writable_roots)
            else None)
     in case raw_carveout_path of
          Some raw_carveout_path \<Rightarrow> Some raw_carveout_path
        | None \<Rightarrow>
            if path_eq effective_path root \<or> \<not> path_starts_with effective_path root then None
            else Some effective_path)"

definition writable_root_for :: "path_env \<Rightarrow> FileSystemSandboxPolicy \<Rightarrow> string \<Rightarrow> string list \<Rightarrow> string \<Rightarrow> WritableRoot" where
  "writable_root_for env p cwd writable_entries root =
    (let resolved_entries = resolved_entries_with_cwd env p cwd;
         raw_writable_roots = filter (\<lambda>path. path_eq (normalize_effective_absolute_path env path) root) writable_entries;
         protect_missing_dot_codex =
           (case abs_from env cwd of Some cwd \<Rightarrow> path_eq (normalize_effective_absolute_path env cwd) root | None \<Rightarrow> False);
         defaults = filter (\<lambda>path. \<not> has_explicit_resolved_path_entry resolved_entries path)
           (default_read_only_subpaths_for_writable_root env root protect_missing_dot_codex);
         carveouts = List.map_filter (carveout_path env root raw_writable_roots)
           (filter (\<lambda>e. \<not> can_write_path_with_cwd env p (resolved_path e) cwd)
             (filter (\<lambda>e. \<not> can_write (resolved_access e)) resolved_entries))
     in \<lparr>wr_root = root,
         read_only_subpaths = dedup_absolute_paths env (defaults @ carveouts) False,
         protected_metadata_names = protected_metadata_names_for_writable_root env p root raw_writable_roots cwd\<rparr>)"

definition get_writable_roots_with_cwd :: "path_env \<Rightarrow> FileSystemSandboxPolicy \<Rightarrow> string \<Rightarrow> WritableRoot list" where
  "get_writable_roots_with_cwd env p cwd =
    (if has_full_disk_write_access p then []
     else (let writable_entries =
         map resolved_path (filter (\<lambda>e. can_write_path_with_cwd env p (resolved_path e) cwd)
           (filter (\<lambda>e. can_write (resolved_access e)) (resolved_entries_with_cwd env p cwd)))
       in map (writable_root_for env p cwd writable_entries) (dedup_absolute_paths env writable_entries True)))"

definition get_unreadable_roots_with_cwd :: "path_env \<Rightarrow> FileSystemSandboxPolicy \<Rightarrow> string \<Rightarrow> string list" where
  "get_unreadable_roots_with_cwd env p cwd =
    (if fs_kind p \<noteq> Restricted then []
     else (let root = map_option absolute_root_path_for_cwd (abs_from env cwd) in
       dedup_absolute_paths env
         (map resolved_path
           (filter (\<lambda>e. \<not> (case root of Some root \<Rightarrow> path_eq root (resolved_path e) | None \<Rightarrow> False))
             (filter (\<lambda>e. \<not> can_read_path_with_cwd env p (resolved_path e) cwd)
               (filter (\<lambda>e. resolved_access e = AccessNone) (resolved_entries_with_cwd env p cwd))))) True))"

definition get_unreadable_globs_with_cwd :: "path_env \<Rightarrow> FileSystemSandboxPolicy \<Rightarrow> string \<Rightarrow> string list" where
  "get_unreadable_globs_with_cwd env p cwd =
    (if fs_kind p \<noteq> Restricted then []
     else remdups_adj (sort (List.map_filter (\<lambda>e.
         case entry_path e of
           GlobPattern pat \<Rightarrow> Some (resolve_path_against_base (pe_home env) pat cwd)
         | _ \<Rightarrow> None)
       (filter (\<lambda>e. entry_access e = AccessNone) (fs_entries p)))))"

definition legacy_get_writable_roots_with_cwd :: "path_env \<Rightarrow> SandboxPolicy \<Rightarrow> string \<Rightarrow> WritableRoot list" where
  "legacy_get_writable_roots_with_cwd env sp cwd =
    (case sp of
       WorkspaceWrite roots _ excl_tmpdir excl_slash_tmp \<Rightarrow>
         (let cwd_root = abs_from env cwd;
              slash_tmp = (if \<not> excl_slash_tmp
                then (case abs_from env ''/tmp'' of
                   Some t \<Rightarrow> if fs_is_dir env t then [t] else []
                 | None \<Rightarrow> []) else []);
              tmpdir = (if \<not> excl_tmpdir
                then (case pe_tmpdir env of
                   None \<Rightarrow> []
                 | Some t \<Rightarrow> if t = [] then [] else (case abs_from env t of Some t \<Rightarrow> [t] | None \<Rightarrow> []))
                else [])
          in map (\<lambda>root.
               \<lparr>wr_root = root,
                read_only_subpaths = default_read_only_subpaths_for_writable_root env root
                  (case cwd_root of Some cwd_root \<Rightarrow> path_eq cwd_root root | None \<Rightarrow> False),
                protected_metadata_names = []\<rparr>)
             (roots @ (case cwd_root of Some c \<Rightarrow> [c] | None \<Rightarrow> []) @ slash_tmp @ tmpdir))
     | _ \<Rightarrow> [])"

definition protected_metadata_names_need_direct_runtime_enforcement ::
  "path_env \<Rightarrow> FileSystemSandboxPolicy \<Rightarrow> SandboxPolicy \<Rightarrow> string \<Rightarrow> bool" where
  "protected_metadata_names_need_direct_runtime_enforcement env p legacy_policy cwd =
    (let legacy_roots = legacy_get_writable_roots_with_cwd env legacy_policy cwd in
     list_ex (\<lambda>writable_root.
       case List.find (\<lambda>candidate. path_eq (wr_root candidate) (wr_root writable_root)) legacy_roots of
         None \<Rightarrow> protected_metadata_names writable_root \<noteq> []
       | Some legacy_root \<Rightarrow>
           list_ex (\<lambda>metadata_name.
             \<not> list_ex (\<lambda>subpath. path_eq subpath (abs_join env (wr_root writable_root) metadata_name))
               (read_only_subpaths legacy_root)) (protected_metadata_names writable_root))
       (get_writable_roots_with_cwd env p cwd))"

section \<open>Semantic equivalence\<close>

text \<open>The order of paths: component by component, the root before \<open>.\<close>, \<open>..\<close> and names, names by their bytes.\<close>

fun component_key :: "Component \<Rightarrow> nat \<times> string" where
  "component_key RootDir = (0, [])"
| "component_key CurDir = (1, [])"
| "component_key ParentDir = (2, [])"
| "component_key (Normal s) = (3, s)"

definition path_key :: "string \<Rightarrow> (nat \<times> string) list" where
  "path_key p = map component_key (path_components p)"

record FileSystemSemanticSignature =
  sig_full_disk_read :: bool
  sig_full_disk_write :: bool
  sig_platform_defaults :: bool
  sig_readable_roots :: "(nat \<times> string) list list"
  sig_writable_roots :: "((nat \<times> string) list \<times> (nat \<times> string) list list \<times> string list) list"
  sig_unreadable_roots :: "(nat \<times> string) list list"
  sig_unreadable_globs :: "string list"

definition sorted_absolute_paths :: "string list \<Rightarrow> (nat \<times> string) list list" where
  "sorted_absolute_paths paths = sort (map path_key paths)"

definition sorted_writable_roots ::
  "WritableRoot list \<Rightarrow> ((nat \<times> string) list \<times> (nat \<times> string) list list \<times> string list) list" where
  "sorted_writable_roots roots =
    sort_key fst (map (\<lambda>r. (path_key (wr_root r), sorted_absolute_paths (read_only_subpaths r),
      remdups_adj (sort (protected_metadata_names r)))) roots)"

definition semantic_signature :: "path_env \<Rightarrow> FileSystemSandboxPolicy \<Rightarrow> string \<Rightarrow> FileSystemSemanticSignature" where
  "semantic_signature env p cwd =
    \<lparr>sig_full_disk_read = has_full_disk_read_access p,
     sig_full_disk_write = has_full_disk_write_access p,
     sig_platform_defaults = include_platform_defaults p,
     sig_readable_roots = sorted_absolute_paths (get_readable_roots_with_cwd env p cwd),
     sig_writable_roots = sorted_writable_roots (get_writable_roots_with_cwd env p cwd),
     sig_unreadable_roots = sorted_absolute_paths (get_unreadable_roots_with_cwd env p cwd),
     sig_unreadable_globs = get_unreadable_globs_with_cwd env p cwd\<rparr>"

definition is_semantically_equivalent_to ::
  "path_env \<Rightarrow> FileSystemSandboxPolicy \<Rightarrow> FileSystemSandboxPolicy \<Rightarrow> string \<Rightarrow> bool" where
  "is_semantically_equivalent_to env p q cwd \<longleftrightarrow> semantic_signature env p cwd = semantic_signature env q cwd"

definition needs_direct_runtime_enforcement ::
  "path_env \<Rightarrow> FileSystemSandboxPolicy \<Rightarrow> NetworkSandboxPolicy \<Rightarrow> string \<Rightarrow> bool" where
  "needs_direct_runtime_enforcement env p network_policy cwd =
    (if fs_kind p \<noteq> Restricted then False
     else (case to_legacy_sandbox_policy env p network_policy cwd of
        Err _ \<Rightarrow> True
      | Ok legacy_policy \<Rightarrow>
          if protected_metadata_names_need_direct_runtime_enforcement env p legacy_policy cwd then True
          else semantic_signature env p cwd \<noteq>
            semantic_signature env (legacy_runtime_file_system_policy_for_cwd env legacy_policy cwd) cwd))"

section \<open>Denied reads\<close>

type_synonym glob_compiler = "string \<Rightarrow> (string \<Rightarrow> bool) option"

definition push_unique :: "string list \<Rightarrow> string \<Rightarrow> string list" where
  "push_unique candidates candidate =
    (if list_ex (\<lambda>existing. path_eq existing candidate) candidates then candidates else candidates @ [candidate])"

definition normalized_and_canonical_candidates :: "path_env \<Rightarrow> string \<Rightarrow> string list" where
  "normalized_and_canonical_candidates env path =
    (let candidates = push_unique [] (case abs_from env path of Some normalized \<Rightarrow> normalized | None \<Rightarrow> path) in
     case fs_canonicalize env path of
       None \<Rightarrow> candidates
     | Some canonical \<Rightarrow>
         (case abs_from env canonical of
            Some canonical_absolute \<Rightarrow> push_unique candidates canonical_absolute
          | None \<Rightarrow> candidates))"

record ReadDenyMatcher =
  denied_candidates :: "string list list"
  deny_read_matchers :: "(string \<Rightarrow> bool) list"
  invalid_pattern :: bool

definition read_deny_matcher_new ::
  "path_env \<Rightarrow> glob_compiler \<Rightarrow> FileSystemSandboxPolicy \<Rightarrow> string \<Rightarrow> ReadDenyMatcher option" where
  "read_deny_matcher_new env build_glob_matcher p cwd =
    (if \<not> has_denied_read_restrictions p then None
     else (let patterns = get_unreadable_globs_with_cwd env p cwd in
       Some \<lparr>denied_candidates = map (normalized_and_canonical_candidates env) (get_unreadable_roots_with_cwd env p cwd),
         deny_read_matchers = List.map_filter build_glob_matcher patterns,
         invalid_pattern = list_ex (\<lambda>pat. build_glob_matcher pat = None) patterns\<rparr>))"

definition is_read_denied :: "path_env \<Rightarrow> ReadDenyMatcher \<Rightarrow> string \<Rightarrow> bool" where
  "is_read_denied env m path =
    (if invalid_pattern m then True
     else (let path_candidates = normalized_and_canonical_candidates env path in
       if list_ex (\<lambda>denied_candidates.
            list_ex (\<lambda>candidate.
              list_ex (\<lambda>denied. path_eq candidate denied \<or> path_starts_with candidate denied) denied_candidates)
            path_candidates) (denied_candidates m)
       then True
       else list_ex (\<lambda>matcher. list_ex matcher path_candidates) (deny_read_matchers m)))"

section \<open>Permission profiles\<close>

datatype SandboxEnforcement = EnforceManaged | EnforceDisabled | EnforceExternal

datatype ManagedFileSystemPermissions =
    ManagedRestricted "FileSystemSandboxEntry list" "nat option"
  | ManagedUnrestricted

datatype PermissionProfile =
    Managed ManagedFileSystemPermissions NetworkSandboxPolicy
  | Disabled
  | External NetworkSandboxPolicy

definition enforcement_from_legacy :: "SandboxPolicy \<Rightarrow> SandboxEnforcement" where
  "enforcement_from_legacy sp =
    (case sp of
       DangerFullAccess \<Rightarrow> EnforceDisabled
     | LegacyExternalSandbox _ \<Rightarrow> EnforceExternal
     | _ \<Rightarrow> EnforceManaged)"

text \<open>A depth of zero is not representable; the external kind, which panics, is never passed.\<close>

definition managed_from_sandbox_policy :: "FileSystemSandboxPolicy \<Rightarrow> ManagedFileSystemPermissions option" where
  "managed_from_sandbox_policy p =
    (case fs_kind p of
       Restricted \<Rightarrow> Some (ManagedRestricted (fs_entries p)
         (case glob_scan_max_depth p of Some d \<Rightarrow> if d = 0 then None else Some d | None \<Rightarrow> None))
     | Unrestricted \<Rightarrow> Some ManagedUnrestricted
     | ExternalSandbox \<Rightarrow> None)"

definition managed_to_sandbox_policy :: "ManagedFileSystemPermissions \<Rightarrow> FileSystemSandboxPolicy" where
  "managed_to_sandbox_policy m =
    (case m of
       ManagedRestricted entries depth \<Rightarrow> \<lparr>fs_kind = Restricted, glob_scan_max_depth = depth, fs_entries = entries\<rparr>
     | ManagedUnrestricted \<Rightarrow> unrestricted)"

definition from_runtime_permissions_with_enforcement ::
  "SandboxEnforcement \<Rightarrow> FileSystemSandboxPolicy \<Rightarrow> NetworkSandboxPolicy \<Rightarrow> PermissionProfile option" where
  "from_runtime_permissions_with_enforcement enforcement p network =
    (case fs_kind p of
       ExternalSandbox \<Rightarrow> Some (External network)
     | k \<Rightarrow>
         if k = Unrestricted \<and> enforcement = EnforceDisabled then Some Disabled
         else map_option (\<lambda>m. Managed m network) (managed_from_sandbox_policy p))"

definition from_runtime_permissions ::
  "FileSystemSandboxPolicy \<Rightarrow> NetworkSandboxPolicy \<Rightarrow> PermissionProfile option" where
  "from_runtime_permissions p network =
    from_runtime_permissions_with_enforcement
      (case fs_kind p of ExternalSandbox \<Rightarrow> EnforceExternal | _ \<Rightarrow> EnforceManaged) p network"

definition profile_from_legacy_sandbox_policy :: "path_env \<Rightarrow> SandboxPolicy \<Rightarrow> PermissionProfile option" where
  "profile_from_legacy_sandbox_policy env sp =
    from_runtime_permissions_with_enforcement (enforcement_from_legacy sp) (from_sandbox_policy env sp)
      (network_from_sandbox_policy sp)"

definition profile_from_legacy_sandbox_policy_for_cwd :: "path_env \<Rightarrow> SandboxPolicy \<Rightarrow> string \<Rightarrow> PermissionProfile option" where
  "profile_from_legacy_sandbox_policy_for_cwd env sp cwd =
    from_runtime_permissions_with_enforcement (enforcement_from_legacy sp)
      (from_legacy_sandbox_policy_for_cwd env sp cwd) (network_from_sandbox_policy sp)"

definition file_system_sandbox_policy :: "PermissionProfile \<Rightarrow> FileSystemSandboxPolicy" where
  "file_system_sandbox_policy profile =
    (case profile of
       Managed file_system _ \<Rightarrow> managed_to_sandbox_policy file_system
     | Disabled \<Rightarrow> unrestricted
     | External _ \<Rightarrow> external_sandbox)"

definition network_sandbox_policy :: "PermissionProfile \<Rightarrow> NetworkSandboxPolicy" where
  "network_sandbox_policy profile =
    (case profile of
       Managed _ network \<Rightarrow> network
     | External network \<Rightarrow> network
     | Disabled \<Rightarrow> NetEnabled)"

definition profile_to_legacy_sandbox_policy ::
  "path_env \<Rightarrow> PermissionProfile \<Rightarrow> string \<Rightarrow> (string, SandboxPolicy) result" where
  "profile_to_legacy_sandbox_policy env profile cwd =
    (case profile of
       Managed file_system network \<Rightarrow> to_legacy_sandbox_policy env (managed_to_sandbox_policy file_system) network cwd
     | Disabled \<Rightarrow> Ok DangerFullAccess
     | External network \<Rightarrow> Ok (LegacyExternalSandbox (if network_is_enabled network then NAEnabled else NARestricted)))"

section \<open>Entries that protect\<close>

text \<open>The default protections only append read-only entries.\<close>

definition read_only_extension :: "FileSystemSandboxEntry list \<Rightarrow> FileSystemSandboxEntry list \<Rightarrow> bool" where
  "read_only_extension entries entries' \<longleftrightarrow> (\<exists>rs. entries' = entries @ rs \<and> (\<forall>e\<in>set rs. entry_access e = AccessRead))"

lemma read_only_extension_refl: "read_only_extension entries entries"
  by (simp add: read_only_extension_def)

lemma read_only_extension_trans:
  "read_only_extension a b \<Longrightarrow> read_only_extension b c \<Longrightarrow> read_only_extension a c"
  by (auto simp: read_only_extension_def)

lemma read_only_extension_foldl:
  assumes "\<And>es x. read_only_extension es (f es x)"
  shows "read_only_extension es (foldl f es xs)"
  by (induction xs arbitrary: es) (auto intro: read_only_extension_refl read_only_extension_trans assms)

lemma read_only_extension_append:
  "read_only_extension es (append_default_read_only_entry_if_no_explicit_rule es path)"
  by (auto simp: read_only_extension_def append_default_read_only_entry_if_no_explicit_rule_def entry_def)

lemma read_only_extension_protect: "read_only_extension es (protect_root env b es root)"
  unfolding protect_root_def append_default_read_only_path_if_no_explicit_rule_def
  by (rule read_only_extension_foldl) (rule read_only_extension_append)

lemma read_only_extension_protect_all:
  "read_only_extension es (protect_cwd_and_roots env cwd roots es)"
  unfolding protect_cwd_and_roots_def
  by (rule read_only_extension_trans [OF _ read_only_extension_foldl])
    (auto simp: read_only_extension_refl read_only_extension_protect split: option.splits)

lemma read_only_extension_workspace:
  "fs_kind (workspace_write env roots et es) = Restricted \<and>
   read_only_extension (workspace_grants roots et es) (fs_entries (workspace_write env roots et es))"
proof -
  have "read_only_extension (workspace_grants roots et es)
      (foldl append_default_read_only_project_root_subpath_if_no_explicit_rule (workspace_grants roots et es) xs)" for xs
    unfolding append_default_read_only_project_root_subpath_if_no_explicit_rule_def
    by (rule read_only_extension_foldl) (rule read_only_extension_append)
  from read_only_extension_trans [OF this read_only_extension_foldl [of "protect_root env False", OF read_only_extension_protect]] show ?thesis
    unfolding workspace_write_def Let_def restricted_def FileSystemSandboxPolicy.simps by blast
qed

section \<open>The legacy projection\<close>

lemma scan_read: "entry_access e = AccessRead \<Longrightarrow> scan_entry env c s e = s"
  by (simp add: scan_entry_def Let_def split: FileSystemPath.splits FileSystemSpecialPath.splits option.splits)

lemma scan_grants [simp]:
  "scan_entry env c s (entry (Special Root) AccessRead) = s"
  "scan_entry env c s (entry (Special (ProjectRoots None)) AccessWrite) = s\<lparr>workspace_root_writable := True\<rparr>"
  "scan_entry env c s (entry (Special Tmpdir) AccessWrite) = s\<lparr>tmpdir_writable := True\<rparr>"
  "scan_entry env c s (entry (Special SlashTmp) AccessWrite) = s\<lparr>slash_tmp_writable := True\<rparr>"
  by (simp_all add: scan_entry_def entry_def)

lemma scan_reads: "\<forall>e\<in>set rs. entry_access e = AccessRead \<Longrightarrow> foldl (scan_entry env c) s rs = s"
  by (induction rs) (auto simp: scan_read)

lemma scan_roots:
  assumes "\<forall>root\<in>set roots. \<not> (case c of Some cwd \<Rightarrow> path_eq cwd root | None \<Rightarrow> False)"
  shows "foldl (scan_entry env c) s (map (\<lambda>path. entry (PathEntry path) AccessWrite) roots) =
    s\<lparr>scan_writable_roots := scan_writable_roots s @ roots\<rparr>"
  using assms
proof (induction roots arbitrary: s)
  case (Cons r roots)
  then have "scan_entry env c s (entry (PathEntry r) AccessWrite) = s\<lparr>scan_writable_roots := scan_writable_roots s @ [r]\<rparr>"
    by (simp add: scan_entry_def entry_def)
  with Cons show ?case by simp
qed simp

lemma dedup_loop_distinct:
  "distinct (map path_components (deduped @ paths)) \<Longrightarrow> dedup_loop env False deduped paths = deduped @ paths"
proof (induction paths arbitrary: deduped)
  case (Cons p paths)
  then have "\<not> list_ex (path_eq p) deduped" by (force simp: list_ex_iff path_eq_def)
  with Cons.prems Cons.IH [of "deduped @ [p]"] show ?case by simp
qed simp

lemma no_full_disk:
  assumes "read_only_extension (workspace_grants roots et es) entries" "fs_entries p = entries"
  shows "fs_kind p = Restricted \<Longrightarrow> \<not> has_full_disk_write_access p"
proof -
  assume k: "fs_kind p = Restricted"
  obtain rs where rs: "entries = workspace_grants roots et es @ rs" "\<forall>e\<in>set rs. entry_access e = AccessRead"
    using assms(1) by (auto simp: read_only_extension_def)
  have "entry_access e = AccessRead" if "e \<in> set entries" "entry_path e = Special Root" for e
    using that rs by (auto simp: workspace_grants_def entry_def split: if_splits)
  with assms(2) k show ?thesis
    by (auto simp: has_full_disk_write_access_def has_root_access_def list_ex_iff)
qed

lemma scan_workspace:
  assumes "read_only_extension (workspace_grants roots et es) entries"
    "\<forall>root\<in>set roots. \<not> (case c of Some cwd \<Rightarrow> path_eq cwd root | None \<Rightarrow> False)"
  shows "foldl (scan_entry env c) scan_start entries =
    \<lparr>workspace_root_writable = True, scan_writable_roots = roots, tmpdir_writable = \<not> et,
     slash_tmp_writable = \<not> es, unbridgeable_root_write = False\<rparr>"
proof -
  obtain rs where rs: "entries = workspace_grants roots et es @ rs" "\<forall>e\<in>set rs. entry_access e = AccessRead"
    using assms(1) by (auto simp: read_only_extension_def)
  then show ?thesis
    using scan_roots [OF assms(2)] scan_reads [OF rs(2)]
    by (auto simp: workspace_grants_def scan_start_def)
qed

lemma to_legacy_workspace:
  assumes ext: "read_only_extension (workspace_grants roots et es) (fs_entries p)" and k: "fs_kind p = Restricted"
    and roots: "distinct (map path_components roots)" "\<forall>root\<in>set roots. \<not> (case abs_from env cwd of Some cwd \<Rightarrow> path_eq cwd root | None \<Rightarrow> False)"
  shows "to_legacy_sandbox_policy env p n cwd = Ok (WorkspaceWrite roots (network_is_enabled n) et es)"
  using scan_workspace [OF ext roots(2)] no_full_disk [OF ext refl k] roots(1) k
  by (simp add: to_legacy_sandbox_policy_def Let_def dedup_absolute_paths_def dedup_loop_distinct)

section \<open>Denials and added roots\<close>

lemma special_share_refl: "special_paths_share_target v v"
  by (cases v) (auto simp: special_paths_share_target_def path_eq_def split: option.splits)

lemma entry_eq_refl: "entry_eq e e"
  by (cases "entry_path e") (simp_all add: entry_eq_def file_system_path_eq_def path_eq_def special_share_refl)

lemma push_missing_keeps: "set entries \<subseteq> set (push_missing_deny_entries entries existing)"
proof -
  have "set entries \<subseteq> set (foldl (\<lambda>entries d. if list_ex (\<lambda>e. entry_eq e d) entries then entries else entries @ [d]) entries ds)" for ds
    by (induction ds arbitrary: entries) (auto, force+)
  then show ?thesis by (simp add: push_missing_deny_entries_def)
qed

lemma push_missing_has:
  assumes "d \<in> set existing" "entry_access d = AccessNone"
  shows "\<exists>e\<in>set (push_missing_deny_entries entries existing). entry_eq e d"
proof -
  let ?f = "\<lambda>entries d. if list_ex (\<lambda>e. entry_eq e d) entries then entries else entries @ [d]"
  have keep: "set entries \<subseteq> set (foldl ?f entries ds)" for entries ds
    by (induction ds arbitrary: entries) (auto, force+)
  have "\<exists>e\<in>set (foldl ?f entries ds). entry_eq e d" if "d \<in> set ds" for entries ds
    using that
  proof (induction ds arbitrary: entries)
    case (Cons x ds)
    show ?case
    proof (cases "d = x")
      case True
      then have "\<exists>e\<in>set (?f entries x). entry_eq e d" using entry_eq_refl by (auto simp: list_ex_iff)
      then show ?thesis unfolding foldl.simps using keep [of "?f entries x" ds] by (meson subsetD)
    qed (use Cons in auto)
  qed simp
  with assms show ?thesis by (simp add: push_missing_deny_entries_def)
qed

lemma path_eq_resolved:
  assumes "file_system_path_eq a b" "wf_env env" "resolve_entry_path env b (abs_from env cwd) = Some q"
  shows "\<exists>q'. resolve_entry_path env a (abs_from env cwd) = Some q' \<and> path_components q' = path_components q"
proof -
  have home: "\<And>h. pe_home env = Some h \<Longrightarrow> is_absolute h" using assms(2) by (auto simp: wf_env_def)
  have abs: "is_absolute base" if "abs_from env cwd = Some base" for base
    using abs_from_normal [OF assms(2) that] normal_abs_absolute by auto
  show ?thesis
  proof (cases "a = b")
    case False
    then consider x y where "a = PathEntry x" "b = PathEntry y" "path_components x = path_components y"
      | x y where "a = Special (ProjectRoots (Some x))" "b = Special (ProjectRoots (Some y))" "path_components x = path_components y"
      | v w where "a = Special (Unknown v w)" "b = Special (Unknown v w)"
      | v x y where "a = Special (Unknown v x)" "b = Special (Unknown v y)"
      using assms(1) by (auto simp: file_system_path_eq_def special_paths_share_target_def path_eq_def
          split: FileSystemPath.splits FileSystemSpecialPath.splits option.splits)
    then show ?thesis
    proof cases
      case (2 x y)
      then show ?thesis
        using assms(3) resolve_path_components [OF 2(3) abs home]
        by (auto simp: resolve_entry_path_def resolve_file_system_path_def resolve_file_system_special_path_def split: option.splits)
    qed (use assms(3) in \<open>auto simp: resolve_entry_path_def resolve_file_system_path_def resolve_file_system_special_path_def\<close>)
  qed (use assms(3) in auto)
qed

lemma prec_mono: "resolved_entry_precedence e \<le> resolved_entry_precedence e' \<Longrightarrow>
   length (path_components (resolved_path e)) \<le> length (path_components (resolved_path e'))"
  by (auto simp: resolved_entry_precedence_def)

lemma can_read_iff: "can_read a \<longleftrightarrow> a \<noteq> AccessNone"
  by (cases a) auto

lemma can_read_not_restricted: "fs_kind p \<noteq> Restricted \<Longrightarrow> can_read_path_with_cwd env p path cwd"
  by (cases "fs_kind p") (simp_all add: can_read_path_with_cwd_def resolve_access_with_cwd_def)

lemma can_read_matching:
  "fs_kind p = Restricted \<Longrightarrow> can_read_path_with_cwd env p path cwd \<Longrightarrow>
    \<exists>t. resolve_candidate_path env path cwd = Some t \<and> matching_entries env p t cwd \<noteq> {}"
  by (auto simp: can_read_path_with_cwd_def resolve_access_with_cwd_def matching_entries_def max_by_key_def filter_empty_conv
      split: option.splits list.splits) (metis filter_empty_conv list.distinct(1))

lemma resolved_entries_push:
  "resolved_entries_with_cwd env (p\<lparr>fs_entries := fs_entries p @ [entry (PathEntry r) a]\<rparr>) cwd =
    resolved_entries_with_cwd env p cwd @ [\<lparr>resolved_path = r, resolved_access = a\<rparr>]"
  by (simp add: resolved_entries_with_cwd_def entry_def resolve_entry_path_def resolve_file_system_path_def List.map_filter_def Let_def)

lemma push_read_keeps_reads:
  assumes "can_read_path_with_cwd env p path cwd"
  shows "can_read_path_with_cwd env (p\<lparr>fs_entries := fs_entries p @ [entry (PathEntry r) AccessRead]\<rparr>) path cwd"
    (is "can_read_path_with_cwd env ?q path cwd")
proof (cases "fs_kind p = Restricted")
  case True
  obtain t where t: "resolve_candidate_path env path cwd = Some t" "matching_entries env p t cwd \<noteq> {}"
    using can_read_matching [OF True assms] by blast
  have sub: "matching_entries env p t cwd \<subseteq> matching_entries env ?q t cwd"
    "matching_entries env ?q t cwd \<subseteq> insert \<lparr>resolved_path = r, resolved_access = AccessRead\<rparr> (matching_entries env p t cwd)"
    by (auto simp: matching_entries_def resolved_entries_push)
  obtain m where m: "m \<in> matching_entries env p t cwd" "resolve_access_with_cwd env p path cwd = resolved_access m"
    "\<And>e. e \<in> matching_entries env p t cwd \<Longrightarrow> resolved_entry_precedence e \<le> resolved_entry_precedence m"
    using resolve_access_max [OF True t] by blast
  obtain m' where m': "m' \<in> matching_entries env ?q t cwd" "resolve_access_with_cwd env ?q path cwd = resolved_access m'"
    "\<And>e. e \<in> matching_entries env ?q t cwd \<Longrightarrow> resolved_entry_precedence e \<le> resolved_entry_precedence m'"
    using resolve_access_max [of ?q env path cwd t] True t sub(1) by fastforce
  have "resolved_access m' \<noteq> AccessNone"
  proof
    assume none: "resolved_access m' = AccessNone"
    then have "m' \<in> matching_entries env p t cwd" using m'(1) sub(2) by auto
    then have "resolved_entry_precedence m' = resolved_entry_precedence m"
      using m(1,3) m'(3) sub(1) by (intro antisym) auto
    then show False
      using none m(2) assms by (simp add: resolved_entry_precedence_def can_read_path_with_cwd_def)
  qed
  with m'(2) show ?thesis by (simp add: can_read_path_with_cwd_def can_read_iff)
qed (simp add: can_read_not_restricted)

lemma push_read_reads:
  assumes "resolve_candidate_path env r cwd = Some r"
    "\<not> can_read_path_with_cwd env (p\<lparr>fs_entries := fs_entries p @ [entry (PathEntry r) AccessRead]\<rparr>) r cwd"
  shows "\<exists>e\<in>set (resolved_entries_with_cwd env p cwd). resolved_access e = AccessNone \<and> path_components (resolved_path e) = path_components r"
proof -
  let ?q = "p\<lparr>fs_entries := fs_entries p @ [entry (PathEntry r) AccessRead]\<rparr>"
  let ?n = "\<lparr>resolved_path = r, resolved_access = AccessRead\<rparr>"
  have k: "fs_kind ?q = Restricted" using assms(2) can_read_not_restricted by blast
  have n: "?n \<in> matching_entries env ?q r cwd"
    by (simp add: matching_entries_def resolved_entries_push path_starts_with_def)
  then obtain m where m: "m \<in> matching_entries env ?q r cwd" "resolve_access_with_cwd env ?q r cwd = resolved_access m"
    "resolved_entry_precedence ?n \<le> resolved_entry_precedence m"
    using resolve_access_max [OF k assms(1)] by blast
  then have none: "resolved_access m = AccessNone"
    using assms(2) by (simp add: can_read_path_with_cwd_def can_read_iff)
  have "path_starts_with r (resolved_path m)" using m(1) by (simp add: matching_entries_def)
  then have "length (path_components (resolved_path m)) \<le> length (path_components r)"
    unfolding path_starts_with_def by (metis length_take min.cobounded1)
  then have "path_components (resolved_path m) = path_components r"
    using prec_mono [OF m(3)] \<open>path_starts_with r (resolved_path m)\<close> by (auto simp: path_starts_with_def)
  moreover have "m \<in> set (resolved_entries_with_cwd env p cwd)"
    using m(1) none by (auto simp: matching_entries_def resolved_entries_push)
  ultimately show ?thesis using none by blast
qed

lemma add_readable_roots_keeps:
  "can_read_path_with_cwd env p path cwd \<Longrightarrow> can_read_path_with_cwd env (add_readable_roots env cwd p roots) path cwd"
  by (induction roots arbitrary: p) (auto intro: push_read_keeps_reads)

lemma add_readable_roots_reads:
  assumes "r \<in> set roots" "resolve_candidate_path env r cwd = Some r"
    "\<not> can_read_path_with_cwd env (add_readable_roots env cwd p roots) r cwd"
  shows "\<exists>e\<in>set (resolved_entries_with_cwd env p cwd). resolved_access e = AccessNone \<and> path_components (resolved_path e) = path_components r"
  using assms
proof (induction roots arbitrary: p)
  case (Cons x roots)
  let ?q = "p\<lparr>fs_entries := fs_entries p @ [entry (PathEntry x) AccessRead]\<rparr>"
  show ?case
  proof (cases "can_read_path_with_cwd env p x cwd")
    case True
    with Cons.prems add_readable_roots_keeps [of env p r cwd] have "r \<in> set roots" by auto
    with Cons True show ?thesis by simp
  next
    case False
    show ?thesis
    proof (cases "r = x")
      case True
      with False Cons.prems(3) add_readable_roots_keeps [of env ?q r cwd roots] have "\<not> can_read_path_with_cwd env ?q r cwd" by auto
      with True push_read_reads [OF Cons.prems(2)] show ?thesis by simp
    next
      case neq: False
      with False Cons show ?thesis by (fastforce simp: resolved_entries_push)
    qed
  qed
qed simp

lemma full_disk_read_sound:
  assumes "has_full_disk_read_access p" "wf_env env" "abs_from env cwd = Some base"
  shows "can_read_path_with_cwd env p path cwd"
proof (cases "fs_kind p = Restricted")
  case True
  obtain t where t: "resolve_candidate_path env path cwd = Some t" using candidate_exists [OF assms(3)] by blast
  obtain cs where cs: "normal_abs cs" "base = path_str cs" using abs_from_normal [OF assms(2,3)] by blast
  obtain w where w: "w \<in> set (fs_entries p)" "entry_path w = Special Root"
    using assms(1) True by (auto simp: has_full_disk_read_access_def has_root_access_def list_ex_iff)
  have "\<lparr>resolved_path = [slash], resolved_access = entry_access w\<rparr> \<in> matching_entries env p t cwd"
    using w assms(3) cs root_of_absolute starts_with_root [OF candidate_normal [OF assms(2) t] components_root]
    by (force simp: matching_entries_def resolved_entries_iff resolve_entry_path_def)
  then obtain m where m: "m \<in> matching_entries env p t cwd" "resolve_access_with_cwd env p path cwd = resolved_access m"
    using resolve_access_max [OF True t] by blast
  then have "resolved_access m \<noteq> AccessNone"
    using assms(1) True
    by (auto simp: matching_entries_def resolved_entries_iff has_full_disk_read_access_def has_denied_read_restrictions_def list_ex_iff)
  with m(2) show ?thesis by (simp add: can_read_path_with_cwd_def can_read_iff)
qed (simp add: can_read_not_restricted)

section \<open>Properties\<close>

definition proper_roots :: "path_env \<Rightarrow> SandboxPolicy \<Rightarrow> string \<Rightarrow> bool" where
  "proper_roots env sp cwd =
    (case sp of
       WorkspaceWrite roots _ _ _ \<Rightarrow>
         distinct (map path_components roots) \<and>
         list_all (\<lambda>root. \<not> (case abs_from env cwd of Some cwd \<Rightarrow> path_eq cwd root | None \<Rightarrow> False)) roots
     | _ \<Rightarrow> True)"

text \<open>C10: Legacy policies survive the conversion to permission profiles and back, whatever the file system
  contains: the profile exists and projects to the policy it came from.  The writable roots have to be
  distinct from each other and from the working directory, which is writable anyway.\<close>

theorem legacy_round_trip:
  assumes "proper_roots env sp cwd"
  shows "(\<exists>profile. profile_from_legacy_sandbox_policy env sp = Some profile \<and>
      profile_to_legacy_sandbox_policy env profile cwd = Ok sp) \<and>
    (\<exists>profile. profile_from_legacy_sandbox_policy_for_cwd env sp cwd = Some profile \<and>
      profile_to_legacy_sandbox_policy env profile cwd = Ok sp)"
proof (cases sp)
  case (WorkspaceWrite roots n et es)
  let ?p = "workspace_write env roots et es"
  let ?q = "?p\<lparr>fs_entries := protect_cwd_and_roots env cwd roots (fs_entries ?p)\<rparr>"
  have w: "fs_kind ?p = Restricted" "glob_scan_max_depth ?p = None" "read_only_extension (workspace_grants roots et es) (fs_entries ?p)"
    using read_only_extension_workspace [of env roots et es] by (auto simp: workspace_write_def restricted_def Let_def)
  have roots: "distinct (map path_components roots)"
    "\<forall>root\<in>set roots. \<not> (case abs_from env cwd of Some cwd \<Rightarrow> path_eq cwd root | None \<Rightarrow> False)"
    using assms WorkspaceWrite by (auto simp: proper_roots_def list_all_iff)
  have net: "network_is_enabled (network_from_sandbox_policy sp) = n"
    using WorkspaceWrite by (simp add: network_from_sandbox_policy_def has_full_network_access_def)
  have profile: "from_runtime_permissions_with_enforcement EnforceManaged r m = Some (Managed (ManagedRestricted (fs_entries r) None) m)"
    if "fs_kind r = Restricted" "glob_scan_max_depth r = None" for r m
    using that by (simp add: from_runtime_permissions_with_enforcement_def managed_from_sandbox_policy_def)
  have project: "profile_to_legacy_sandbox_policy env (Managed (ManagedRestricted es' None) (network_from_sandbox_policy sp)) cwd = Ok sp"
    if "read_only_extension (workspace_grants roots et es) es'" for es'
    using to_legacy_workspace [OF _ _ roots, of et es "\<lparr>fs_kind = Restricted, glob_scan_max_depth = None, fs_entries = es'\<rparr>"]
      that net WorkspaceWrite by (simp add: profile_to_legacy_sandbox_policy_def managed_to_sandbox_policy_def)
  have "read_only_extension (workspace_grants roots et es) (fs_entries ?q)"
    using read_only_extension_trans [OF w(3) read_only_extension_protect_all] by simp
  with w project profile [of ?p] profile [of ?q] WorkspaceWrite show ?thesis
    by (simp add: profile_from_legacy_sandbox_policy_def profile_from_legacy_sandbox_policy_for_cwd_def
        from_legacy_sandbox_policy_for_cwd_def from_sandbox_policy_def enforcement_from_legacy_def Let_def)
next
  case (LegacyExternalSandbox n)
  then show ?thesis
    by (cases n) (simp_all add: profile_from_legacy_sandbox_policy_def profile_from_legacy_sandbox_policy_for_cwd_def
        from_legacy_sandbox_policy_for_cwd_def from_sandbox_policy_def from_runtime_permissions_with_enforcement_def
        external_sandbox_def profile_to_legacy_sandbox_policy_def network_from_sandbox_policy_def has_full_network_access_def)
next
  case (ReadOnly n)
  then show ?thesis
    by (simp add: profile_from_legacy_sandbox_policy_def profile_from_legacy_sandbox_policy_for_cwd_def
        from_legacy_sandbox_policy_for_cwd_def from_sandbox_policy_def from_runtime_permissions_with_enforcement_def
        restricted_def enforcement_from_legacy_def managed_from_sandbox_policy_def managed_to_sandbox_policy_def
        profile_to_legacy_sandbox_policy_def network_from_sandbox_policy_def has_full_network_access_def
        to_legacy_sandbox_policy_def has_full_disk_write_access_def has_root_access_def entry_def scan_start_def scan_entry_def)
next
  case DangerFullAccess
  then show ?thesis
    by (simp add: profile_from_legacy_sandbox_policy_def profile_from_legacy_sandbox_policy_for_cwd_def
        from_legacy_sandbox_policy_for_cwd_def from_sandbox_policy_def from_runtime_permissions_with_enforcement_def
        unrestricted_def enforcement_from_legacy_def profile_to_legacy_sandbox_policy_def)
qed

theorem legacy_round_trip_witness:
  "\<exists>profile. profile_from_legacy_sandbox_policy_for_cwd plain_env (WorkspaceWrite [''/data''] True True False) ''/repo'' = Some profile \<and>
    profile_to_legacy_sandbox_policy plain_env profile ''/repo'' = Ok (WorkspaceWrite [''/data''] True True False)"
proof -
  have "proper_roots plain_env (WorkspaceWrite [''/data''] True True False) ''/repo''" by code_simp
  from legacy_round_trip [OF this] show ?thesis by (rule conjunct2)
qed

text \<open>Resolving the symbolic project roots against a working directory changes no access decision there,
  and what they grant no longer depends on the working directory: no project-root entry is left.\<close>

theorem materialize_keeps_access:
  "resolve_access_with_cwd env (materialize_project_roots_with_cwd env p cwd) path cwd = resolve_access_with_cwd env p path cwd \<and>
   (abs_from env cwd = None \<or>
     list_all (\<lambda>e. \<nexists>s. entry_path e = Special (ProjectRoots s)) (fs_entries (materialize_project_roots_with_cwd env p cwd)))"
proof -
  have same: "resolve_entry_path env (entry_path (materialize_entry env c e)) c = resolve_entry_path env (entry_path e) c \<and>
      entry_access (materialize_entry env c e) = entry_access e" for c e
    by (auto simp: materialize_entry_def resolve_entry_path_def resolve_file_system_path_def
        split: FileSystemPath.splits FileSystemSpecialPath.splits option.splits)
  then have "resolved_entries_with_cwd env (materialize_project_roots_with_cwd env p cwd) cwd = resolved_entries_with_cwd env p cwd"
    by (simp add: resolved_entries_with_cwd_def materialize_project_roots_with_cwd_def List.map_filter_def filter_map comp_def)
  moreover have "fs_kind (materialize_project_roots_with_cwd env p cwd) = fs_kind p"
    by (simp add: materialize_project_roots_with_cwd_def)
  ultimately have "resolve_access_with_cwd env (materialize_project_roots_with_cwd env p cwd) path cwd = resolve_access_with_cwd env p path cwd"
    by (simp only: resolve_access_with_cwd_def)
  moreover have "\<nexists>s. entry_path (materialize_entry env (Some c) e) = Special (ProjectRoots s)" for c e
    by (auto simp: materialize_entry_def resolve_file_system_path_def resolve_file_system_special_path_def
        split: FileSystemPath.splits FileSystemSpecialPath.splits option.splits)
  ultimately show ?thesis
    by (cases "abs_from env cwd") (auto simp: materialize_project_roots_with_cwd_def list_all_iff)
qed



text \<open>Adding readable roots takes no readable path away, and makes every one of the roots readable unless an
  entry of the policy denies exactly that root.\<close>

theorem readable_roots_added:
  assumes "wf_env env" "abs_from env cwd = Some base"
  shows "(can_read_path_with_cwd env p path cwd \<longrightarrow>
      can_read_path_with_cwd env (with_additional_readable_roots env p cwd roots) path cwd) \<and>
    (root \<in> set roots \<longrightarrow> resolve_candidate_path env root cwd = Some root \<longrightarrow>
      can_read_path_with_cwd env (with_additional_readable_roots env p cwd roots) root cwd \<or>
      (\<exists>e\<in>set (resolved_entries_with_cwd env p cwd).
        resolved_access e = AccessNone \<and> path_components (resolved_path e) = path_components root))"
  using full_disk_read_sound [OF _ assms] add_readable_roots_keeps add_readable_roots_reads [of root roots env cwd p]
  by (auto simp: with_additional_readable_roots_def)

theorem readable_roots_added_witness:
  "can_read_path_with_cwd plain_env (with_additional_readable_roots plain_env
     (restricted [entry (PathEntry ''/data'') AccessNone]) ''/repo'' [''/opt'', ''/data/in'']) ''/data/in'' ''/repo'' \<or>
   (\<exists>e\<in>set (resolved_entries_with_cwd plain_env (restricted [entry (PathEntry ''/data'') AccessNone]) ''/repo'').
      resolved_access e = AccessNone \<and> path_components (resolved_path e) = path_components ''/data/in'')"
proof -
  have "abs_from plain_env ''/repo'' = Some ''/repo''" "resolve_candidate_path plain_env ''/data/in'' ''/repo'' = Some ''/data/in''"
    by code_simp+
  with readable_roots_added [OF wf_plain_env, of "''/repo''" "''/repo''" _ _ "[''/opt'', ''/data/in'']" "''/data/in''"]
  show ?thesis by simp
qed

end
