(* ===== verification/Exec_Approval.thy ===== *)
theory Exec_Approval
  imports Rules_File Command_Safety Sandbox_Roots
begin

text \<open>
  Deciding whether a command needs approval (core/src/exec_policy.rs, core/src/tools/sandboxing.rs):
  the commands of a shell wrapper are checked against the execution policy, commands without a rule
  against the safe and dangerous lists, the approval policy and the sandbox, and the verdict becomes
  a requirement with a proposed amendment.  Accepted amendments are appended to the policy file and
  to the policy in memory.  The build is not a Windows build, so a command has the generic origin and
  the environment never lacks a sandbox.  \<open>shlex::try_join\<close> and \<open>serde_json::to_string\<close> are
  parameters.  Evaluations are optional because checking no command at all panics.
\<close>

section \<open>Requests\<close>

record GranularApprovalConfig =
  sandbox_approval :: bool
  rules_approval :: bool
  skill_approval :: bool
  request_permissions :: bool
  mcp_elicitations :: bool

datatype AskForApproval =
    UnlessTrusted
  | OnFailure
  | OnRequest
  | Granular GranularApprovalConfig
  | Never

datatype SandboxPermissions = UseDefault | RequireEscalated | WithAdditionalPermissions

definition requires_escalated_permissions :: "SandboxPermissions \<Rightarrow> bool" where
  "requires_escalated_permissions p \<longleftrightarrow> p = RequireEscalated"

definition requests_sandbox_override :: "SandboxPermissions \<Rightarrow> bool" where
  "requests_sandbox_override p \<longleftrightarrow> p \<noteq> UseDefault"

datatype ExecApprovalRequirement =
    Skip bool "string list option"
  | NeedsApproval "string option" "string list option"
  | ForbiddenExec string

fun proposed_execpolicy_amendment :: "ExecApprovalRequirement \<Rightarrow> string list option" where
  "proposed_execpolicy_amendment (NeedsApproval _ (Some prefix_tokens)) = Some prefix_tokens"
| "proposed_execpolicy_amendment (Skip _ (Some prefix_tokens)) = Some prefix_tokens"
| "proposed_execpolicy_amendment _ = None"

record approval_env =
  ae_safety :: safety_env
  ae_host :: host_env
  shlex_try_join :: "string list \<Rightarrow> string option"
  json_to_string :: "string \<Rightarrow> string option"

record UnmatchedCommandContext =
  uc_approval_policy :: AskForApproval
  uc_permission_profile :: PermissionProfile
  uc_file_system_sandbox_policy :: FileSystemSandboxPolicy
  uc_sandbox_permissions :: SandboxPermissions
  uc_used_complex_parsing :: bool

record ExecPolicyCommands =
  ec_commands :: "string list list"
  ec_used_complex_parsing :: bool

record ExecApprovalRequest =
  req_command :: "string list"
  req_approval_policy :: AskForApproval
  req_permission_profile :: PermissionProfile
  req_file_system_sandbox_policy :: FileSystemSandboxPolicy
  req_sandbox_permissions :: SandboxPermissions
  req_prefix_rule :: "string list option"

section \<open>Verdicts\<close>

definition PROMPT_CONFLICT_REASON :: string where
  "PROMPT_CONFLICT_REASON = ''approval required by policy, but AskForApproval is set to Never''"

definition REJECT_SANDBOX_APPROVAL_REASON :: string where
  "REJECT_SANDBOX_APPROVAL_REASON =
    ''approval required by policy, but AskForApproval::Granular.sandbox_approval is false''"

definition REJECT_RULES_APPROVAL_REASON :: string where
  "REJECT_RULES_APPROVAL_REASON =
    ''approval required by policy rule, but AskForApproval::Granular.rules is false''"

definition BANNED_PREFIX_SUGGESTIONS :: "string list list" where
  "BANNED_PREFIX_SUGGESTIONS =
    [[''python3''], [''python3'', ''-''], [''python3'', ''-c''], [''python''], [''python'', ''-''], [''python'', ''-c''],
     [''py''], [''py'', ''-3''], [''pythonw''], [''pyw''], [''pypy''], [''pypy3''], [''git''], [''bash''],
     [''bash'', ''-lc''], [''sh''], [''sh'', ''-c''], [''sh'', ''-lc''], [''zsh''], [''zsh'', ''-lc''],
     [''/bin/zsh''], [''/bin/zsh'', ''-lc''], [''/bin/bash''], [''/bin/bash'', ''-lc''], [''pwsh''],
     [''pwsh'', ''-Command''], [''pwsh'', ''-c''], [''powershell''], [''powershell'', ''-Command''],
     [''powershell'', ''-c''], [''powershell.exe''], [''powershell.exe'', ''-Command''],
     [''powershell.exe'', ''-c''], [''env''], [''sudo''], [''node''], [''node'', ''-e''], [''perl''],
     [''perl'', ''-e''], [''ruby''], [''ruby'', ''-e''], [''php''], [''php'', ''-r''], [''lua''], [''lua'', ''-e''],
     [''osascript'']]"

fun is_policy_match :: "RuleMatch \<Rightarrow> bool" where
  "is_policy_match (PrefixRuleMatch _ _ _ _) = True"
| "is_policy_match (HeuristicsRuleMatch _ _) = False"

definition prompt_is_rejected_by_policy :: "AskForApproval \<Rightarrow> bool \<Rightarrow> string option" where
  "prompt_is_rejected_by_policy approval_policy prompt_is_rule =
    (case approval_policy of
       Never \<Rightarrow> Some PROMPT_CONFLICT_REASON
     | OnFailure \<Rightarrow> None
     | OnRequest \<Rightarrow> None
     | UnlessTrusted \<Rightarrow> None
     | Granular granular_config \<Rightarrow>
         if prompt_is_rule
         then (if \<not> rules_approval granular_config then Some REJECT_RULES_APPROVAL_REASON else None)
         else if \<not> sandbox_approval granular_config then Some REJECT_SANDBOX_APPROVAL_REASON
         else None)"

definition commands_for_exec_policy :: "approval_env \<Rightarrow> string list \<Rightarrow> ExecPolicyCommands" where
  "commands_for_exec_policy env command =
    (case parse_shell_lc_plain_commands (try_parse_shell (ae_safety env)) command of
       Some (c # cs) \<Rightarrow> \<lparr>ec_commands = c # cs, ec_used_complex_parsing = False\<rparr>
     | _ \<Rightarrow>
         (case parse_shell_lc_single_command_prefix (try_parse_shell (ae_safety env)) command of
            Some single_command \<Rightarrow> \<lparr>ec_commands = [single_command], ec_used_complex_parsing = True\<rparr>
          | None \<Rightarrow> \<lparr>ec_commands = [command], ec_used_complex_parsing = False\<rparr>))"

text \<open>A command no rule matches.\<close>

definition render_decision_for_unmatched_command ::
  "approval_env \<Rightarrow> UnmatchedCommandContext \<Rightarrow> string list \<Rightarrow> Decision" where
  "render_decision_for_unmatched_command env ctx command =
    (if is_known_safe_command (ae_safety env) command \<and> \<not> uc_used_complex_parsing ctx then Allow
     else if command_might_be_dangerous (ae_safety env) command
     then (case uc_approval_policy ctx of
             Never \<Rightarrow>
               (case uc_permission_profile ctx of
                  Disabled \<Rightarrow> Allow
                | External _ \<Rightarrow> Allow
                | Managed _ _ \<Rightarrow> Forbidden)
           | _ \<Rightarrow> Prompt)
     else
       (case uc_approval_policy ctx of
          Never \<Rightarrow> Allow
        | OnFailure \<Rightarrow> Allow
        | UnlessTrusted \<Rightarrow> Prompt
        | _ \<Rightarrow>
            (case fs_kind (uc_file_system_sandbox_policy ctx) of
               Unrestricted \<Rightarrow> Allow
             | ExternalSandbox \<Rightarrow> Allow
             | Restricted \<Rightarrow> if requests_sandbox_override (uc_sandbox_permissions ctx) then Prompt else Allow)))"

definition prompting_rule :: "RuleMatch \<Rightarrow> bool" where
  "prompting_rule m \<longleftrightarrow> is_policy_match m \<and> match_decision m = Prompt"

definition allowing_rule :: "RuleMatch \<Rightarrow> bool" where
  "allowing_rule m \<longleftrightarrow> is_policy_match m \<and> match_decision m = Allow"

definition heuristic_command :: "Decision \<Rightarrow> RuleMatch \<Rightarrow> string list option" where
  "heuristic_command d m =
    (case m of HeuristicsRuleMatch command d' \<Rightarrow> if d' = d then Some command else None | _ \<Rightarrow> None)"

definition try_derive_execpolicy_amendment_for_prompt_rules :: "RuleMatch list \<Rightarrow> string list option" where
  "try_derive_execpolicy_amendment_for_prompt_rules matched =
    (if list_ex prompting_rule matched then None else find_map (heuristic_command Prompt) matched)"

definition try_derive_execpolicy_amendment_for_allow_rules :: "RuleMatch list \<Rightarrow> string list option" where
  "try_derive_execpolicy_amendment_for_allow_rules matched =
    (if list_ex is_policy_match matched then None else find_map (heuristic_command Allow) matched)"

definition prefix_rule_would_approve_all_commands ::
  "host_env \<Rightarrow> Policy \<Rightarrow> string list \<Rightarrow> string list list \<Rightarrow> (string list \<Rightarrow> Decision) \<Rightarrow> bool" where
  "prefix_rule_would_approve_all_commands host exec_policy prefix_rule commands fallback =
    (case add_prefix_rule exec_policy prefix_rule Allow of
       Err _ \<Rightarrow> False
     | Ok policy_with_prefix_rule \<Rightarrow>
         list_all (\<lambda>command.
           case check_with_options host policy_with_prefix_rule command fallback True of
             Some ev \<Rightarrow> decision ev = Allow
           | None \<Rightarrow> False) commands)"

definition derive_requested_execpolicy_amendment_from_prefix_rule ::
  "host_env \<Rightarrow> string list option \<Rightarrow> RuleMatch list \<Rightarrow> Policy \<Rightarrow> string list list \<Rightarrow> (string list \<Rightarrow> Decision) \<Rightarrow>
   string list option" where
  "derive_requested_execpolicy_amendment_from_prefix_rule host prefix_rule matched exec_policy commands fallback =
    (case prefix_rule of
       None \<Rightarrow> None
     | Some prefix_rule \<Rightarrow>
         if prefix_rule = [] then None
         else if list_ex (\<lambda>banned. prefix_rule = banned) BANNED_PREFIX_SUGGESTIONS then None
         else if list_ex is_policy_match matched then None
         else if prefix_rule_would_approve_all_commands host exec_policy prefix_rule commands fallback
         then Some prefix_rule
         else None)"

definition render_shlex_command :: "approval_env \<Rightarrow> string list \<Rightarrow> string" where
  "render_shlex_command env args = (case shlex_try_join env args of Some s \<Rightarrow> s | None \<Rightarrow> join_with '' '' args)"

text \<open>The matches of rules with a decision: the matched prefix and the justification.\<close>

definition rule_reason :: "Decision \<Rightarrow> RuleMatch \<Rightarrow> (string list \<times> string option) option" where
  "rule_reason d m =
    (case m of
       PrefixRuleMatch mp d' _ justification \<Rightarrow> if d' = d then Some (mp, justification) else None
     | _ \<Rightarrow> None)"

definition derive_prompt_reason :: "approval_env \<Rightarrow> string list \<Rightarrow> Evaluation \<Rightarrow> string option" where
  "derive_prompt_reason env command_args ev =
    (let command = render_shlex_command env command_args in
     case max_by_key (\<lambda>(mp, _). length mp) (List.map_filter (rule_reason Prompt) (matched_rules ev)) of
       Some (_, Some justification) \<Rightarrow> Some (''`'' @ command @ ''` requires approval: '' @ justification)
     | Some (_, None) \<Rightarrow> Some (''`'' @ command @ ''` requires approval by policy'')
     | None \<Rightarrow> None)"

definition derive_forbidden_reason :: "approval_env \<Rightarrow> string list \<Rightarrow> Evaluation \<Rightarrow> string" where
  "derive_forbidden_reason env command_args ev =
    (let command = render_shlex_command env command_args in
     case max_by_key (\<lambda>(mp, _). length mp) (List.map_filter (rule_reason Forbidden) (matched_rules ev)) of
       Some (_, Some justification) \<Rightarrow> ''`'' @ command @ ''` rejected: '' @ justification
     | Some (mp, None) \<Rightarrow>
         ''`'' @ command @ ''` rejected: policy forbids commands starting with `'' @ render_shlex_command env mp @ ''`''
     | None \<Rightarrow> ''`'' @ command @ ''` rejected: blocked by policy'')"

section \<open>The requirement\<close>

definition exec_policy_fallback :: "approval_env \<Rightarrow> ExecApprovalRequest \<Rightarrow> string list \<Rightarrow> Decision" where
  "exec_policy_fallback env req =
    render_decision_for_unmatched_command env
      \<lparr>uc_approval_policy = req_approval_policy req,
       uc_permission_profile = req_permission_profile req,
       uc_file_system_sandbox_policy = req_file_system_sandbox_policy req,
       uc_sandbox_permissions = req_sandbox_permissions req,
       uc_used_complex_parsing = ec_used_complex_parsing (commands_for_exec_policy env (req_command req))\<rparr>"

definition create_exec_approval_requirement_for_command ::
  "approval_env \<Rightarrow> Policy \<Rightarrow> ExecApprovalRequest \<Rightarrow> ExecApprovalRequirement option" where
  "create_exec_approval_requirement_for_command env exec_policy req =
    (let parsed = commands_for_exec_policy env (req_command req);
         commands = ec_commands parsed;
         auto_amendment_allowed = (\<not> ec_used_complex_parsing parsed);
         fallback = exec_policy_fallback env req in
     case check_multiple_with_options (ae_host env) exec_policy commands fallback True of
       None \<Rightarrow> None
     | Some ev \<Rightarrow>
         (let requested_amendment =
                (if auto_amendment_allowed
                 then derive_requested_execpolicy_amendment_from_prefix_rule (ae_host env) (req_prefix_rule req)
                   (matched_rules ev) exec_policy commands fallback
                 else None) in
          Some (case decision ev of
             Forbidden \<Rightarrow> ForbiddenExec (derive_forbidden_reason env (req_command req) ev)
           | Prompt \<Rightarrow>
               (let prompt_is_rule = list_ex prompting_rule (matched_rules ev) in
                case prompt_is_rejected_by_policy (req_approval_policy req) prompt_is_rule of
                  Some reason \<Rightarrow> ForbiddenExec reason
                | None \<Rightarrow>
                    NeedsApproval (derive_prompt_reason env (req_command req) ev)
                      (case requested_amendment of
                         Some amendment \<Rightarrow> Some amendment
                       | None \<Rightarrow>
                           if auto_amendment_allowed
                           then try_derive_execpolicy_amendment_for_prompt_rules (matched_rules ev)
                           else None))
           | Allow \<Rightarrow>
               Skip
                 (list_all (\<lambda>command.
                    list_ex allowing_rule
                      (matches_for_command_with_options (ae_host env) exec_policy command None True)) commands)
                 (if auto_amendment_allowed
                  then try_derive_execpolicy_amendment_for_allow_rules (matched_rules ev)
                  else None))))"

definition default_exec_approval_requirement ::
  "AskForApproval \<Rightarrow> FileSystemSandboxPolicy \<Rightarrow> ExecApprovalRequirement" where
  "default_exec_approval_requirement policy fs =
    (let needs_approval =
           (case policy of
              Never \<Rightarrow> False
            | OnFailure \<Rightarrow> False
            | OnRequest \<Rightarrow> fs_kind fs = Restricted
            | Granular _ \<Rightarrow> fs_kind fs = Restricted
            | UnlessTrusted \<Rightarrow> True) in
     if needs_approval \<and> (case policy of Granular granular_config \<Rightarrow> \<not> sandbox_approval granular_config | _ \<Rightarrow> False)
     then ForbiddenExec ''approval policy disallowed sandbox approval prompt''
     else if needs_approval then NeedsApproval None None
     else Skip False None)"

datatype SandboxOverride = NoOverride | BypassSandboxFirstAttempt

definition sandbox_override_for_first_attempt ::
  "SandboxPermissions \<Rightarrow> ExecApprovalRequirement \<Rightarrow> SandboxOverride" where
  "sandbox_override_for_first_attempt permissions requirement =
    (if requires_escalated_permissions permissions \<or>
        (case requirement of Skip bypass_sandbox _ \<Rightarrow> bypass_sandbox | _ \<Rightarrow> False)
     then BypassSandboxFirstAttempt else NoOverride)"

section \<open>Updates\<close>

text \<open>The policy in memory and the files on disk, by path.\<close>

record policy_state =
  ps_policy :: Policy
  ps_files :: "string \<Rightarrow> string option"

datatype ExecPolicyUpdateError =
    AppendRule string AmendError
  | AddRule policy_error

definition default_policy_path :: "string \<Rightarrow> string" where
  "default_policy_path codex_home = path_join (path_join codex_home ''rules'') ''default.rules''"

definition already_allowed :: "host_env \<Rightarrow> Policy \<Rightarrow> string list \<Rightarrow> bool option" where
  "already_allowed host p amendment =
    map_option (\<lambda>ev. decision ev = Allow \<and> list_ex allowing_rule (matched_rules ev))
      (check_multiple_with_options host p [amendment] (\<lambda>_. Forbidden) True)"

definition append_amendment_and_update ::
  "approval_env \<Rightarrow> append_fault option \<Rightarrow> string \<Rightarrow> string list \<Rightarrow> policy_state \<Rightarrow>
   (policy_state \<times> (ExecPolicyUpdateError, unit) result) option" where
  "append_amendment_and_update env fault codex_home amendment st =
    (let policy_path = default_policy_path codex_home in
     case blocking_append_allow_prefix_rule (json_to_string env) fault policy_path amendment (ps_files st policy_path) of
       (contents, r) \<Rightarrow>
         (let st1 = st\<lparr>ps_files := (ps_files st)(policy_path := contents)\<rparr> in
          case r of
            Err e \<Rightarrow> Some (st1, Err (AppendRule policy_path e))
          | Ok _ \<Rightarrow>
              (case already_allowed (ae_host env) (ps_policy st1) amendment of
                 None \<Rightarrow> None
               | Some True \<Rightarrow> Some (st1, Ok ())
               | Some False \<Rightarrow>
                   (case add_prefix_rule (ps_policy st1) amendment Allow of
                      Err e \<Rightarrow> Some (st1, Err (AddRule e))
                    | Ok updated_policy \<Rightarrow> Some (st1\<lparr>ps_policy := updated_policy\<rparr>, Ok ())))))"

definition append_network_rule_and_update ::
  "approval_env \<Rightarrow> append_fault option \<Rightarrow> string \<Rightarrow> string \<Rightarrow> NetworkRuleProtocol \<Rightarrow> Decision \<Rightarrow> string option \<Rightarrow>
   policy_state \<Rightarrow> policy_state \<times> (ExecPolicyUpdateError, unit) result" where
  "append_network_rule_and_update env fault codex_home host protocol d justification st =
    (let policy_path = default_policy_path codex_home in
     case blocking_append_network_rule (json_to_string env) fault policy_path host protocol d justification
            (ps_files st policy_path) of
       (contents, r) \<Rightarrow>
         (let st1 = st\<lparr>ps_files := (ps_files st)(policy_path := contents)\<rparr> in
          case r of
            Err e \<Rightarrow> (st1, Err (AppendRule policy_path e))
          | Ok _ \<Rightarrow>
              (case add_network_rule (ps_policy st1) host protocol d justification of
                 Err e \<Rightarrow> (st1, Err (AddRule e))
               | Ok updated_policy \<Rightarrow> (st1\<lparr>ps_policy := updated_policy\<rparr>, Ok ()))))"

section \<open>Cached approvals\<close>

datatype NetworkPolicyRuleAction = AllowHost | DenyHost

datatype ReviewDecision =
    Approved
  | ApprovedExecpolicyAmendment "string list"
  | ApprovedForSession
  | ApprovedNetworkPolicyAmendment string NetworkPolicyRuleAction
  | Denied
  | TimedOut
  | Abort

text \<open>The store maps serialised keys to decisions; \<open>serde_json::to_string\<close> of a key may fail.\<close>

definition store_get :: "('k \<Rightarrow> string option) \<Rightarrow> (string \<Rightarrow> ReviewDecision option) \<Rightarrow> 'k \<Rightarrow> ReviewDecision option" where
  "store_get to_string store key = (case to_string key of None \<Rightarrow> None | Some s \<Rightarrow> store s)"

definition store_put ::
  "('k \<Rightarrow> string option) \<Rightarrow> (string \<Rightarrow> ReviewDecision option) \<Rightarrow> 'k \<Rightarrow> ReviewDecision \<Rightarrow> string \<Rightarrow> ReviewDecision option" where
  "store_put to_string store key v = (case to_string key of None \<Rightarrow> store | Some s \<Rightarrow> store(s \<mapsto> v))"

text \<open>\<open>fetch\<close> is the answer a prompt would get; the third component says whether one was shown.\<close>

definition with_cached_approval ::
  "('k \<Rightarrow> string option) \<Rightarrow> 'k list \<Rightarrow> ReviewDecision \<Rightarrow> (string \<Rightarrow> ReviewDecision option) \<Rightarrow>
   (string \<Rightarrow> ReviewDecision option) \<times> ReviewDecision \<times> bool" where
  "with_cached_approval to_string keys fetch store =
    (if keys = [] then (store, fetch, True)
     else if list_all (\<lambda>key. store_get to_string store key = Some ApprovedForSession) keys
     then (store, ApprovedForSession, False)
     else (if fetch = ApprovedForSession
           then foldl (\<lambda>store key. store_put to_string store key ApprovedForSession) store keys
           else store, fetch, True))"

section \<open>Matches under an added allow rule\<close>

definition exact_matches :: "Policy \<Rightarrow> string list \<Rightarrow> RuleMatch list" where
  "exact_matches p cmd = (case match_exact_rules p cmd of Some ms \<Rightarrow> ms | None \<Rightarrow> [])"

text \<open>The program and base name under which a command's host-executable rules are filed.\<close>

definition host_key :: "host_env \<Rightarrow> Policy \<Rightarrow> string \<Rightarrow> (string \<times> string) option" where
  "host_key env p first =
    (case from_absolute_path (env_home env) (env_cwd env) first of
       None \<Rightarrow> None
     | Some program \<Rightarrow>
         (case path_file_name program of
            None \<Rightarrow> None
          | Some basename \<Rightarrow>
              if (case map_of (host_executables p) basename of Some paths \<Rightarrow> program \<notin> set paths | None \<Rightarrow> False)
              then None else Some (program, basename)))"

lemma host_matches:
  "match_host_executable_rules env p (first # args) =
    (case host_key env p first of
       None \<Rightarrow> []
     | Some (program, basename) \<Rightarrow>
         map (with_resolved_program program)
           (List.map_filter (\<lambda>r. rule_matches r (basename # args)) (mm_get (rules_by_program p) basename)))"
  by (auto simp: match_host_executable_rules_def host_key_def mm_get_def executable_path_lookup_key_def
      executable_lookup_key_def list_ex_iff List.map_filter_def split: option.splits)

lemma matches_cases:
  "matches_for_command_with_options env p cmd fallback True =
    (if exact_matches p cmd \<noteq> [] then exact_matches p cmd
     else if match_host_executable_rules env p cmd \<noteq> [] then match_host_executable_rules env p cmd
     else (case fallback of Some f \<Rightarrow> [HeuristicsRuleMatch cmd (f cmd)] | None \<Rightarrow> []))"
  by (auto simp: matches_for_command_with_options_def exact_matches_def Let_def split: option.splits list.splits)

lemma exact_policy_match: "m \<in> set (exact_matches p cmd) \<Longrightarrow> is_policy_match m"
  by (auto simp: exact_matches_def match_exact_rules_def set_map_filter rule_matches_def split: list.splits option.splits)

lemma host_policy_match: "m \<in> set (match_host_executable_rules env p cmd) \<Longrightarrow> is_policy_match m"
  by (cases cmd) (auto simp: host_matches set_map_filter rule_matches_def match_host_executable_rules_def [of _ _ "[]"] split: option.splits)

definition allow_rule :: "string list \<Rightarrow> PrefixRule" where
  "allow_rule ts = \<lparr>rule_pattern = \<lparr>pat_first = hd ts, pat_rest = map Single (tl ts)\<rparr>, rule_decision = Allow, rule_justification = None\<rparr>"

lemma add_allow_rule:
  "ts \<noteq> [] \<Longrightarrow> add_prefix_rule p ts Allow = Ok (p\<lparr>rules_by_program := mm_insert (hd ts) (allow_rule ts) (rules_by_program p)\<rparr>)"
  by (cases ts) (simp_all add: add_prefix_rule_def allow_rule_def)

lemma allow_rule_matches:
  assumes "ts \<noteq> []"
  shows "rule_matches (allow_rule ts) cmd = (if prefix ts cmd then Some (PrefixRuleMatch ts Allow None None) else None)"
proof -
  have all2: "list_all2 token_matches (map Single us) vs \<longleftrightarrow> us = vs" for us vs
    by (simp add: list_all2_map1 list_all2_eq [symmetric] list.rel_eq)
  obtain t us where ts: "ts = t # us" using assms by (cases ts) auto
  show ?thesis
  proof (cases cmd)
    case Nil
    with ts show ?thesis by (simp add: rule_matches_def matches_prefix_def allow_rule_def)
  next
    case (Cons c cs)
    have "us = take (length us) cs \<longleftrightarrow> prefix us cs" by (metis prefix_def append_take_drop_id append_eq_conv_conj)
    moreover have "prefix us cs \<Longrightarrow> length us \<le> length cs" by (rule prefix_length_le)
    ultimately show ?thesis
      using Cons ts all2 by (auto simp: rule_matches_def matches_prefix_def allow_rule_def)
  qed
qed

text \<open>The new rule's own matches.\<close>

definition with_allow :: "Policy \<Rightarrow> string list \<Rightarrow> Policy" where
  "with_allow p ts = p\<lparr>rules_by_program := mm_insert (hd ts) (allow_rule ts) (rules_by_program p)\<rparr>"

definition host_allow :: "host_env \<Rightarrow> Policy \<Rightarrow> string list \<Rightarrow> string list \<Rightarrow> RuleMatch list" where
  "host_allow env p ts cmd =
    (case host_key env p (hd cmd) of
       None \<Rightarrow> []
     | Some (program, basename) \<Rightarrow>
         if cmd \<noteq> [] \<and> prefix ts (basename # tl cmd) then [PrefixRuleMatch ts Allow (Some program) None] else [])"

lemma rules_with_allow:
  "mm_get (rules_by_program (with_allow p ts)) b = mm_get (rules_by_program p) b @ (if b = hd ts then [allow_rule ts] else [])"
  by (simp add: with_allow_def mm_get_insert)

lemma exact_with_allow:
  assumes "ts \<noteq> []"
  shows "exact_matches (with_allow p ts) cmd = exact_matches p cmd @ (if prefix ts cmd then [PrefixRuleMatch ts Allow None None] else [])"
proof (cases cmd)
  case Nil
  with assms show ?thesis by (simp add: exact_matches_def match_exact_rules_def)
next
  case (Cons c cs)
  have "hd ts \<noteq> c \<Longrightarrow> \<not> prefix ts (c # cs)" using assms by (cases ts) auto
  with Cons show ?thesis
    by (auto simp: exact_matches_def match_exact_rules_get rules_with_allow allow_rule_matches [OF assms] map_filter_Cons
        List.map_filter_def [of _ "[]"])
qed

lemma host_with_allow:
  assumes "ts \<noteq> []"
  shows "match_host_executable_rules env (with_allow p ts) cmd = match_host_executable_rules env p cmd @ host_allow env p ts cmd"
proof (cases cmd)
  case Nil
  then show ?thesis by (simp add: match_host_executable_rules_def host_allow_def split: option.splits)
next
  case (Cons c cs)
  have key: "host_key env (with_allow p ts) c = host_key env p c" by (simp add: host_key_def with_allow_def split: option.split)
  have "hd ts \<noteq> b \<Longrightarrow> \<not> prefix ts (b # cs)" for b using assms by (cases ts) auto
  with Cons show ?thesis
    by (auto simp: host_matches key host_allow_def rules_with_allow allow_rule_matches [OF assms] map_filter_Cons
        List.map_filter_def [of _ "[]"] split: option.splits)
qed

abbreviation decide :: "host_env \<Rightarrow> Policy \<Rightarrow> (string list \<Rightarrow> Decision) \<Rightarrow> string list \<Rightarrow> Decision" where
  "decide env p f cmd \<equiv> Max (match_decision ` set (matches_for_command_with_options env p cmd (Some f) True))"

lemma Max_allow:
  "ms \<noteq> [] \<Longrightarrow> \<forall>m\<in>set ns. match_decision m = Allow \<Longrightarrow> Max (match_decision ` set (ms @ ns)) = Max (match_decision ` set ms)"
proof -
  assume *: "ms \<noteq> []" "\<forall>m\<in>set ns. match_decision m = Allow"
  show ?thesis
  proof (cases "ns = []")
    case False
    have "Max (match_decision ` set (ms @ ns)) = max (Max (match_decision ` set ms)) (Max (match_decision ` set ns))"
      using * False by (simp add: image_Un Max_Un)
    moreover have "Max (match_decision ` set ns) = Allow"
      using * False Max_in [of "match_decision ` set ns"] by auto
    ultimately show ?thesis by (simp add: max_def)
  qed simp
qed

lemma Max_all_allow: "ns \<noteq> [] \<Longrightarrow> \<forall>m\<in>set ns. match_decision m = Allow \<Longrightarrow> Max (match_decision ` set ns) = Allow"
  using Max_in [of "match_decision ` set ns"] by auto

lemma host_allow_Allow: "m \<in> set (host_allow env p ts cmd) \<Longrightarrow> match_decision m = Allow"
  by (auto simp: host_allow_def split: option.splits if_splits)

text \<open>An added allow rule makes no verdict stricter, and a command it is the first to match is allowed.\<close>

lemma decide_with_allow:
  assumes "ts \<noteq> []"
  shows "decide env (with_allow p ts) f cmd = decide env p f cmd \<or> decide env (with_allow p ts) f cmd = Allow"
proof (cases "exact_matches p cmd = []")
  case False
  then show ?thesis
    using Max_allow [OF False, of "if prefix ts cmd then [PrefixRuleMatch ts Allow None None] else []"]
    by (simp add: matches_cases exact_with_allow [OF assms])
next
  case exact: True
  show ?thesis
  proof (cases "match_host_executable_rules env p cmd = []")
    case False
    then show ?thesis
      using Max_allow [OF False, of "host_allow env p ts cmd"] host_allow_Allow exact
      by (auto simp: matches_cases exact_with_allow [OF assms] host_with_allow [OF assms])
  next
    case True
    then show ?thesis
      using exact Max_all_allow [of "host_allow env p ts cmd"] host_allow_Allow
      by (auto simp: matches_cases exact_with_allow [OF assms] host_with_allow [OF assms])
  qed
qed

lemma decide_with_allow_le: "ts \<noteq> [] \<Longrightarrow> decide env (with_allow p ts) f cmd \<le> decide env p f cmd"
  using decide_with_allow [of ts env p cmd f] by auto

lemma decide_own_prefix:
  assumes "ts \<noteq> []" "exact_matches p ts = []"
  shows "decide env (with_allow p ts) f ts = Allow"
  using assms by (simp add: matches_cases exact_with_allow)

text \<open>A command without rule matches that the added rule changes: the rule matches it directly or
  through its base name.\<close>

lemma decide_changed:
  assumes "ts \<noteq> []" "exact_matches p cmd = []" "match_host_executable_rules env p cmd = []"
    "decide env (with_allow p ts) f cmd \<noteq> decide env p f cmd"
  shows "prefix ts cmd \<or>
    (\<exists>program basename. cmd \<noteq> [] \<and> host_key env p (hd cmd) = Some (program, basename) \<and> prefix ts (basename # tl cmd))"
proof (rule ccontr)
  assume "\<not> ?thesis"
  then have "host_allow env p ts cmd = []" "\<not> prefix ts cmd" by (auto simp: host_allow_def split: option.splits)
  then have "matches_for_command_with_options env (with_allow p ts) cmd (Some f) True = matches_for_command_with_options env p cmd (Some f) True"
    using assms by (simp add: matches_cases exact_with_allow host_with_allow)
  with assms(4) show False by simp
qed

section \<open>Rules that match an amendment\<close>

lemma name_in_directory:
  assumes "name_ok n" "n \<noteq> ''~''" "\<And>cwd. env_cwd env = Some cwd \<Longrightarrow> is_absolute cwd"
    and "from_absolute_path (env_home env) (env_cwd env) n = Some q"
  shows "path_file_name q = Some n"
proof -
  have slash: "slash \<notin> set n" using assms(1) by (simp add: name_ok_def)
  then have rel: "\<not> is_absolute n" by (cases n) (auto simp: is_absolute_def starts_with_def)
  have pieces: "pieces n = [Normal n]" using assms(1) slash by (simp add: pieces_def name_ok_def)
  have comps: "path_components n = [Normal n]"
    using rel slash assms(1) pieces by (simp add: path_components_pieces name_ok_def)
  then have "maybe_expand_home_directory (env_home env) n = n" using assms(2) by (intro expand_home_other) auto
  with assms(4) rel obtain cwd where cwd: "env_cwd env = Some cwd" "q = normalize_path (path_join cwd n)"
    by (auto simp: from_absolute_path_def absolutize_def absolutize_from_def path_with_base_def)
  have abs: "is_absolute (path_join cwd n)" using assms(3) cwd(1) by (intro path_join_absolute) auto
  have "foldl normalize_step [] (path_components (path_join cwd n)) =
      foldl normalize_step [RootDir] (pieces cwd) @ [Normal n]" (is "?l = ?r")
    using abs by (simp add: path_components_pieces pieces_join [OF rel] pieces pathbuf_push_def)
  then have q: "q = path_str ?r" using cwd(2) by (simp add: normalize_path_def)
  have "normal_abs (foldl normalize_step [RootDir] (path_components (path_join cwd n)))"
    using components_shape by (intro foldl_normalize_abs) (auto simp: normal_abs_def)
  moreover have "foldl normalize_step [RootDir] (path_components (path_join cwd n)) = ?r"
    using abs by (simp add: path_components_pieces pieces_join [OF rel] pieces pathbuf_push_def)
  ultimately have "path_components q = ?r" unfolding q by (metis components_path_str)
  then show ?thesis by (simp add: path_file_name_def)
qed

lemma file_name_ok: "path_file_name q = Some n \<Longrightarrow> name_ok n"
  using components_shape [of "Normal n" q]
  by (auto simp: path_file_name_def last_opt_Some_iff split: option.splits Component.splits)

lemma host_key_file_name: "host_key env p first = Some (program, basename) \<Longrightarrow> path_file_name program = Some basename"
  by (auto simp: host_key_def split: option.splits if_splits)

lemma filter_matches_extend:
  assumes "List.map_filter (\<lambda>r. rule_matches r cmd) rs \<noteq> []"
  shows "List.map_filter (\<lambda>r. rule_matches r (cmd @ args)) rs \<noteq> []"
proof -
  obtain m where "m \<in> set (List.map_filter (\<lambda>r. rule_matches r cmd) rs)" using assms list.set_sel(1) by blast
  then have "m \<in> set (List.map_filter (\<lambda>r. rule_matches r (cmd @ args)) rs)"
    using prefix_rule.matches_extend unfolding set_map_filter by blast
  then show ?thesis by force
qed

lemma exact_matches_get:
  "exact_matches p cmd = (if cmd = [] then [] else List.map_filter (\<lambda>r. rule_matches r cmd) (mm_get (rules_by_program p) (hd cmd)))"
  by (simp add: exact_matches_def match_exact_rules_get) (simp add: match_exact_rules_def)

text \<open>If rules match a prefix that the new allow rule would bring to bear on a command, they match the command.\<close>

lemma matches_transfer:
  assumes ne: "ts \<noteq> []" "hd ts \<noteq> ''~''" and cwd: "\<And>cwd. env_cwd env = Some cwd \<Longrightarrow> is_absolute cwd"
    and some: "exact_matches p ts \<noteq> [] \<or> match_host_executable_rules env p ts \<noteq> []"
    and new: "prefix ts cmd \<or>
      (\<exists>program basename. cmd \<noteq> [] \<and> host_key env p (hd cmd) = Some (program, basename) \<and> prefix ts (basename # tl cmd))"
  shows "exact_matches p cmd \<noteq> [] \<or> match_host_executable_rules env p cmd \<noteq> []"
  using new
proof (elim disjE exE conjE)
  assume "prefix ts cmd"
  then obtain args where cmd: "cmd = ts @ args" by (auto simp: prefix_def)
  obtain t us where ts: "ts = t # us" using ne by (cases ts) auto
  show ?thesis
    using some filter_matches_extend [of ts "mm_get (rules_by_program p) t" args] filter_matches_extend [of _ _ args]
    by (auto simp: cmd ts exact_matches_get host_matches split: option.splits) (metis append_Cons)+
next
  fix program basename
  assume c: "cmd \<noteq> []" and key: "host_key env p (hd cmd) = Some (program, basename)" and pre: "prefix ts (basename # tl cmd)"
  obtain us where ts: "ts = basename # us" "prefix us (tl cmd)" using pre ne by (cases ts) auto
  then obtain args where args: "tl cmd = us @ args" by (auto simp: prefix_def)
  have "exact_matches p ts \<noteq> []"
  proof (rule ccontr)
    assume none: "\<not> exact_matches p ts \<noteq> []"
    with some have "match_host_executable_rules env p ts \<noteq> []" by blast
    then obtain program' basename' where key': "host_key env p basename = Some (program', basename')"
      "List.map_filter (\<lambda>r. rule_matches r (basename' # us)) (mm_get (rules_by_program p) basename') \<noteq> []"
      by (auto simp: ts host_matches split: option.splits)
    have "name_ok basename" using file_name_ok [OF host_key_file_name [OF key]] .
    then have "basename' = basename"
      using name_in_directory [of basename env program'] ne(2) cwd host_key_file_name [OF key'(1)] key'(1) ts(1)
      by (auto simp: host_key_def split: option.splits if_splits)
    with key'(2) none show False by (simp add: ts exact_matches_get)
  qed
  then have "List.map_filter (\<lambda>r. rule_matches r (ts @ args)) (mm_get (rules_by_program p) basename) \<noteq> []"
    by (intro filter_matches_extend) (simp add: exact_matches_get ts)
  moreover obtain c0 where "cmd = c0 # us @ args" using c args by (cases cmd) auto
  ultimately show ?thesis using key by (simp add: host_matches ts)
qed

section \<open>The verdict on a request\<close>

abbreviation request_commands :: "approval_env \<Rightarrow> ExecApprovalRequest \<Rightarrow> string list list" where
  "request_commands env req \<equiv> ec_commands (commands_for_exec_policy env (req_command req))"

definition verdict :: "approval_env \<Rightarrow> Policy \<Rightarrow> ExecApprovalRequest \<Rightarrow> string list \<Rightarrow> Decision" where
  "verdict env p req cmd = decide (ae_host env) p (exec_policy_fallback env req) cmd"

definition request_matches :: "approval_env \<Rightarrow> Policy \<Rightarrow> ExecApprovalRequest \<Rightarrow> RuleMatch list" where
  "request_matches env p req =
    concat (map (\<lambda>cmd. matches_for_command_with_options (ae_host env) p cmd (Some (exec_policy_fallback env req)) True)
      (request_commands env req))"

lemma request_commands_ne: "request_commands env req \<noteq> []"
  by (auto simp: commands_for_exec_policy_def split: option.splits list.splits)

lemma request_evaluation:
  "check_multiple_with_options (ae_host env) p (request_commands env req) (exec_policy_fallback env req) True =
    Some \<lparr>decision = Max (verdict env p req ` set (request_commands env req)), matched_rules = request_matches env p req\<rparr>"
  by (simp add: check_multiple_strictest request_commands_ne check_Some verdict_def request_matches_def)

lemma verdict_le: "cmd \<in> set (request_commands env req) \<Longrightarrow> verdict env p req cmd \<le> Max (verdict env p req ` set (request_commands env req))"
  by simp

lemma verdict_max:
  "\<exists>cmd\<in>set (request_commands env req). Max (verdict env p req ` set (request_commands env req)) = verdict env p req cmd"
proof -
  have "Max (verdict env p req ` set (request_commands env req)) \<in> verdict env p req ` set (request_commands env req)"
    using request_commands_ne by (intro Max_in) auto
  then show ?thesis by auto
qed

lemma all_allow_skip:
  assumes "\<forall>cmd\<in>set (request_commands env req). verdict env p req cmd = Allow"
  shows "\<exists>bypass amendment. create_exec_approval_requirement_for_command env p req = Some (Skip bypass amendment)"
proof -
  have "Max (verdict env p req ` set (request_commands env req)) = Allow" using verdict_max [of env req p] assms by auto
  then show ?thesis
    by (simp add: create_exec_approval_requirement_for_command_def request_evaluation Let_def)
qed

lemma skip_all_allow:
  assumes "create_exec_approval_requirement_for_command env p req = Some (Skip bypass amendment)" "cmd \<in> set (request_commands env req)"
  shows "verdict env p req cmd = Allow"
proof -
  have "Max (verdict env p req ` set (request_commands env req)) = Allow"
    using assms(1)
    by (auto simp: create_exec_approval_requirement_for_command_def request_evaluation Let_def
        split: Decision.splits option.splits)
  with verdict_le [OF assms(2), of p] show ?thesis by simp
qed

lemma forbidden_verdict:
  assumes "cmd \<in> set (request_commands env req)" "verdict env p req cmd = Forbidden"
  shows "\<exists>reason. create_exec_approval_requirement_for_command env p req = Some (ForbiddenExec reason)"
proof -
  have "Max (verdict env p req ` set (request_commands env req)) = Forbidden"
    using verdict_le [OF assms(1), of p] assms(2) by simp
  then show ?thesis
    by (simp add: create_exec_approval_requirement_for_command_def request_evaluation Let_def)
qed

lemma needs_approval_cases:
  assumes "create_exec_approval_requirement_for_command env p req = Some (NeedsApproval reason amendment)"
  shows "Max (verdict env p req ` set (request_commands env req)) = Prompt \<and>
    prompt_is_rejected_by_policy (req_approval_policy req) (list_ex prompting_rule (request_matches env p req)) = None \<and>
    (amendment = None \<or>
     amendment = derive_requested_execpolicy_amendment_from_prefix_rule (ae_host env) (req_prefix_rule req)
       (request_matches env p req) p (request_commands env req) (exec_policy_fallback env req) \<or>
     amendment = try_derive_execpolicy_amendment_for_prompt_rules (request_matches env p req))"
  using assms
  by (auto simp: create_exec_approval_requirement_for_command_def request_evaluation Let_def
      split: Decision.splits option.splits if_splits)

section \<open>Properties of the requirement\<close>

text \<open>C15: A forbidden rule is final: if one of the commands of a request matches a forbidding rule of the
  policy, the request is forbidden, whatever the approval policy, the sandbox, the other rules and
  the safe list say.\<close>

theorem forbidden_rule_final:
  assumes "wf_policy p" "r \<in> policy_rules p" "rule_decision r = Forbidden"
    and "cmd \<in> set (request_commands env req)" "rule_matches r cmd = Some m"
  shows "\<exists>reason. create_exec_approval_requirement_for_command env p req = Some (ForbiddenExec reason)"
proof (rule forbidden_verdict [OF assms(4)])
  obtain ms where ms: "match_exact_rules p cmd = Some ms" "m \<in> set ms"
    using exact_match_complete [OF assms(1,2,5)] by blast
  then have M: "matches_for_command_with_options (ae_host env) p cmd (Some (exec_policy_fallback env req)) True = ms"
    by (intro matches_with_exact) auto
  have "match_decision m = Forbidden" using assms(3,5) by (auto simp: rule_matches_def)
  then have "Forbidden \<le> Max (match_decision ` set ms)" using ms(2) by (metis List.finite_set Max_ge finite_imageI image_eqI)
  then show "verdict env p req cmd = Forbidden" by (simp add: verdict_def M)
qed

definition plain_approval_env :: approval_env where
  "plain_approval_env = \<lparr>ae_safety = ls_env, ae_host = \<lparr>env_home = None, env_cwd = Some ''/repo''\<rparr>,
    shlex_try_join = (\<lambda>args. Some (join_with '' '' args)),
    json_to_string = (\<lambda>s. Some ([CHR 0x22] @ filter (\<lambda>c. c \<noteq> LF) s @ [CHR 0x22]))\<rparr>"

definition plain_request :: "AskForApproval \<Rightarrow> string list \<Rightarrow> string list option \<Rightarrow> ExecApprovalRequest" where
  "plain_request approval command prefix_rule = \<lparr>req_command = command, req_approval_policy = approval,
    req_permission_profile = Managed ManagedUnrestricted NetRestricted, req_file_system_sandbox_policy = default_policy,
    req_sandbox_permissions = UseDefault, req_prefix_rule = prefix_rule\<rparr>"

theorem forbidden_rule_final_witness:
  "\<exists>reason. create_exec_approval_requirement_for_command plain_approval_env git_policy
    (plain_request OnFailure [''git'', ''push'', ''x''] None) = Some (ForbiddenExec reason)"
proof (rule forbidden_rule_final [OF wf_git_policy git_push_in_policy _ _ git_push_matches])
  show "rule_decision git_push_rule = Forbidden" by code_simp
  show "[''git'', ''push'', ''x''] \<in> set (request_commands plain_approval_env (plain_request OnFailure [''git'', ''push'', ''x''] None))"
    by code_simp
qed

text \<open>C25: The user is asked only as the approval policy permits: never under \<open>Never\<close>, and under granular
  settings only if the setting for prompts of policy rules, when a rule prompts, or else the one for
  sandbox approvals is on.\<close>

theorem prompts_respect_settings:
  assumes "create_exec_approval_requirement_for_command env p req = Some (NeedsApproval reason amendment)"
  shows "req_approval_policy req \<noteq> Never \<and>
    (\<forall>g. req_approval_policy req = Granular g \<longrightarrow>
      (if list_ex prompting_rule (request_matches env p req) then rules_approval g else sandbox_approval g))"
  using needs_approval_cases [OF assms]
  by (auto simp: prompt_is_rejected_by_policy_def split: AskForApproval.splits if_splits)

theorem prompts_respect_settings_witness:
  "\<exists>reason amendment. create_exec_approval_requirement_for_command plain_approval_env policy_empty
      (plain_request UnlessTrusted [''cargo'', ''build''] None) = Some (NeedsApproval reason amendment) \<and>
    req_approval_policy (plain_request UnlessTrusted [''cargo'', ''build''] None) \<noteq> Never"
proof -
  have "create_exec_approval_requirement_for_command plain_approval_env policy_empty
      (plain_request UnlessTrusted [''cargo'', ''build''] None) = Some (NeedsApproval None (Some [''cargo'', ''build'']))"
    by code_simp
  with prompts_respect_settings [OF this] show ?thesis by blast
qed

text \<open>C26: The sandbox is bypassed by policy only where every command of the request has matching rules and all
  of them allow it: the safe list alone never lifts the sandbox.\<close>

theorem bypass_only_by_rules:
  assumes "create_exec_approval_requirement_for_command env p req = Some (Skip True amendment)"
    and "cmd \<in> set (request_commands env req)"
  shows "\<exists>ms. matches_for_command_with_options (ae_host env) p cmd None True = ms \<and> ms \<noteq> [] \<and> list_all allowing_rule ms"
proof -
  let ?M = "matches_for_command_with_options (ae_host env) p cmd None True"
  have some: "list_ex allowing_rule ?M"
    using assms
    by (auto simp: create_exec_approval_requirement_for_command_def request_evaluation Let_def list_all_iff
        split: Decision.splits option.splits)
  then have ne: "?M \<noteq> []" by auto
  then have same: "matches_for_command_with_options (ae_host env) p cmd (Some (exec_policy_fallback env req)) True = ?M"
    by (auto simp: matches_cases split: if_splits)
  have "verdict env p req cmd = Allow" by (rule skip_all_allow [OF assms])
  then have "match_decision m = Allow" if "m \<in> set ?M" for m
    using that Max_ge [of "match_decision ` set ?M" "match_decision m"] by (simp add: verdict_def same)
  moreover have "is_policy_match m" if "m \<in> set ?M" for m
    using that exact_policy_match [of m p cmd] host_policy_match [of m "ae_host env" p cmd] by (auto simp: matches_cases split: if_splits)
  ultimately show ?thesis using ne by (auto simp: list_all_iff allowing_rule_def)
qed

definition cargo_policy :: Policy where
  "cargo_policy = with_allow policy_empty [''cargo'']"

theorem bypass_only_by_rules_witness:
  "\<exists>amendment. create_exec_approval_requirement_for_command plain_approval_env cargo_policy
      (plain_request UnlessTrusted [''cargo'', ''build''] None) = Some (Skip True amendment) \<and>
    (\<exists>ms. matches_for_command_with_options (ae_host plain_approval_env) cargo_policy [''cargo'', ''build''] None True = ms \<and>
      ms \<noteq> [] \<and> list_all allowing_rule ms)"
proof -
  have run: "create_exec_approval_requirement_for_command plain_approval_env cargo_policy
      (plain_request UnlessTrusted [''cargo'', ''build''] None) = Some (Skip True None)" by code_simp
  have "[''cargo'', ''build''] \<in> set (request_commands plain_approval_env (plain_request UnlessTrusted [''cargo'', ''build''] None))"
    by code_simp
  from bypass_only_by_rules [OF run this] run show ?thesis by blast
qed



end
