(* ===== verification/Exec_Amendments.thy ===== *)
theory Exec_Amendments
  imports Exec_Approval
begin

text \<open>
  Amendments to the execution policy over time (core/src/exec_policy.rs): accepting a proposal makes
  progress on its request, and in every run of updates the policy in memory is backed by the policy
  file.  The approval cache of a session (core/src/tools/sandboxing.rs) as a sequence of requests.
\<close>

section \<open>Accepted amendments\<close>

lemma already_allowed_Some:
  "already_allowed host p ts =
    Some (let ms = matches_for_command_with_options host p ts (Some (\<lambda>_. Forbidden)) True in
          Max (match_decision ` set ms) = Allow \<and> list_ex allowing_rule ms)"
  by (simp add: already_allowed_def check_multiple_with_options_def from_matches_Max matches_nonempty Let_def)

lemma already_allowed_matches:
  "already_allowed host p ts = Some True \<Longrightarrow> exact_matches p ts \<noteq> [] \<or> match_host_executable_rules host p ts \<noteq> []"
  by (auto simp: already_allowed_Some Let_def matches_cases split: if_splits)

text \<open>What an update does: the file, and on success either an allow rule already covers the prefix or it is added.\<close>

lemma append_amendment_cases:
  assumes "append_amendment_and_update env fault codex_home ts st = Some (st', r)"
  shows "\<exists>contents ar. blocking_append_allow_prefix_rule (json_to_string env) fault (default_policy_path codex_home) ts
      (ps_files st (default_policy_path codex_home)) = (contents, ar) \<and>
    ps_files st' = (ps_files st)(default_policy_path codex_home := contents) \<and>
    (case ar of
       Err e \<Rightarrow> r = Err (AppendRule (default_policy_path codex_home) e) \<and> ps_policy st' = ps_policy st
     | Ok _ \<Rightarrow> r = Ok () \<and> ts \<noteq> [] \<and>
         (if already_allowed (ae_host env) (ps_policy st) ts = Some True then ps_policy st' = ps_policy st
          else ps_policy st' = with_allow (ps_policy st) ts))"
proof -
  obtain contents ar where ar: "blocking_append_allow_prefix_rule (json_to_string env) fault (default_policy_path codex_home) ts
      (ps_files st (default_policy_path codex_home)) = (contents, ar)" by fastforce
  have ne: "ts \<noteq> []" if "ar = Ok ()" using ar that by (auto simp: blocking_append_allow_prefix_rule_def)
  from assms ar ne show ?thesis
    by (cases ar) (auto simp: append_amendment_and_update_def already_allowed_Some Let_def add_allow_rule with_allow_def
        split: if_splits bool.splits)
qed

lemma append_amendment_Ok:
  assumes "append_amendment_and_update env fault codex_home ts st = Some (st', Ok ())"
  shows "ts \<noteq> [] \<and>
    (already_allowed (ae_host env) (ps_policy st) ts = Some True \<and> ps_policy st' = ps_policy st \<or>
     ps_policy st' = with_allow (ps_policy st) ts)"
proof -
  from append_amendment_cases [OF assms] show ?thesis
  proof (elim exE conjE)
    fix contents :: "string option" and ar :: "(AmendError, unit) result"
    assume "case ar of
       Err e \<Rightarrow> Ok () = Err (AppendRule (default_policy_path codex_home) e) \<and> ps_policy st' = ps_policy st
     | Ok _ \<Rightarrow> Ok () = Ok () \<and> ts \<noteq> [] \<and>
         (if already_allowed (ae_host env) (ps_policy st) ts = Some True then ps_policy st' = ps_policy st
          else ps_policy st' = with_allow (ps_policy st) ts)"
    then show ?thesis by (cases ar) (simp_all split: if_splits)
  qed
qed

definition open_commands :: "approval_env \<Rightarrow> Policy \<Rightarrow> ExecApprovalRequest \<Rightarrow> string list list" where
  "open_commands env p req = filter (\<lambda>cmd. verdict env p req cmd \<noteq> Allow) (request_commands env req)"

lemma length_filter_less:
  "\<forall>x\<in>set xs. P x \<longrightarrow> Q x \<Longrightarrow> \<exists>x\<in>set xs. Q x \<and> \<not> P x \<Longrightarrow> length (filter P xs) < length (filter Q xs)"
proof (induction xs)
  case (Cons x xs)
  have le: "length (filter P xs) \<le> length (filter Q xs)"
    using Cons.prems(1) by (induction xs) auto
  show ?case
  proof (cases "Q x \<and> \<not> P x")
    case True
    with le show ?thesis by simp
  next
    case False
    with Cons.prems have "\<exists>x\<in>set xs. Q x \<and> \<not> P x" by auto
    with Cons False show ?thesis by auto
  qed
qed simp

lemma no_policy_match:
  assumes "cmd \<in> set (request_commands env req)" "\<not> list_ex is_policy_match (request_matches env p req)"
  shows "exact_matches p cmd = [] \<and> match_host_executable_rules (ae_host env) p cmd = []"
proof -
  let ?M = "matches_for_command_with_options (ae_host env) p cmd (Some (exec_policy_fallback env req)) True"
  have none: "\<not> is_policy_match m" if "m \<in> set ?M" for m
    using that assms unfolding request_matches_def list_ex_iff set_concat set_map by blast
  have exact: "exact_matches p cmd = []"
  proof (rule ccontr)
    assume "exact_matches p cmd \<noteq> []"
    then have "?M = exact_matches p cmd" "hd (exact_matches p cmd) \<in> set (exact_matches p cmd)" by (simp_all add: matches_cases)
    then show False using none exact_policy_match by metis
  qed
  moreover have "match_host_executable_rules (ae_host env) p cmd = []"
  proof (rule ccontr)
    let ?H = "match_host_executable_rules (ae_host env) p cmd"
    assume "?H \<noteq> []"
    then have "?M = ?H" "hd ?H \<in> set ?H" using exact by (simp_all add: matches_cases)
    then show False using none host_policy_match by metis
  qed
  ultimately show ?thesis ..
qed

text \<open>An accepted proposal closes an open command.\<close>

lemma amendment_closes_command:
  assumes req: "create_exec_approval_requirement_for_command env p req = Some (NeedsApproval reason (Some ts))"
    and ne: "ts \<noteq> []" "hd ts \<noteq> ''~''" and cwd: "\<And>cwd. env_cwd (ae_host env) = Some cwd \<Longrightarrow> is_absolute cwd"
  shows "already_allowed (ae_host env) p ts \<noteq> Some True \<and>
    (\<exists>cmd\<in>set (request_commands env req). verdict env p req cmd \<noteq> Allow \<and> verdict env (with_allow p ts) req cmd = Allow)"
proof -
  let ?f = "exec_policy_fallback env req"
  from needs_approval_cases [OF req] have prompt: "Max (verdict env p req ` set (request_commands env req)) = Prompt" by blast
  from needs_approval_cases [OF req] consider
      (requested) "derive_requested_execpolicy_amendment_from_prefix_rule (ae_host env) (req_prefix_rule req)
        (request_matches env p req) p (request_commands env req) ?f = Some ts"
    | (derived) "try_derive_execpolicy_amendment_for_prompt_rules (request_matches env p req) = Some ts"
    by (metis option.distinct(1))
  then show ?thesis
  proof cases
    case requested
    then have none: "\<not> list_ex is_policy_match (request_matches env p req)"
      and all: "prefix_rule_would_approve_all_commands (ae_host env) p ts (request_commands env req) ?f"
      by (auto simp: derive_requested_execpolicy_amendment_from_prefix_rule_def split: option.splits if_splits)
    obtain cmd where cmd: "cmd \<in> set (request_commands env req)" "verdict env p req cmd = Prompt"
      using verdict_max [of env req p] prompt by auto
    have allow: "verdict env (with_allow p ts) req cmd = Allow"
      using all cmd(1)
      by (simp add: prefix_rule_would_approve_all_commands_def add_allow_rule [OF ne(1)] with_allow_def [symmetric] list_all_iff
          check_Some verdict_def)
    note unmatched = no_policy_match [OF cmd(1) none]
    have "decide (ae_host env) (with_allow p ts) ?f cmd \<noteq> decide (ae_host env) p ?f cmd"
      using allow cmd(2) by (simp add: verdict_def)
    note changed = decide_changed [OF ne(1) conjunct1 [OF unmatched] conjunct2 [OF unmatched] this]
    have "already_allowed (ae_host env) p ts \<noteq> Some True"
    proof
      assume "already_allowed (ae_host env) p ts = Some True"
      from matches_transfer [OF ne cwd already_allowed_matches [OF this] changed] unmatched show False by blast
    qed
    with cmd allow show ?thesis by (intro conjI bexI [of _ cmd]) simp_all
  next
    case derived
    then obtain m where m: "m \<in> set (request_matches env p req)" "heuristic_command Prompt m = Some ts"
      by (auto simp: try_derive_execpolicy_amendment_for_prompt_rules_def split: if_splits dest: find_map_SomeD)
    then have h: "m = HeuristicsRuleMatch ts Prompt" by (auto simp: heuristic_command_def split: RuleMatch.splits if_splits)
    obtain cmd where cmd: "cmd \<in> set (request_commands env req)"
      "m \<in> set (matches_for_command_with_options (ae_host env) p cmd (Some ?f) True)"
      using m(1) by (auto simp: request_matches_def)
    have np: "\<not> is_policy_match m" by (simp add: h)
    have un: "exact_matches p cmd = []" "match_host_executable_rules (ae_host env) p cmd = []"
      using cmd(2) exact_policy_match [of m p cmd] host_policy_match [of m "ae_host env" p cmd] np
      by (auto simp: matches_cases split: if_splits)
    with cmd(2) h have eq: "cmd = ts" "?f ts = Prompt" by (auto simp: matches_cases)
    have "already_allowed (ae_host env) p ts \<noteq> Some True"
      using already_allowed_matches [of "ae_host env" p ts] un eq by auto
    moreover have "verdict env p req ts = Prompt" using un eq by (simp add: verdict_def matches_cases)
    moreover have "verdict env (with_allow p ts) req ts = Allow"
      using decide_own_prefix [OF ne(1)] un(1) eq by (simp add: verdict_def)
    ultimately show ?thesis using cmd(1) eq by (intro conjI bexI [of _ ts]) auto
  qed
qed

text \<open>Accepting one proposed amendment closes an open command of the same request and makes no verdict stricter.\<close>

lemma amendment_step:
  assumes req: "create_exec_approval_requirement_for_command env (ps_policy st) req = Some (NeedsApproval reason (Some ts))"
    and upd: "append_amendment_and_update env fault codex_home ts st = Some (st', Ok ())"
    and tilde: "hd ts \<noteq> ''~''" and cwd: "\<And>cwd. env_cwd (ae_host env) = Some cwd \<Longrightarrow> is_absolute cwd"
  shows "length (open_commands env (ps_policy st') req) < length (open_commands env (ps_policy st) req) \<and>
    (\<forall>cmd. verdict env (ps_policy st') req cmd \<le> verdict env (ps_policy st) req cmd) \<and>
    (open_commands env (ps_policy st') req = [] \<longrightarrow>
      (\<exists>bypass amendment. create_exec_approval_requirement_for_command env (ps_policy st') req = Some (Skip bypass amendment)))"
proof -
  have ne: "ts \<noteq> []" using append_amendment_Ok [OF upd] by blast
  note closes = amendment_closes_command [OF req ne tilde cwd]
  have p': "ps_policy st' = with_allow (ps_policy st) ts"
    using append_amendment_Ok [OF upd] closes by blast
  have le: "verdict env (ps_policy st') req cmd \<le> verdict env (ps_policy st) req cmd" for cmd
    unfolding p' verdict_def by (rule decide_with_allow_le [OF ne])
  have "length (open_commands env (ps_policy st') req) < length (open_commands env (ps_policy st) req)"
    unfolding open_commands_def
  proof (rule length_filter_less)
    show "\<forall>cmd\<in>set (request_commands env req). verdict env (ps_policy st') req cmd \<noteq> Allow \<longrightarrow> verdict env (ps_policy st) req cmd \<noteq> Allow"
      using le by (metis decision_le_iff(5))
    show "\<exists>cmd\<in>set (request_commands env req). verdict env (ps_policy st) req cmd \<noteq> Allow \<and> \<not> verdict env (ps_policy st') req cmd \<noteq> Allow"
      using closes unfolding p' by blast
  qed
  moreover have "open_commands env (ps_policy st') req = [] \<Longrightarrow>
      \<exists>bypass amendment. create_exec_approval_requirement_for_command env (ps_policy st') req = Some (Skip bypass amendment)"
    by (rule all_allow_skip) (auto simp: open_commands_def filter_empty_conv)
  ultimately show ?thesis using le by blast
qed

text \<open>The same request asked again and again, each time with the proposed amendment accepted and stored.  (A
  program called \<open>~\<close> is set apart: it is expanded to the home directory.)\<close>

inductive accepted :: "approval_env \<Rightarrow> ExecApprovalRequest \<Rightarrow> policy_state \<Rightarrow> nat \<Rightarrow> policy_state \<Rightarrow> bool" for env req st where
  accepted_none: "accepted env req st 0 st"
| accepted_more: "accepted env req st n st1 \<Longrightarrow>
    create_exec_approval_requirement_for_command env (ps_policy st1) req = Some (NeedsApproval reason (Some ts)) \<Longrightarrow> hd ts \<noteq> ''~'' \<Longrightarrow>
    append_amendment_and_update env fault codex_home ts st1 = Some (st2, Ok ()) \<Longrightarrow> accepted env req st (Suc n) st2"

text \<open>C27: Accepting proposed amendments makes progress: each acceptance closes at least one open command of the
  request, so there are at most as many in a row as commands were open at first; no command is ever
  decided more strictly than before; and when no command is open any more, the request is no longer asked
  about.  (A prompt that proposes no amendment may come earlier.  The working directory is absolute, and
  no accepted amendment starts with the program \<open>~\<close>.)\<close>

theorem amendments_make_progress:
  assumes "accepted env req st n st'" "\<forall>cwd. env_cwd (ae_host env) = Some cwd \<longrightarrow> is_absolute cwd"
  shows "n + length (open_commands env (ps_policy st') req) \<le> length (open_commands env (ps_policy st) req) \<and>
    (\<forall>cmd. verdict env (ps_policy st') req cmd \<le> verdict env (ps_policy st) req cmd) \<and>
    (open_commands env (ps_policy st') req = [] \<longrightarrow>
      (\<exists>bypass amendment. create_exec_approval_requirement_for_command env (ps_policy st') req = Some (Skip bypass amendment)))"
  using assms(1)
proof (induction rule: accepted.induct)
  case accepted_none
  have "open_commands env (ps_policy st) req = [] \<Longrightarrow>
      \<exists>bypass amendment. create_exec_approval_requirement_for_command env (ps_policy st) req = Some (Skip bypass amendment)"
    by (rule all_allow_skip) (auto simp: open_commands_def filter_empty_conv)
  then show ?case by simp
next
  case (accepted_more n st1 reason ts fault codex_home st2)
  note step = amendment_step [OF accepted_more.hyps(2,4,3) assms(2) [rule_format]]
  then have "length (open_commands env (ps_policy st2) req) < length (open_commands env (ps_policy st1) req)"
    "\<forall>cmd. verdict env (ps_policy st2) req cmd \<le> verdict env (ps_policy st1) req cmd" by blast+
  with accepted_more.IH step show ?case by (auto intro: order_trans)
qed

theorem amendments_make_progress_witness:
  "\<exists>st' :: policy_state. 1 + length (open_commands plain_approval_env (ps_policy st') (plain_request UnlessTrusted [''cargo'', ''build''] None)) \<le>
      length (open_commands plain_approval_env policy_empty (plain_request UnlessTrusted [''cargo'', ''build''] None)) \<and>
    (\<exists>bypass amendment. create_exec_approval_requirement_for_command plain_approval_env (ps_policy st')
      (plain_request UnlessTrusted [''cargo'', ''build''] None) = Some (Skip bypass amendment))"
proof -
  let ?st = "\<lparr>ps_policy = policy_empty, ps_files = (\<lambda>_. None)\<rparr>"
  let ?req = "plain_request UnlessTrusted [''cargo'', ''build''] None"
  have req: "create_exec_approval_requirement_for_command plain_approval_env (ps_policy ?st) ?req =
      Some (NeedsApproval None (Some [''cargo'', ''build'']))" by code_simp
  have "map_option snd (append_amendment_and_update plain_approval_env None ''/h'' [''cargo'', ''build''] ?st) = Some (Ok ())"
    by code_simp
  then obtain st' where upd: "append_amendment_and_update plain_approval_env None ''/h'' [''cargo'', ''build''] ?st = Some (st', Ok ())"
    by auto
  have one: "length (open_commands plain_approval_env policy_empty ?req) = 1" by code_simp
  have cwd: "\<forall>cwd. env_cwd (ae_host plain_approval_env) = Some cwd \<longrightarrow> is_absolute cwd"
    by (auto simp: plain_approval_env_def is_absolute_def starts_with_def slash_def)
  have "accepted plain_approval_env ?req ?st (Suc 0) st'"
    by (rule accepted_more [OF accepted_none req _ upd]) simp
  from amendments_make_progress [OF this cwd] one show ?thesis by simp blast
qed

section \<open>Runs of updates\<close>

text \<open>One update by the manager; the semaphore makes updates atomic with respect to each other.\<close>

inductive policy_step :: "approval_env \<Rightarrow> string \<Rightarrow> policy_state \<Rightarrow> policy_state \<Rightarrow> bool"
  for env :: approval_env and codex_home :: string where
  amend: "append_amendment_and_update env fault codex_home amendment st = Some (st', r) \<Longrightarrow> policy_step env codex_home st st'"
| network: "append_network_rule_and_update env fault codex_home host protocol d justification st = (st', r) \<Longrightarrow>
    policy_step env codex_home st st'"

inductive_cases policy_stepE: "policy_step env codex_home st st'"

abbreviation rules_file :: "string \<Rightarrow> policy_state \<Rightarrow> string" where
  "rules_file codex_home st \<equiv> file_text (ps_files st (default_policy_path codex_home))"

text \<open>Every rule in memory that was not there at the start has its line in the file.\<close>

definition allow_rule_stored :: "approval_env \<Rightarrow> string \<Rightarrow> PrefixRule \<Rightarrow> bool" where
  "allow_rule_stored env contents r \<longleftrightarrow>
    (\<exists>ts us. r = allow_rule ts \<and> json_strings (json_to_string env) ts = Some us \<and> allow_rule_line us \<in> set (str_lines contents))"

definition network_rule_stored :: "approval_env \<Rightarrow> string \<Rightarrow> NetworkRule \<Rightarrow> bool" where
  "network_rule_stored env contents r \<longleftrightarrow>
    (\<exists>args. network_rule_args (json_to_string env) (net_host r) (net_protocol r) (net_decision r) (net_justification r) = Some args \<and>
      network_rule_line args \<in> set (str_lines contents))"

definition backed :: "approval_env \<Rightarrow> string \<Rightarrow> Policy \<Rightarrow> policy_state \<Rightarrow> bool" where
  "backed env codex_home p0 st \<longleftrightarrow>
    wf_policy (ps_policy st) \<and>
    policy_rules p0 \<subseteq> policy_rules (ps_policy st) \<and> prefix (network_rules p0) (network_rules (ps_policy st)) \<and>
    (\<forall>r\<in>policy_rules (ps_policy st) - policy_rules p0. allow_rule_stored env (rules_file codex_home st) r) \<and>
    (\<forall>r\<in>set (network_rules (ps_policy st)) - set (network_rules p0). network_rule_stored env (rules_file codex_home st) r)"

lemma policy_rules_with_allow: "policy_rules (with_allow p ts) = insert (allow_rule ts) (policy_rules p)"
  by (auto simp: policy_rules_def rules_with_allow split: if_splits)

lemma wf_with_allow: "ts \<noteq> [] \<Longrightarrow> wf_policy p \<Longrightarrow> wf_policy (with_allow p ts)"
  using wf_add_prefix_rule [of p ts Allow "with_allow p ts"] by (simp add: add_allow_rule with_allow_def)

lemma append_allow_grown:
  "grown (file_text contents) (file_text (fst (blocking_append_allow_prefix_rule json fault path ts contents)))"
  using append_rule_line_grown by (auto simp: blocking_append_allow_prefix_rule_def grown_refl split: option.splits)

lemma append_network_grown:
  "grown (file_text contents) (file_text (fst (blocking_append_network_rule json fault path host protocol d justification contents)))"
  using append_rule_line_grown
  by (auto simp: blocking_append_network_rule_def grown_refl split: option.splits sum.splits)

lemma append_allow_stored:
  assumes "json_escapes json" "blocking_append_allow_prefix_rule json fault path ts contents = (contents', Ok ())"
  shows "\<exists>us. json_strings json ts = Some us \<and> allow_rule_line us \<in> set (str_lines (file_text contents'))"
proof -
  from assms(2) obtain us where us: "json_strings json ts = Some us"
    "append_rule_line fault path (allow_rule_line us) contents = (contents', Ok ())"
    by (auto simp: blocking_append_allow_prefix_rule_def split: if_splits option.splits)
  with allow_rule_line_single [OF json_strings_escape [OF assms(1) us(1)]] append_rule_line_Ok [OF us(2)] show ?thesis by blast
qed

lemma append_network_stored:
  assumes "json_escapes json" "blocking_append_network_rule json fault path host protocol d justification contents = (contents', Ok ())"
  shows "\<exists>h args. normalize_network_rule_host host = Ok h \<and> network_rule_args json h protocol d justification = Some args \<and>
    network_rule_line args \<in> set (str_lines (file_text contents'))"
proof -
  from assms(2) obtain h args where h: "normalize_network_rule_host host = Ok h"
    "network_rule_args json h protocol d justification = Some args"
    "append_rule_line fault path (network_rule_line args) contents = (contents', Ok ())"
    by (auto simp: blocking_append_network_rule_def split: if_splits option.splits sum.splits)
  with network_rule_line_single [OF assms(1) h(2)] append_rule_line_Ok [OF h(3)] show ?thesis by blast
qed

lemma allow_stored_mono:
  assumes "grown c c'" "json_escapes (json_to_string env)" "allow_rule_stored env c r"
  shows "allow_rule_stored env c' r"
proof -
  obtain ts us where r: "r = allow_rule ts" "json_strings (json_to_string env) ts = Some us"
    "allow_rule_line us \<in> set (str_lines c)" using assms(3) unfolding allow_rule_stored_def by blast
  have "\<not> ends_with [CR] (allow_rule_line us)"
    using allow_rule_line_single json_strings_escape [OF assms(2) r(2)] by blast
  with grown_lines [OF assms(1) r(3)] r show ?thesis unfolding allow_rule_stored_def by blast
qed

lemma network_stored_mono:
  assumes "grown c c'" "json_escapes (json_to_string env)" "network_rule_stored env c r"
  shows "network_rule_stored env c' r"
proof -
  obtain args where r: "network_rule_args (json_to_string env) (net_host r) (net_protocol r) (net_decision r) (net_justification r) = Some args"
    "network_rule_line args \<in> set (str_lines c)" using assms(3) unfolding network_rule_stored_def by blast
  have "\<not> ends_with [CR] (network_rule_line args)" using network_rule_line_single [OF assms(2) r(1)] by blast
  with grown_lines [OF assms(1) r(2)] r show ?thesis unfolding network_rule_stored_def by blast
qed

text \<open>What one step does, whichever update it is and however it ends.\<close>

lemma policy_step_effect:
  assumes "policy_step env codex_home st st'" "json_escapes (json_to_string env)"
  shows "grown (rules_file codex_home st) (rules_file codex_home st') \<and>
    (\<forall>path. path \<noteq> default_policy_path codex_home \<longrightarrow> ps_files st' path = ps_files st path) \<and>
    (ps_policy st' = ps_policy st \<or>
     (\<exists>ts. ts \<noteq> [] \<and> ps_policy st' = with_allow (ps_policy st) ts \<and> allow_rule_stored env (rules_file codex_home st') (allow_rule ts)) \<or>
     (\<exists>r. ps_policy st' = (ps_policy st)\<lparr>network_rules := network_rules (ps_policy st) @ [r]\<rparr> \<and>
        network_rule_stored env (rules_file codex_home st') r))"
  using assms(1)
proof (cases rule: policy_step.cases)
  case (amend fault ts r)
  from append_amendment_cases [OF amend] obtain contents ar where
    ar: "blocking_append_allow_prefix_rule (json_to_string env) fault (default_policy_path codex_home) ts
      (ps_files st (default_policy_path codex_home)) = (contents, ar)"
    and files: "ps_files st' = (ps_files st)(default_policy_path codex_home := contents)"
    and res: "case ar of
       Err e \<Rightarrow> r = Err (AppendRule (default_policy_path codex_home) e) \<and> ps_policy st' = ps_policy st
     | Ok _ \<Rightarrow> r = Ok () \<and> ts \<noteq> [] \<and>
         (if already_allowed (ae_host env) (ps_policy st) ts = Some True then ps_policy st' = ps_policy st
          else ps_policy st' = with_allow (ps_policy st) ts)"
    by (elim exE conjE) (rule that)
  have grown: "grown (rules_file codex_home st) (rules_file codex_home st')"
    using append_allow_grown [of "ps_files st (default_policy_path codex_home)"] by (simp add: files) (metis ar fst_conv)
  show ?thesis
  proof (cases ar)
    case (Inl e)
    with res grown files show ?thesis by simp
  next
    case (Inr u)
    with append_allow_stored [OF assms(2)] ar have "allow_rule_stored env (rules_file codex_home st') (allow_rule ts)"
      by (auto simp: allow_rule_stored_def files)
    with Inr res grown files show ?thesis by (auto split: if_splits)
  qed
next
  case (network fault host protocol d justification r)
  obtain contents ar where
    ar: "blocking_append_network_rule (json_to_string env) fault (default_policy_path codex_home) host protocol d justification
      (ps_files st (default_policy_path codex_home)) = (contents, ar)" by fastforce
  have files: "ps_files st' = (ps_files st)(default_policy_path codex_home := contents)"
    using network ar by (auto simp: append_network_rule_and_update_def Let_def split: sum.splits)
  have grown: "grown (rules_file codex_home st) (rules_file codex_home st')"
    using append_network_grown [of "ps_files st (default_policy_path codex_home)"] by (simp add: files) (metis ar fst_conv)
  show ?thesis
  proof (cases ar)
    case (Inl e)
    with network ar have "ps_policy st' = ps_policy st" by (auto simp: append_network_rule_and_update_def Let_def)
    with grown files show ?thesis by simp
  next
    case (Inr u)
    with ar have "blocking_append_network_rule (json_to_string env) fault (default_policy_path codex_home) host protocol d justification
      (ps_files st (default_policy_path codex_home)) = (contents, Ok ())" by simp
    from append_network_stored [OF assms(2) this] obtain h args where h: "normalize_network_rule_host host = Ok h"
      "network_rule_args (json_to_string env) h protocol d justification = Some args"
      "network_rule_line args \<in> set (str_lines (file_text contents))" by blast
    let ?r = "\<lparr>net_host = h, net_protocol = protocol, net_decision = d, net_justification = justification\<rparr>"
    have "network_rule_stored env (rules_file codex_home st') ?r" using h(2,3) by (simp add: network_rule_stored_def files)
    moreover have "ps_policy st' = ps_policy st \<or> ps_policy st' = (ps_policy st)\<lparr>network_rules := network_rules (ps_policy st) @ [?r]\<rparr>"
      using network ar Inr h(1) by (auto simp: append_network_rule_and_update_def add_network_rule_def Let_def split: sum.splits if_splits)
    ultimately show ?thesis using grown files by auto
  qed
qed

lemma wf_network_update: "wf_policy (p\<lparr>network_rules := ns\<rparr>) = wf_policy p" "policy_rules (p\<lparr>network_rules := ns\<rparr>) = policy_rules p"
  by (simp_all add: wf_policy_def policy_rules_def)

lemma backed_step:
  assumes "policy_step env codex_home st st'" "json_escapes (json_to_string env)" "backed env codex_home p0 st"
  shows "backed env codex_home p0 st'"
proof -
  note eff = policy_step_effect [OF assms(1,2)]
  then have grown: "grown (rules_file codex_home st) (rules_file codex_home st')" by blast
  have old: "\<forall>r\<in>policy_rules (ps_policy st) - policy_rules p0. allow_rule_stored env (rules_file codex_home st') r"
    "\<forall>r\<in>set (network_rules (ps_policy st)) - set (network_rules p0). network_rule_stored env (rules_file codex_home st') r"
    using assms(3) allow_stored_mono [OF grown assms(2)] network_stored_mono [OF grown assms(2)] unfolding backed_def by blast+
  from eff consider "ps_policy st' = ps_policy st"
    | ts where "ts \<noteq> []" "ps_policy st' = with_allow (ps_policy st) ts" "allow_rule_stored env (rules_file codex_home st') (allow_rule ts)"
    | r where "ps_policy st' = (ps_policy st)\<lparr>network_rules := network_rules (ps_policy st) @ [r]\<rparr>" "network_rule_stored env (rules_file codex_home st') r"
    by blast
  then show ?thesis
  proof cases
    case 1
    with old assms(3) show ?thesis unfolding backed_def by simp
  next
    case 2
    moreover have "network_rules (with_allow (ps_policy st) ts) = network_rules (ps_policy st)" by (simp add: with_allow_def)
    ultimately show ?thesis
      using old assms(3) wf_with_allow [OF 2(1)] unfolding backed_def policy_rules_with_allow 2(2) by auto
  next
    case 3
    with old assms(3) show ?thesis unfolding backed_def 3(1) wf_network_update by auto
  qed
qed

section \<open>Properties of runs\<close>

text \<open>C14: Through any sequence of policy updates, failed ones and torn writes included, the policy in memory
  stays well-formed and loses no rule, and every rule it gained has its line in the policy file, so
  nothing the session allows is forgotten by the next one; the file keeps every byte it had, and no
  other file is touched.\<close>

theorem policy_runs_backed:
  assumes "(policy_step env codex_home)\<^sup>*\<^sup>* st0 st" "json_escapes (json_to_string env)" "wf_policy (ps_policy st0)"
  shows "backed env codex_home (ps_policy st0) st \<and>
    prefix (rules_file codex_home st0) (rules_file codex_home st) \<and>
    (\<forall>path. path \<noteq> default_policy_path codex_home \<longrightarrow> ps_files st path = ps_files st0 path)"
  using assms(1)
proof (induction rule: rtranclp_induct)
  case base
  show ?case using assms(3) by (simp add: backed_def)
next
  case (step st1 st2)
  from policy_step_effect [OF step.hyps(2) assms(2)]
  have "prefix (rules_file codex_home st1) (rules_file codex_home st2)" "\<forall>path. path \<noteq> default_policy_path codex_home \<longrightarrow> ps_files st2 path = ps_files st1 path"
    using grown_prefix by blast+
  with step.IH backed_step [OF step.hyps(2) assms(2)] show ?case by (metis prefix_order.order_trans)
qed

lemma json_escapes_plain: "json_escapes (json_to_string plain_approval_env)"
  by (auto simp: json_escapes_def plain_approval_env_def)

theorem policy_runs_backed_witness:
  "\<exists>st. (policy_step plain_approval_env ''/h'')\<^sup>*\<^sup>* \<lparr>ps_policy = policy_empty, ps_files = (\<lambda>_. None)\<rparr> st \<and>
    ps_policy st = with_allow policy_empty [''cargo''] \<and> backed plain_approval_env ''/h'' policy_empty st"
proof -
  let ?st = "\<lparr>ps_policy = policy_empty, ps_files = (\<lambda>_. None)\<rparr>"
  have "map_option (\<lambda>(st, r). (ps_policy st, r)) (append_amendment_and_update plain_approval_env None ''/h'' [''cargo''] ?st) =
      Some (with_allow policy_empty [''cargo''], Ok ())" by code_simp
  then obtain st where st: "append_amendment_and_update plain_approval_env None ''/h'' [''cargo''] ?st = Some (st, Ok ())"
    "ps_policy st = with_allow policy_empty [''cargo'']" by auto
  then have run: "(policy_step plain_approval_env ''/h'')\<^sup>*\<^sup>* ?st st" by (intro r_into_rtranclp policy_step.amend)
  from policy_runs_backed [OF run json_escapes_plain] run st(2) wf_policy_empty show ?thesis by auto
qed

section \<open>The approval cache of a session\<close>

text \<open>A session answers a list of requests, each with its keys and the answer a prompt would get; the log
  says for each whether a prompt was shown and what was decided.\<close>

fun approvals_run ::
  "('k \<Rightarrow> string option) \<Rightarrow> (string \<Rightarrow> ReviewDecision option) \<Rightarrow> ('k list \<times> ReviewDecision) list \<Rightarrow>
   (ReviewDecision \<times> bool) list" where
  "approvals_run to_string store [] = []"
| "approvals_run to_string store ((keys, fetch) # reqs) =
    (case with_cached_approval to_string keys fetch store of
       (store', d, prompted) \<Rightarrow> (d, prompted) # approvals_run to_string store' reqs)"

text \<open>A serialised key is granted by earlier requests if one of them carried it and was answered for the session.\<close>

definition granted :: "('k \<Rightarrow> string option) \<Rightarrow> ('k list \<times> ReviewDecision) list \<Rightarrow> string \<Rightarrow> bool" where
  "granted to_string reqs s \<longleftrightarrow>
    (\<exists>(keys, fetch)\<in>set reqs. fetch = ApprovedForSession \<and> (\<exists>k\<in>set keys. to_string k = Some s))"

lemma granted_snoc:
  "granted to_string (reqs @ [(keys, fetch)]) s \<longleftrightarrow>
    granted to_string reqs s \<or> fetch = ApprovedForSession \<and> (\<exists>k\<in>set keys. to_string k = Some s)"
  by (auto simp: granted_def)

lemma store_puts:
  "foldl (\<lambda>store key. store_put to_string store key v) store keys s =
    (if \<exists>k\<in>set keys. to_string k = Some s then Some v else store s)"
  by (induction keys arbitrary: store) (auto simp: store_put_def split: option.splits)

lemma cached_step:
  assumes run: "with_cached_approval to_string keys fetch store = (store', d, prompted)"
    and inv: "\<And>s. store s = Some ApprovedForSession \<longleftrightarrow> granted to_string past s"
  shows "(store' s = Some ApprovedForSession \<longleftrightarrow> granted to_string (past @ [(keys, fetch)]) s) \<and>
    (prompted \<longleftrightarrow> keys = [] \<or> (\<exists>k\<in>set keys. \<nexists>s. to_string k = Some s \<and> granted to_string past s)) \<and>
    d = (if prompted then fetch else ApprovedForSession)"
proof -
  have get: "store_get to_string store k = Some ApprovedForSession \<longleftrightarrow> (\<exists>s. to_string k = Some s \<and> granted to_string past s)" for k
    by (auto simp: store_get_def inv split: option.splits)
  show ?thesis
  proof (cases "keys = [] \<or> list_all (\<lambda>k. store_get to_string store k = Some ApprovedForSession) keys")
    case True
    then have "granted to_string (past @ [(keys, fetch)]) s \<longleftrightarrow> granted to_string past s"
      using get by (auto simp: granted_snoc list_all_iff)
    moreover have "store' = store" using run True by (auto simp: with_cached_approval_def split: if_splits)
    moreover have "prompted \<longleftrightarrow> keys = []" "d = (if prompted then fetch else ApprovedForSession)"
      using run True by (auto simp: with_cached_approval_def split: if_splits)
    ultimately show ?thesis using True get inv by (auto simp: list_all_iff)
  next
    case False
    with run have "store' = (if fetch = ApprovedForSession then foldl (\<lambda>store key. store_put to_string store key ApprovedForSession) store keys else store)"
      "d = fetch" "prompted" by (auto simp: with_cached_approval_def)
    with False get show ?thesis by (auto simp: store_puts granted_snoc inv list_all_iff)
  qed
qed

lemma approvals_run_from:
  assumes "\<And>s. store s = Some ApprovedForSession \<longleftrightarrow> granted to_string past s" "i < length reqs" "reqs ! i = (keys, fetch)"
  shows "length (approvals_run to_string store reqs) = length reqs \<and>
    (\<exists>prompted. approvals_run to_string store reqs ! i = (if prompted then fetch else ApprovedForSession, prompted) \<and>
      (prompted \<longleftrightarrow> keys = [] \<or> (\<exists>k\<in>set keys. \<nexists>s. to_string k = Some s \<and> granted to_string (past @ take i reqs) s)))"
  using assms
proof (induction reqs arbitrary: store past i)
  case (Cons r reqs)
  obtain ks f where r: "r = (ks, f)" by (cases r)
  obtain store' d prompted where run: "with_cached_approval to_string ks f store = (store', d, prompted)" by (metis prod_cases3)
  note step = cached_step [OF run Cons.prems(1)]
  have len: "length (approvals_run to_string st rs) = length rs" for st and rs :: "('a list \<times> ReviewDecision) list"
    by (induction rs arbitrary: st) (auto split: prod.splits)
  show ?case
  proof (cases i)
    case 0
    with Cons.prems r run step show ?thesis by (auto simp: len)
  next
    case (Suc j)
    with Cons.prems have "j < length reqs" "reqs ! j = (keys, fetch)" by auto
    from Cons.IH [OF _ this, of store' "past @ [(ks, f)]"] step Suc r run show ?thesis by simp
  qed
qed simp

text \<open>C33: In a session, a prompt is skipped exactly when every key of the request was covered by an earlier
  answer for the whole session; a skipped prompt decides as that answer, and a request without keys
  is always asked about.\<close>

theorem approval_cache_sound:
  assumes "i < length reqs" "reqs ! i = (keys, fetch)"
  shows "\<exists>prompted. approvals_run to_string (\<lambda>_. None) reqs ! i = (if prompted then fetch else ApprovedForSession, prompted) \<and>
    (prompted \<longleftrightarrow> keys = [] \<or> (\<exists>k\<in>set keys. \<nexists>s. to_string k = Some s \<and> granted to_string (take i reqs) s))"
  using approvals_run_from [of "\<lambda>_. None" to_string "[]", OF _ assms] by (simp add: granted_def)

theorem approval_cache_sound_witness:
  "approvals_run Some (\<lambda>_. None) [([''a'', ''b''], ApprovedForSession), ([''b''], Denied)] ! 1 = (ApprovedForSession, False)"
proof -
  let ?reqs = "[([''a'', ''b''], ApprovedForSession), ([''b''], Denied)]"
  have "granted Some (take 1 ?reqs) ''b''" by (simp add: granted_def)
  with approval_cache_sound [of 1 ?reqs "[''b'']" Denied Some] show ?thesis by (auto split: if_splits)
qed

end
