(* ===== verification/Patch_Invocation.thy ===== *)
theory Patch_Invocation
  imports Patch_Apply Patch_Roundtrip Bash_Commands
begin

text \<open>
  Recognising invocations of \<open>apply_patch\<close> (apply-patch/src/invocation.rs): a direct call, or a shell
  script that feeds a here-document to it, verified against the file system into a map of proposed
  changes.  The tree-sitter query over the script is a parameter: it returns the captures of every
  match, or the error of loading the grammar or of parsing.  The unified diff shown to the user is
  computed by the \<open>similar\<close> package and is a parameter, too.  The hash map of changes is an association
  list with one entry per path.
\<close>

section \<open>Recognising invocations\<close>

definition APPLY_PATCH_COMMANDS :: "string list" where
  "APPLY_PATCH_COMMANDS = [''apply_patch'', ''applypatch'']"

datatype ApplyPatchShell = ShellUnix | ShellPowerShell | ShellCmd

datatype ExtractHeredocError =
    CommandDidNotStartWithApplyPatch
  | FailedToLoadBashGrammar
  | HeredocNotUtf8
  | FailedToParsePatchIntoAst
  | FailedToFindHeredocBody

datatype MaybeApplyPatch =
    Body ApplyPatchArgs
  | ShellParseError ExtractHeredocError
  | PatchError ParseError
  | NotApplyPatch

type_synonym heredoc_query = "string \<Rightarrow> (ExtractHeredocError, (string \<times> ts_node) list list) result"

definition classify_shell_name :: "string \<Rightarrow> string option" where
  "classify_shell_name shell = map_option to_ascii_lowercase (path_file_stem shell)"

definition classify_shell :: "string \<Rightarrow> string \<Rightarrow> ApplyPatchShell option" where
  "classify_shell shell flag =
    (case classify_shell_name shell of
       None \<Rightarrow> None
     | Some name \<Rightarrow>
         if name \<in> set [''bash'', ''zsh'', ''sh''] \<and> flag \<in> set [''-lc'', ''-c''] then Some ShellUnix
         else if name \<in> set [''pwsh'', ''powershell''] \<and> eq_ignore_ascii_case flag ''-command'' then Some ShellPowerShell
         else if name = ''cmd'' \<and> eq_ignore_ascii_case flag ''/c'' then Some ShellCmd
         else None)"

definition can_skip_flag :: "string \<Rightarrow> string \<Rightarrow> bool" where
  "can_skip_flag shell flag =
    (case classify_shell_name shell of
       None \<Rightarrow> False
     | Some name \<Rightarrow> name \<in> set [''pwsh'', ''powershell''] \<and> eq_ignore_ascii_case flag ''-noprofile'')"

definition parse_shell_script :: "string list \<Rightarrow> (ApplyPatchShell \<times> string) option" where
  "parse_shell_script argv =
    (case argv of
       [shell, flag, script] \<Rightarrow> map_option (\<lambda>shell_type. (shell_type, script)) (classify_shell shell flag)
     | [shell, skip_flag, flag, script] \<Rightarrow>
         if can_skip_flag shell skip_flag
         then map_option (\<lambda>shell_type. (shell_type, script)) (classify_shell shell flag)
         else None
     | _ \<Rightarrow> None)"

text \<open>The captures of one match: the here-document and the directory of a preceding \<open>cd\<close>.\<close>

fun read_captures ::
  "string \<Rightarrow> (string \<times> ts_node) list \<Rightarrow> string option \<Rightarrow> string option \<Rightarrow>
   (ExtractHeredocError, string option \<times> string option) result" where
  "read_captures src [] heredoc_text cd_path = Ok (heredoc_text, cd_path)"
| "read_captures src ((name, node) # captures) heredoc_text cd_path =
    (if name = ''heredoc'' then
       (case utf8_text src node of
          None \<Rightarrow> Err HeredocNotUtf8
        | Some t \<Rightarrow> read_captures src captures (Some (trim_end_matches LF t)) cd_path)
     else if name = ''cd_path'' then
       (case utf8_text src node of
          None \<Rightarrow> Err HeredocNotUtf8
        | Some t \<Rightarrow> read_captures src captures heredoc_text (Some t))
     else if name = ''cd_raw_string'' then
       (case utf8_text src node of
          None \<Rightarrow> Err HeredocNotUtf8
        | Some raw \<Rightarrow>
            (let trimmed = (case strip_prefix [CHR 0x27] raw of
                              Some s \<Rightarrow> (case strip_suffix [CHR 0x27] s of Some s \<Rightarrow> s | None \<Rightarrow> raw)
                            | None \<Rightarrow> raw) in
             read_captures src captures heredoc_text (Some trimmed)))
     else read_captures src captures heredoc_text cd_path)"

fun first_heredoc :: "string \<Rightarrow> (string \<times> ts_node) list list \<Rightarrow> (ExtractHeredocError, string \<times> string option) result" where
  "first_heredoc src [] = Err CommandDidNotStartWithApplyPatch"
| "first_heredoc src (m # ms) =
    (case read_captures src m None None of
       Err e \<Rightarrow> Err e
     | Ok (Some heredoc, cd_path) \<Rightarrow> Ok (heredoc, cd_path)
     | Ok (None, _) \<Rightarrow> first_heredoc src ms)"

definition extract_apply_patch_from_bash ::
  "heredoc_query \<Rightarrow> string \<Rightarrow> (ExtractHeredocError, string \<times> string option) result" where
  "extract_apply_patch_from_bash query src =
    (case query src of Err e \<Rightarrow> Err e | Ok ms \<Rightarrow> first_heredoc src ms)"

definition extract_apply_patch_from_shell ::
  "heredoc_query \<Rightarrow> ApplyPatchShell \<Rightarrow> string \<Rightarrow> (ExtractHeredocError, string \<times> string option) result" where
  "extract_apply_patch_from_shell query shell script = extract_apply_patch_from_bash query script"

definition parse_from_shell :: "heredoc_query \<Rightarrow> string list \<Rightarrow> MaybeApplyPatch" where
  "parse_from_shell query argv =
    (case parse_shell_script argv of
       None \<Rightarrow> NotApplyPatch
     | Some (shell, script) \<Rightarrow>
         (case extract_apply_patch_from_shell query shell script of
            Ok (body, workdir) \<Rightarrow>
              (case parse_patch body of
                 Ok source \<Rightarrow> Body (source\<lparr>args_workdir := workdir\<rparr>)
               | Err e \<Rightarrow> PatchError e)
          | Err e \<Rightarrow> if e = CommandDidNotStartWithApplyPatch then NotApplyPatch else ShellParseError e))"

definition maybe_parse_apply_patch :: "heredoc_query \<Rightarrow> string list \<Rightarrow> MaybeApplyPatch" where
  "maybe_parse_apply_patch query argv =
    (case argv of
       [cmd, body] \<Rightarrow>
         if cmd \<in> set APPLY_PATCH_COMMANDS
         then (case parse_patch body of Ok source \<Rightarrow> Body source | Err e \<Rightarrow> PatchError e)
         else parse_from_shell query argv
     | _ \<Rightarrow> parse_from_shell query argv)"

section \<open>Verified changes\<close>

datatype ApplyPatchFileChange =
    AddChange string
  | DeleteChange string
  | UpdateChange (unified_diff: string) (move_path: "string option") (new_content: string)

record ApplyPatchAction =
  action_changes :: "(string \<times> ApplyPatchFileChange) list"
  action_patch :: string
  action_cwd :: AbsolutePathBuf

datatype MaybeApplyPatchVerified =
    VerifiedBody ApplyPatchAction
  | VerifiedShellParseError ExtractHeredocError
  | CorrectnessError ApplyPatchError
  | VerifiedNotApplyPatch

record ApplyPatchFileUpdate =
  update_diff :: string
  update_content :: string

definition unified_diff_from_chunks ::
  "(string \<Rightarrow> string \<Rightarrow> string) \<Rightarrow> 'fs ExecutorFileSystem \<Rightarrow> 'fs \<Rightarrow> AbsolutePathBuf \<Rightarrow> UpdateFileChunk list \<Rightarrow>
   (ApplyPatchError, ApplyPatchFileUpdate) result" where
  "unified_diff_from_chunks diff fs s path_abs chunks =
    (case derive_new_contents_from_chunks fs s path_abs chunks of
       Err e \<Rightarrow> Err e
     | Ok new_contents \<Rightarrow>
         (let original_contents = (case read_file_text fs s path_abs of Ok c \<Rightarrow> c | Err _ \<Rightarrow> []) in
          Ok \<lparr>update_diff = diff original_contents new_contents, update_content = new_contents\<rparr>))"

fun changes_loop ::
  "(string \<Rightarrow> string \<Rightarrow> string) \<Rightarrow> 'fs ExecutorFileSystem \<Rightarrow> string option \<Rightarrow> AbsolutePathBuf \<Rightarrow> 'fs \<Rightarrow> Hunk list \<Rightarrow>
   (string \<times> ApplyPatchFileChange) list \<Rightarrow> (ApplyPatchError, (string \<times> ApplyPatchFileChange) list) result" where
  "changes_loop diff fs home cwd s [] changes = Ok changes"
| "changes_loop diff fs home cwd s (hunk # hunks) changes =
    (let path = hunk_resolve_path home cwd hunk in
     case hunk of
       AddFile _ contents \<Rightarrow>
         changes_loop diff fs home cwd s hunks (AList.update (display path) (AddChange contents) changes)
     | DeleteFile _ \<Rightarrow>
         (case read_file_text fs s path of
            Err e \<Rightarrow> Err (IoError (''Failed to read '' @ display path) e)
          | Ok content \<Rightarrow>
              changes_loop diff fs home cwd s hunks (AList.update (display path) (DeleteChange content) changes))
     | UpdateFile _ dest chunks \<Rightarrow>
         (case unified_diff_from_chunks diff fs s path chunks of
            Err e \<Rightarrow> Err e
          | Ok update \<Rightarrow>
              changes_loop diff fs home cwd s hunks
                (AList.update (display path)
                  (UpdateChange (update_diff update) (map_option (\<lambda>p. display (resolve_abs home cwd p)) dest)
                    (update_content update)) changes)))"

definition implicit_invocation :: "string list \<Rightarrow> bool" where
  "implicit_invocation argv \<longleftrightarrow>
    (case argv of [body] \<Rightarrow> (case parse_patch body of Ok _ \<Rightarrow> True | Err _ \<Rightarrow> False) | _ \<Rightarrow> False) \<or>
    (case parse_shell_script argv of
       Some (_, script) \<Rightarrow> (case parse_patch script of Ok _ \<Rightarrow> True | Err _ \<Rightarrow> False)
     | None \<Rightarrow> False)"

definition maybe_parse_apply_patch_verified ::
  "heredoc_query \<Rightarrow> (string \<Rightarrow> string \<Rightarrow> string) \<Rightarrow> 'fs ExecutorFileSystem \<Rightarrow> string option \<Rightarrow> 'fs \<Rightarrow> string list \<Rightarrow>
   AbsolutePathBuf \<Rightarrow> MaybeApplyPatchVerified" where
  "maybe_parse_apply_patch_verified query diff fs home s argv cwd =
    (if implicit_invocation argv then CorrectnessError ImplicitInvocation
     else (case maybe_parse_apply_patch query argv of
        Body source \<Rightarrow>
          (let effective_cwd = (case args_workdir source of Some dir \<Rightarrow> resolve_abs home cwd dir | None \<Rightarrow> cwd) in
           case changes_loop diff fs home effective_cwd s (args_hunks source) [] of
             Err e \<Rightarrow> CorrectnessError e
           | Ok changes \<Rightarrow>
               VerifiedBody \<lparr>action_changes = changes, action_patch = args_patch source, action_cwd = effective_cwd\<rparr>)
      | ShellParseError e \<Rightarrow> VerifiedShellParseError e
      | PatchError e \<Rightarrow> CorrectnessError (PatchParseError e)
      | NotApplyPatch \<Rightarrow> VerifiedNotApplyPatch))"

section \<open>The changes of a patch\<close>

fun hunk_dest :: "Hunk \<Rightarrow> string option" where
  "hunk_dest (UpdateFile _ dest _) = dest"
| "hunk_dest _ = None"

text \<open>The paths a change touches.\<close>

fun change_dest :: "ApplyPatchFileChange \<Rightarrow> string option" where
  "change_dest (UpdateChange _ dest _) = dest"
| "change_dest _ = None"

lemma touched_dest: "touched home cwd h = insert (hunk_resolve_path home cwd h) (resolve_abs home cwd ` set_option (hunk_dest h))"
  by (cases "(home, cwd, h)" rule: touched.cases) auto

lemma changes_loop_step:
  assumes "changes_loop diff fs home cwd s (h # hs) changes = Ok changes'"
  shows "\<exists>c. change_dest c = map_option (\<lambda>p. display (resolve_abs home cwd p)) (hunk_dest h) \<and>
    changes_loop diff fs home cwd s hs (AList.update (display (hunk_resolve_path home cwd h)) c changes) = Ok changes'"
proof (cases h)
  case (AddFile p c)
  with assms show ?thesis by (intro exI [of _ "AddChange c"]) simp
next
  case (DeleteFile p)
  with assms obtain content where "read_file_text fs s (hunk_resolve_path home cwd h) = Ok content"
    by (cases "read_file_text fs s (hunk_resolve_path home cwd h)") simp_all
  with assms DeleteFile show ?thesis by (intro exI [of _ "DeleteChange content"]) simp
next
  case (UpdateFile p d cs)
  with assms obtain u where "unified_diff_from_chunks diff fs s (hunk_resolve_path home cwd h) cs = Ok u"
    by (cases "unified_diff_from_chunks diff fs s (hunk_resolve_path home cwd h) cs") simp_all
  with assms UpdateFile show ?thesis
    by (intro exI [of _ "UpdateChange (update_diff u) (map_option (\<lambda>p. display (resolve_abs home cwd p)) d) (update_content u)"]) simp
qed

lemma changes_loop_other:
  assumes "changes_loop diff fs home cwd s hs changes = Ok changes'" "\<forall>h\<in>set hs. display (hunk_resolve_path home cwd h) \<noteq> path"
  shows "map_of changes' path = map_of changes path"
  using assms
proof (induction hs arbitrary: changes)
  case (Cons h hs)
  from changes_loop_step [OF Cons.prems(1)] obtain c where
    "changes_loop diff fs home cwd s hs (AList.update (display (hunk_resolve_path home cwd h)) c changes) = Ok changes'" by blast
  from Cons.IH [OF this] Cons.prems(2) show ?case by (auto simp: update_conv')
qed simp

lemma changes_loop_hunk:
  assumes "changes_loop diff fs home cwd s hs changes = Ok changes'" "h \<in> set hs"
    "distinct (map (\<lambda>h. display (hunk_resolve_path home cwd h)) hs)"
  shows "\<exists>c. map_of changes' (display (hunk_resolve_path home cwd h)) = Some c \<and>
    change_dest c = map_option (\<lambda>p. display (resolve_abs home cwd p)) (hunk_dest h)"
  using assms
proof (induction hs arbitrary: changes)
  case (Cons h' hs)
  from changes_loop_step [OF Cons.prems(1)] obtain c where
    c: "change_dest c = map_option (\<lambda>p. display (resolve_abs home cwd p)) (hunk_dest h')"
    and rest: "changes_loop diff fs home cwd s hs (AList.update (display (hunk_resolve_path home cwd h')) c changes) = Ok changes'" by blast
  show ?case
  proof (cases "h = h'")
    case True
    have "\<forall>h\<in>set hs. display (hunk_resolve_path home cwd h) \<noteq> display (hunk_resolve_path home cwd h')"
      using Cons.prems(3) unfolding list.map distinct.simps set_map image_iff by metis
    from changes_loop_other [OF rest this] have "map_of changes' (display (hunk_resolve_path home cwd h')) = Some c"
      by (simp add: update_conv')
    with True c show ?thesis by blast
  next
    case False
    with Cons.IH [OF rest] Cons.prems show ?thesis by simp
  qed
qed simp

lemma update_nonempty: "AList.update k v xs \<noteq> []"
  by (cases xs) auto

lemma changes_loop_empty: "changes_loop diff fs home cwd s hs changes = Ok [] \<Longrightarrow> hs = [] \<and> changes = []"
proof (induction hs arbitrary: changes)
  case (Cons h hs)
  from changes_loop_step [OF Cons.prems] obtain c where
    "changes_loop diff fs home cwd s hs (AList.update (display (hunk_resolve_path home cwd h)) c changes) = Ok []" by blast
  from Cons.IH [OF this] update_nonempty show ?case by metis
qed simp

section \<open>Parsing the stored patch again\<close>

lemma trim_end_append_ascii:
  assumes "a \<noteq> []" "is_ascii (last a)"
  shows "trim_end (a @ b) = (if trim_end b = [] then trim_end a else a @ trim_end b)"
proof -
  have "strip_ws (\<lambda>a b. ws2 b a) (\<lambda>a b c. ws3 c b a) (rev b @ rev a) =
      (if strip_ws (\<lambda>a b. ws2 b a) (\<lambda>a b c. ws3 c b a) (rev b) = [] then strip_ws (\<lambda>a b. ws2 b a) (\<lambda>a b c. ws3 c b a) (rev a)
       else strip_ws (\<lambda>a b. ws2 b a) (\<lambda>a b c. ws3 c b a) (rev b) @ rev a)"
    by (rule strip_ws_append) (use assms not_ascii_ws_bytes in \<open>auto simp: hd_rev\<close>)
  then show ?thesis by (simp add: trim_end_def)
qed

lemma trim_start_append_ascii:
  assumes "b \<noteq> []" "is_ascii (hd b)"
  shows "trim_start (a @ b) = (if trim_start a = [] then trim_start b else trim_start a @ b)"
  unfolding trim_start_def by (rule strip_ws_append) (use assms not_ascii_ws_bytes in auto)

text \<open>A line whose trimmed form is a marker.\<close>

lemma trim_split:
  assumes "trim f = m" "m = a # n" "m = o' @ [z]" "is_ascii a" "\<not> ascii_ws a" "is_ascii z" "\<not> ascii_ws z"
  shows "\<exists>q w. f = q @ m @ w \<and> trim_start f = m @ w \<and> trim (m @ w) = m \<and> trim_end f = q @ m \<and> trim (q @ m) = m"
proof -
  obtain q where q: "trim_end f = q @ m" using trim_start_suffix [of "trim_end f"] assms(1) by (auto simp: trim_def suffix_def)
  obtain w where w: "f = (q @ m) @ w" using trim_end_prefix [of f] q by (auto simp: prefix_def)
  have ends: "trim_start (m @ v) = m @ v" "trim_end (u @ m) = u @ m" for u v
    using trim_start_plain [OF assms(4,5), of "n @ v"] trim_end_plain [OF assms(6,7), of "u @ o'"] by (simp_all add: assms(2)) (simp add: assms(2) [symmetric] assms(3))
  have tq: "trim_start q = []"
    using assms(1) q trim_start_append_ascii [of m q] assms(2,4) ends(1) [of "[]"] by (auto simp: trim_def split: if_splits)
  have tw: "trim_end w = []"
    using q w trim_end_append_ascii [of "q @ m" w] assms(3,6) ends(2) [of q] by (auto split: if_splits)
  have "trim_start f = m @ w" using w trim_start_append_ascii [of "m @ w" q] tq ends(1) [of w] assms(2,4) by simp
  moreover have "trim_end (m @ w) = m" using trim_end_append_ascii [of m w] tw ends(2) [of "[]"] assms(3,6) by simp
  ultimately show ?thesis
    using w q tq ends trim_start_append_ascii [of m q] assms(2,4) ends(1) [of "[]"] by (intro exI [of _ q] exI [of _ w]) (simp add: trim_def)
qed

lemma trim_marker:
  assumes "trim f = m" "m \<noteq> []" "is_ascii (hd m)" "\<not> ascii_ws (hd m)" "is_ascii (last m)" "\<not> ascii_ws (last m)"
  shows "trim_start f \<noteq> [] \<and> trim (trim_start f) = m \<and> trim_end f \<noteq> [] \<and> trim (trim_end f) = m"
proof -
  from trim_split [OF assms(1), of "hd m" "tl m" "butlast m" "last m"] assms(2-)
  obtain q w where "trim_start f = m @ w" "trim (m @ w) = m" "trim_end f = q @ m" "trim (q @ m) = m" by auto
  with assms(2) show ?thesis by simp
qed

lemma begin_line: "trim f = BEGIN_PATCH_MARKER \<Longrightarrow> trim_start f \<noteq> [] \<and> trim (trim_start f) = BEGIN_PATCH_MARKER"
  using trim_marker [of f BEGIN_PATCH_MARKER] by (simp add: BEGIN_PATCH_MARKER_def is_ascii_def ascii_ws_def)

lemma end_line: "trim l = END_PATCH_MARKER \<Longrightarrow> trim_end l \<noteq> [] \<and> trim (trim_end l) = END_PATCH_MARKER"
  using trim_marker [of l END_PATCH_MARKER] by (simp add: END_PATCH_MARKER_def is_ascii_def ascii_ws_def)

lemma join_snoc: "ls \<noteq> [] \<Longrightarrow> join_with sep (ls @ [l]) = join_with sep ls @ sep @ l"
  by (induction sep ls rule: join_with.induct) auto

lemma trim_patch:
  assumes "trim f = BEGIN_PATCH_MARKER" "trim l = END_PATCH_MARKER"
  shows "trim (join_with [LF] (f # mid @ [l])) = join_with [LF] (trim_start f # mid @ [trim_end l])"
proof -
  have lf: "is_ascii LF" by (simp add: is_ascii_def)
  have "join_with [LF] (f # mid @ [l]) = (join_with [LF] (f # mid) @ [LF]) @ l"
    using join_snoc [of "f # mid" "[LF]" l] by simp
  moreover have "trim_end ((join_with [LF] (f # mid) @ [LF]) @ l) = (join_with [LF] (f # mid) @ [LF]) @ trim_end l"
    using end_line [OF assms(2)] lf by (subst trim_end_append_ascii) auto
  ultimately have "trim_end (join_with [LF] (f # mid @ [l])) = join_with [LF] (f # mid @ [trim_end l])"
    using join_snoc [of "f # mid" "[LF]" "trim_end l"] by simp
  moreover have "join_with [LF] (g # mid @ [trim_end l]) = g @ LF # join_with [LF] (mid @ [trim_end l])" for g
    by (simp add: join_with_Cons)
  moreover have "trim_start (f @ LF # join_with [LF] (mid @ [trim_end l])) = trim_start f @ LF # join_with [LF] (mid @ [trim_end l])"
    using begin_line [OF assms(1)] lf by (subst trim_start_append_ascii) auto
  ultimately show ?thesis by (simp add: trim_def)
qed

lemma boundaries_strict_Ok:
  "check_patch_boundaries_strict ls = Ok (pl, hl) \<longleftrightarrow>
    (\<exists>f mid l. ls = f # mid @ [l] \<and> pl = ls \<and> hl = mid \<and> trim f = BEGIN_PATCH_MARKER \<and> trim l = END_PATCH_MARKER)"
proof -
  have ne: "BEGIN_PATCH_MARKER \<noteq> END_PATCH_MARKER" by (simp add: BEGIN_PATCH_MARKER_def END_PATCH_MARKER_def)
  consider "ls = []" | f where "ls = [f]" | f mid l where "ls = f # mid @ [l]"
    by (metis append_Nil neq_Nil_conv rev_exhaust)
  then show ?thesis
  proof cases
    case 3
    then show ?thesis
      by (cases mid) (auto simp: check_patch_boundaries_strict_def check_start_and_end_lines_strict_def)
  qed (use ne in \<open>auto simp: check_patch_boundaries_strict_def check_start_and_end_lines_strict_def\<close>)
qed

lemma boundaries_lenient_strict:
  assumes "check_patch_boundaries_lenient ls = Ok r"
  shows "check_patch_boundaries_strict ls = Ok r \<or> check_patch_boundaries_strict (butlast (tl ls)) = Ok r"
proof (cases "check_patch_boundaries_strict ls")
  case (Inl e)
  show ?thesis
  proof (cases ls)
    case (Cons first rest)
    with assms Inl show ?thesis
      by (cases rest) (simp_all add: check_patch_boundaries_lenient_def split: if_splits)
  qed (use assms Inl in \<open>simp add: check_patch_boundaries_lenient_def\<close>)
qed (use assms in \<open>simp add: check_patch_boundaries_lenient_def\<close>)

lemma lines_no_LF:
  assumes "x \<in> set (str_lines s)"
  shows "LF \<notin> set x"
proof -
  have sub: "set (strip_cr y) \<subseteq> set y" for y
    by (auto simp: strip_cr_def strip_suffix_def split: option.splits if_splits dest: in_set_takeD)
  from assms consider y where "y \<in> set (split_char LF s)" "x = strip_cr y" | "x \<in> set (split_char LF s)"
    by (auto simp: str_lines_def Let_def split: if_splits dest: in_set_butlastD)
  then show ?thesis using sub split_char_pieces [of _ LF s] by cases blast+
qed

lemma parse_patch_Ok:
  assumes "parse_patch patch = Ok args"
  shows "\<exists>f mid l. args_patch args = join_with [LF] (f # mid @ [l]) \<and> trim f = BEGIN_PATCH_MARKER \<and> trim l = END_PATCH_MARKER \<and>
    (\<forall>x\<in>set (f # mid @ [l]). LF \<notin> set x) \<and> hunks_loop mid 2 [] = Ok (args_hunks args) \<and> args_workdir args = None"
proof -
  obtain pl hl where pl: "check_patch_boundaries_lenient (str_lines (trim patch)) = Ok (pl, hl)"
    and args: "args_patch args = join_with [LF] pl" "hunks_loop hl 2 [] = Ok (args_hunks args)" "args_workdir args = None"
    using assms by (auto simp: parse_patch_def parse_patch_text_def Let_def split: sum.splits prod.splits)
  obtain ls where ls: "check_patch_boundaries_strict ls = Ok (pl, hl)" "set ls \<subseteq> set (str_lines (trim patch))"
  proof -
    have "set (butlast (tl ls)) \<subseteq> set ls" for ls :: "string list"
      by (cases ls) (auto dest: in_set_butlastD)
    with boundaries_lenient_strict [OF pl] that show thesis by blast
  qed
  from ls(1) obtain f mid l where "ls = f # mid @ [l]" "pl = ls" "hl = mid" "trim f = BEGIN_PATCH_MARKER" "trim l = END_PATCH_MARKER"
    unfolding boundaries_strict_Ok by blast
  with args ls(2) lines_no_LF show ?thesis by (intro exI [of _ f] exI [of _ mid] exI [of _ l]) auto
qed

lemma reparse_patch:
  assumes "parse_patch patch = Ok args" "CR \<notin> set (args_patch args)"
  shows "\<exists>args'. parse_patch (args_patch args) = Ok args' \<and> args_hunks args' = args_hunks args"
proof -
  from parse_patch_Ok [OF assms(1)] obtain f mid l where
    p: "args_patch args = join_with [LF] (f # mid @ [l])" "trim f = BEGIN_PATCH_MARKER" "trim l = END_PATCH_MARKER"
    and lf: "\<forall>x\<in>set (f # mid @ [l]). LF \<notin> set x" and hunks: "hunks_loop mid 2 [] = Ok (args_hunks args)"
    by (elim exE conjE) (rule that)
  have "set x \<subseteq> set (join_with [LF] ls)" if "x \<in> set ls" for x ls
    using that by (induction "[LF]" ls rule: join_with.induct) auto
  then have cr: "\<forall>x\<in>set (f # mid @ [l]). CR \<notin> set x" using assms(2) p(1) by (metis subsetD)
  have sub: "set (trim_start f) \<subseteq> set f" "set (trim_end l) \<subseteq> set l"
    using trim_start_suffix [of f] trim_end_prefix [of l] by (auto dest: set_mono_suffix set_mono_prefix)
  let ?ls = "trim_start f # mid @ [trim_end l]"
  have ok: "line_ok x" if "LF \<notin> set x" "CR \<notin> set x" for x using that by (auto simp: line_ok_def ends_with_iff_suffix)
  have "\<forall>x\<in>set ?ls. line_ok x" using lf cr sub by (auto intro!: ok)
  then have "str_lines (join_with [LF] ?ls) = ?ls" using end_line [OF p(3)] by (intro str_lines_join) auto
  then have "str_lines (trim (args_patch args)) = ?ls" using trim_patch [OF p(2,3), of mid] p(1) by simp
  moreover have "check_patch_boundaries_strict ?ls = Ok (?ls, mid)"
    unfolding boundaries_strict_Ok using begin_line [OF p(2)] end_line [OF p(3)] by blast
  ultimately show ?thesis
    using hunks by (simp add: parse_patch_def parse_patch_text_def check_patch_boundaries_lenient_def)
qed

lemma invocation_parsed: "maybe_parse_apply_patch query argv = Body source \<Longrightarrow>
    \<exists>body source'. parse_patch body = Ok source' \<and> args_patch source = args_patch source' \<and> args_hunks source = args_hunks source'"
  by (auto simp: maybe_parse_apply_patch_def parse_from_shell_def split: list.splits if_splits sum.splits option.splits)
    (metis ApplyPatchArgs.select_convs(1,2) ApplyPatchArgs.surjective ApplyPatchArgs.update_convs(3))+

lemma verified_reparse:
  assumes "maybe_parse_apply_patch_verified query diff fs home s argv cwd = VerifiedBody action" "CR \<notin> set (action_patch action)"
  shows "\<exists>args. parse_patch (action_patch action) = Ok args \<and>
    changes_loop diff fs home (action_cwd action) s (args_hunks args) [] = Ok (action_changes action)"
proof -
  from assms(1) obtain source where source: "maybe_parse_apply_patch query argv = Body source" "action_patch action = args_patch source"
    "changes_loop diff fs home (action_cwd action) s (args_hunks source) [] = Ok (action_changes action)"
    by (auto simp: maybe_parse_apply_patch_verified_def Let_def split: if_splits MaybeApplyPatch.splits sum.splits)
  from invocation_parsed [OF source(1)] obtain body source' where
    body: "parse_patch body = Ok source'" "args_patch source = args_patch source'" "args_hunks source = args_hunks source'" by blast
  with reparse_patch [OF body(1)] assms(2) source show ?thesis by auto
qed

section \<open>Properties\<close>

text \<open>C23: What is verified is what is applied: the patch text stored in a verified action parses again, and
  its hunks are the ones the proposed changes were computed from.  (Carriage returns are set apart:
  parsing drops one before each line end, so a doubled one would be dropped twice.)\<close>

theorem verified_patch_is_applied:
  assumes "maybe_parse_apply_patch_verified query diff fs home s argv cwd = VerifiedBody action" "CR \<notin> set (action_patch action)"
  shows "\<exists>args. parse_patch (action_patch action) = Ok args \<and>
    changes_loop diff fs home (action_cwd action) s (args_hunks args) [] = Ok (action_changes action)"
  using assms by (rule verified_reparse)

definition heredoc_script :: string where
  "heredoc_script = ''apply_patch <<E'' @ [LF] @ ''*** Begin Patch '' @ [LF] @ ''*** Add File: n'' @ [LF] @ ''+x'' @ [LF] @ ''*** End Patch'' @ [LF] @ ''E''"

definition heredoc_node :: ts_node where
  "heredoc_node = Node ''heredoc_body'' True False 16 66 []"

definition heredoc_query_stub :: heredoc_query where
  "heredoc_query_stub src = (if src = heredoc_script then Ok [[(''heredoc'', heredoc_node)]] else Ok [])"

definition heredoc_action :: ApplyPatchAction where
  "heredoc_action = \<lparr>action_changes = [(''/r/n'', AddChange (''x'' @ [LF]))],
    action_patch = ''*** Begin Patch '' @ [LF] @ ''*** Add File: n'' @ [LF] @ ''+x'' @ [LF] @ ''*** End Patch'', action_cwd = [''r'']\<rparr>"

lemma heredoc_verified:
  "maybe_parse_apply_patch_verified heredoc_query_stub (\<lambda>_ _. []) direct_fs None sample_tree [''bash'', ''-lc'', heredoc_script] [''r''] =
    VerifiedBody heredoc_action"
  by code_simp

theorem verified_patch_is_applied_witness:
  "\<exists>args. parse_patch (action_patch heredoc_action) = Ok args \<and>
    changes_loop (\<lambda>_ _. []) direct_fs None [''r''] sample_tree (args_hunks args) [] = Ok [(''/r/n'', AddChange (''x'' @ [LF]))]"
proof -
  have cr: "CR \<notin> set (action_patch heredoc_action)" and
    same: "action_cwd heredoc_action = [''r'']" "action_changes heredoc_action = [(''/r/n'', AddChange (''x'' @ [LF]))]" by code_simp+
  from verified_patch_is_applied [OF heredoc_verified cr] show ?thesis unfolding same .
qed

end
