(* ===== verification/Patch_Safety.thy ===== *)
theory Patch_Safety
  imports Patch_Invocation Patch_Streaming Exec_Approval
begin

text \<open>
  Approval of patches (core/src/safety.rs, core/src/apply_patch.rs) and the pure parts of the tool
  handler (core/src/tools/handlers/apply_patch.rs): the verdict on a verified action, the request handed to
  the runtime, what is shown of the changes, and the throttled progress events.  The target system of
  the build and the clock are arguments; paths are Unix paths.
\<close>

section \<open>The verdict on a patch\<close>

datatype SandboxType = SandboxNone | MacosSeatbelt | LinuxSeccomp | WindowsRestrictedToken

datatype target_os = Macos | Linux | Windows | OtherOs

datatype WindowsSandboxLevel = LevelDisabled | LevelRestrictedToken | LevelElevated

datatype SafetyCheck =
    AutoApprove (approved_sandbox: SandboxType) (user_explicitly_approved: bool)
  | AskUser
  | Reject string

definition PATCH_REJECTED_OUTSIDE_PROJECT_REASON :: string where
  "PATCH_REJECTED_OUTSIDE_PROJECT_REASON = ''writing outside of the project; rejected by user approval settings''"

definition PATCH_REJECTED_READ_ONLY_REASON :: string where
  "PATCH_REJECTED_READ_ONLY_REASON = ''writing is blocked by read-only sandbox; rejected by user approval settings''"

definition get_platform_sandbox :: "target_os \<Rightarrow> bool \<Rightarrow> SandboxType option" where
  "get_platform_sandbox os windows_sandbox_enabled =
    (case os of
       Macos \<Rightarrow> Some MacosSeatbelt
     | Linux \<Rightarrow> Some LinuxSeccomp
     | Windows \<Rightarrow> if windows_sandbox_enabled then Some WindowsRestrictedToken else None
     | OtherOs \<Rightarrow> None)"

definition resolve_path :: "string \<Rightarrow> string \<Rightarrow> string" where
  "resolve_path base path = (if is_absolute path then path else path_join base path)"

definition normalize_lexical :: "string \<Rightarrow> string" where
  "normalize_lexical path = path_str (foldl normalize_step [] (path_components path))"

definition patch_path_writable :: "path_env \<Rightarrow> FileSystemSandboxPolicy \<Rightarrow> AbsolutePathBuf \<Rightarrow> string \<Rightarrow> bool" where
  "patch_path_writable env policy cwd p =
    can_write_path_with_cwd env policy (normalize_lexical (resolve_path (display cwd) p)) (display cwd)"

definition is_write_patch_constrained_to_writable_paths ::
  "path_env \<Rightarrow> ApplyPatchAction \<Rightarrow> FileSystemSandboxPolicy \<Rightarrow> AbsolutePathBuf \<Rightarrow> bool" where
  "is_write_patch_constrained_to_writable_paths env action policy cwd =
    list_all (\<lambda>(path, change).
      case change of
        UpdateChange _ (Some dest) _ \<Rightarrow> patch_path_writable env policy cwd path \<and> patch_path_writable env policy cwd dest
      | _ \<Rightarrow> patch_path_writable env policy cwd path) (action_changes action)"

definition patch_rejection_reason :: "path_env \<Rightarrow> PermissionProfile \<Rightarrow> FileSystemSandboxPolicy \<Rightarrow> AbsolutePathBuf \<Rightarrow> string" where
  "patch_rejection_reason env profile policy cwd =
    (case profile of
       Managed _ _ \<Rightarrow>
         if \<not> has_full_disk_write_access policy \<and> get_writable_roots_with_cwd env policy (display cwd) = []
         then PATCH_REJECTED_READ_ONLY_REASON
         else PATCH_REJECTED_OUTSIDE_PROJECT_REASON
     | _ \<Rightarrow> PATCH_REJECTED_OUTSIDE_PROJECT_REASON)"

definition rejects_sandbox_approval :: "AskForApproval \<Rightarrow> bool" where
  "rejects_sandbox_approval approval_policy =
    (case approval_policy of Never \<Rightarrow> True | Granular granular_config \<Rightarrow> \<not> sandbox_approval granular_config | _ \<Rightarrow> False)"

definition assess_patch_safety ::
  "target_os \<Rightarrow> path_env \<Rightarrow> ApplyPatchAction \<Rightarrow> AskForApproval \<Rightarrow> PermissionProfile \<Rightarrow> FileSystemSandboxPolicy \<Rightarrow>
   AbsolutePathBuf \<Rightarrow> WindowsSandboxLevel \<Rightarrow> SafetyCheck" where
  "assess_patch_safety os env action approval_policy profile policy cwd level =
    (if action_changes action = [] then Reject ''empty patch''
     else if approval_policy = UnlessTrusted then AskUser
     else if is_write_patch_constrained_to_writable_paths env action policy cwd \<or> approval_policy = OnFailure then
       (case profile of
          Managed _ _ \<Rightarrow>
            (case get_platform_sandbox os (level \<noteq> LevelDisabled) of
               Some sandbox_type \<Rightarrow> AutoApprove sandbox_type False
             | None \<Rightarrow>
                 if rejects_sandbox_approval approval_policy then Reject (patch_rejection_reason env profile policy cwd)
                 else AskUser)
        | _ \<Rightarrow> AutoApprove SandboxNone False)
     else if rejects_sandbox_approval approval_policy then Reject (patch_rejection_reason env profile policy cwd)
     else AskUser)"

section \<open>Delegation to the runtime\<close>

datatype FunctionCallError = RespondToModel string | MissingLocalShellCallId | Fatal string

record ApplyPatchRuntimeInvocation =
  rt_action :: ApplyPatchAction
  rt_auto_approved :: bool
  rt_exec_approval_requirement :: ExecApprovalRequirement

datatype InternalApplyPatchInvocation =
    Output "(FunctionCallError, string) result"
  | DelegateToRuntime ApplyPatchRuntimeInvocation

text \<open>The fields of the turn that the decision reads.\<close>

record patch_turn =
  turn_approval_policy :: AskForApproval
  turn_permission_profile :: PermissionProfile
  turn_cwd :: AbsolutePathBuf
  turn_windows_sandbox_level :: WindowsSandboxLevel

definition core_apply_patch ::
  "target_os \<Rightarrow> path_env \<Rightarrow> patch_turn \<Rightarrow> FileSystemSandboxPolicy \<Rightarrow> ApplyPatchAction \<Rightarrow> InternalApplyPatchInvocation" where
  "core_apply_patch os env turn policy action =
    (case assess_patch_safety os env action (turn_approval_policy turn) (turn_permission_profile turn) policy
            (turn_cwd turn) (turn_windows_sandbox_level turn) of
       AutoApprove _ explicitly \<Rightarrow>
         DelegateToRuntime \<lparr>rt_action = action, rt_auto_approved = (\<not> explicitly),
           rt_exec_approval_requirement = Skip False None\<rparr>
     | AskUser \<Rightarrow>
         DelegateToRuntime \<lparr>rt_action = action, rt_auto_approved = False,
           rt_exec_approval_requirement = NeedsApproval None None\<rparr>
     | Reject reason \<Rightarrow> Output (Err (RespondToModel (''patch rejected: '' @ reason))))"

text \<open>The tool handler on the patch it is given, and the interception of patches in shell commands (a result
  of \<open>None\<close> runs the command as it is), up to the delegation; a session may lack an environment with a
  file system.  The file system policy is the one of the
  turn extended by granted permissions.\<close>

definition handle_patch_input ::
  "target_os \<Rightarrow> path_env \<Rightarrow> heredoc_query \<Rightarrow> (string \<Rightarrow> string \<Rightarrow> string) \<Rightarrow> 'fs ExecutorFileSystem option \<Rightarrow> string option \<Rightarrow> 'fs \<Rightarrow>
   patch_turn \<Rightarrow> FileSystemSandboxPolicy \<Rightarrow> string \<Rightarrow> (FunctionCallError, InternalApplyPatchInvocation) result" where
  "handle_patch_input os env query diff primary home s turn policy patch_input =
    (case primary of
       None \<Rightarrow> Err (RespondToModel ''apply_patch is unavailable in this session'')
     | Some fs \<Rightarrow>
         (case maybe_parse_apply_patch_verified query diff fs home s [''apply_patch'', patch_input] (turn_cwd turn) of
            VerifiedBody changes \<Rightarrow> Ok (core_apply_patch os env turn policy changes)
          | CorrectnessError e \<Rightarrow> Err (RespondToModel (''apply_patch verification failed: '' @ patch_error_str e))
          | VerifiedShellParseError _ \<Rightarrow> Err (RespondToModel ''apply_patch handler received invalid patch input'')
          | VerifiedNotApplyPatch \<Rightarrow> Err (RespondToModel ''apply_patch handler received non-apply_patch input'')))"

definition intercept_apply_patch ::
  "target_os \<Rightarrow> path_env \<Rightarrow> heredoc_query \<Rightarrow> (string \<Rightarrow> string \<Rightarrow> string) \<Rightarrow> 'fs ExecutorFileSystem \<Rightarrow> string option \<Rightarrow> 'fs \<Rightarrow>
   patch_turn \<Rightarrow> FileSystemSandboxPolicy \<Rightarrow> string list \<Rightarrow> AbsolutePathBuf \<Rightarrow>
   (FunctionCallError, InternalApplyPatchInvocation option) result" where
  "intercept_apply_patch os env query diff fs home s turn policy command cwd =
    (case maybe_parse_apply_patch_verified query diff fs home s command cwd of
       VerifiedBody changes \<Rightarrow> Ok (Some (core_apply_patch os env turn policy changes))
     | CorrectnessError e \<Rightarrow> Err (RespondToModel (''apply_patch verification failed: '' @ patch_error_str e))
     | VerifiedShellParseError _ \<Rightarrow> Ok None
     | VerifiedNotApplyPatch \<Rightarrow> Ok None)"

text \<open>The runtime applies the patch text of the action in its directory.\<close>

definition run_patch ::
  "'fs ExecutorFileSystem \<Rightarrow> string option \<Rightarrow> 'fs \<Rightarrow> ApplyPatchRuntimeInvocation \<Rightarrow> 'fs \<times> string \<times> string \<times> int" where
  "run_patch fs home s invocation =
    (case apply_patch fs home (action_cwd (rt_action invocation)) s (action_patch (rt_action invocation)) [] [] of
       (s', stdout, stderr, result) \<Rightarrow> (s', stdout, stderr, (case result of Ok _ \<Rightarrow> 0 | Err _ \<Rightarrow> 1)))"

section \<open>What is shown of the changes\<close>

datatype FileChange = FileAdd string | FileDelete string | FileUpdate string "string option"

fun protocol_change :: "ApplyPatchFileChange \<Rightarrow> FileChange" where
  "protocol_change (AddChange content) = FileAdd content"
| "protocol_change (DeleteChange content) = FileDelete content"
| "protocol_change (UpdateChange diff dest _) = FileUpdate diff dest"

text \<open>Inserting into a hash map keyed by \<open>PathBuf\<close>s, which are equal when their components are.\<close>

fun path_insert :: "string \<Rightarrow> 'v \<Rightarrow> (string \<times> 'v) list \<Rightarrow> (string \<times> 'v) list" where
  "path_insert k v [] = [(k, v)]"
| "path_insert k v ((k', v') # xs) = (if path_eq k k' then (k', v) # xs else (k', v') # path_insert k v xs)"

definition convert_apply_patch_to_protocol :: "ApplyPatchAction \<Rightarrow> (string \<times> FileChange) list" where
  "convert_apply_patch_to_protocol action =
    foldl (\<lambda>result (path, change). path_insert path (protocol_change change) result) [] (action_changes action)"

definition to_abs_path :: "string option \<Rightarrow> AbsolutePathBuf \<Rightarrow> string \<Rightarrow> AbsolutePathBuf option" where
  "to_abs_path home cwd path = Some (resolve_abs home cwd path)"

definition file_paths_for_action :: "string option \<Rightarrow> ApplyPatchAction \<Rightarrow> AbsolutePathBuf list" where
  "file_paths_for_action home action =
    concat (map (\<lambda>(path, change).
      (case to_abs_path home (action_cwd action) path of Some key \<Rightarrow> [key] | None \<Rightarrow> []) @
      (case change of
         UpdateChange _ (Some dest) _ \<Rightarrow> (case to_abs_path home (action_cwd action) dest of Some key \<Rightarrow> [key] | None \<Rightarrow> [])
       | _ \<Rightarrow> [])) (action_changes action))"

definition chunk_progress :: "UpdateFileChunk \<Rightarrow> string" where
  "chunk_progress chunk =
    (case change_context chunk of Some context \<Rightarrow> ''@@ '' @ context @ [LF] | None \<Rightarrow> ''@@'' @ [LF]) @
    concat (map (\<lambda>line. ''-'' @ line @ [LF]) (old_lines chunk)) @
    concat (map (\<lambda>line. ''+'' @ line @ [LF]) (new_lines chunk)) @
    (if is_end_of_file chunk then ''*** End of File'' @ [LF] else [])"

definition format_update_chunks_for_progress :: "UpdateFileChunk list \<Rightarrow> string" where
  "format_update_chunks_for_progress chunks = concat (map chunk_progress chunks)"

fun hunk_change :: "Hunk \<Rightarrow> FileChange" where
  "hunk_change (AddFile _ contents) = FileAdd contents"
| "hunk_change (DeleteFile _) = FileDelete []"
| "hunk_change (UpdateFile _ dest chunks) = FileUpdate (format_update_chunks_for_progress chunks) dest"

definition convert_apply_patch_hunks_to_protocol :: "Hunk list \<Rightarrow> (string \<times> FileChange) list" where
  "convert_apply_patch_hunks_to_protocol hs =
    foldl (\<lambda>result hunk. path_insert (hunk_source_path hunk) (hunk_change hunk) result) [] hs"

section \<open>Progress events\<close>

text \<open>Times are milliseconds of a monotonic clock.\<close>

definition APPLY_PATCH_ARGUMENT_DIFF_BUFFER_INTERVAL :: nat where
  "APPLY_PATCH_ARGUMENT_DIFF_BUFFER_INTERVAL = 500"

type_synonym PatchApplyUpdatedEvent = "string \<times> (string \<times> FileChange) list"

record ApplyPatchArgumentDiffConsumer =
  consumer_parser :: StreamingPatchParser
  last_sent_at :: "nat option"
  pending_event :: "PatchApplyUpdatedEvent option"

definition consumer_default :: ApplyPatchArgumentDiffConsumer where
  "consumer_default = \<lparr>consumer_parser = streaming_default, last_sent_at = None, pending_event = None\<rparr>"

definition consumer_push_delta ::
  "ApplyPatchArgumentDiffConsumer \<Rightarrow> string \<Rightarrow> string \<Rightarrow> nat \<Rightarrow> ApplyPatchArgumentDiffConsumer \<times> PatchApplyUpdatedEvent option" where
  "consumer_push_delta c call_id delta now =
    (case push_delta (consumer_parser c) delta of
       (p, Err _) \<Rightarrow> (c\<lparr>consumer_parser := p\<rparr>, None)
     | (p, Ok hs) \<Rightarrow>
         (let c = c\<lparr>consumer_parser := p\<rparr> in
          if hs = [] then (c, None)
          else
            (let event = (call_id, convert_apply_patch_hunks_to_protocol hs);
                 throttled = (case last_sent_at c of
                    Some sent \<Rightarrow> now - sent < APPLY_PATCH_ARGUMENT_DIFF_BUFFER_INTERVAL
                  | None \<Rightarrow> False) in
             if throttled then (c\<lparr>pending_event := Some event\<rparr>, None)
             else (c\<lparr>pending_event := None, last_sent_at := Some now\<rparr>, Some event))))"

definition finish_update_on_complete ::
  "ApplyPatchArgumentDiffConsumer \<Rightarrow> nat \<Rightarrow>
   ApplyPatchArgumentDiffConsumer \<times> (FunctionCallError, PatchApplyUpdatedEvent option) result" where
  "finish_update_on_complete c now =
    (case finish (consumer_parser c) of
       (p, Err e) \<Rightarrow> (c\<lparr>consumer_parser := p\<rparr>, Err (RespondToModel (''failed to parse apply_patch: '' @ patch_error_str (PatchParseError e))))
     | (p, Ok _) \<Rightarrow>
         (let c = c\<lparr>consumer_parser := p\<rparr>; event = pending_event c in
          (c\<lparr>pending_event := None, last_sent_at := (if event \<noteq> None then Some now else last_sent_at c)\<rparr>, Ok event)))"

text \<open>Feeding timed deltas: the consumer and the events sent, with their times.\<close>

definition consumer_run ::
  "string \<Rightarrow> (string \<times> nat) list \<Rightarrow> ApplyPatchArgumentDiffConsumer \<times> (nat \<times> PatchApplyUpdatedEvent) list" where
  "consumer_run call_id deltas =
    foldl (\<lambda>(c, sent) (delta, now).
      case consumer_push_delta c call_id delta now of
        (c', event) \<Rightarrow> (c', sent @ (case event of Some e \<Rightarrow> [(now, e)] | None \<Rightarrow> []))) (consumer_default, []) deltas"

section \<open>Normal paths\<close>

lemma display_absolute: "is_absolute (display p)"
  by (simp add: display_def path_str_root)

lemma resolve_abs_names: "\<forall>n\<in>set (resolve_abs home cwd p). name_ok n"
proof -
  from resolved_normal [OF display_absolute] obtain cs where cs: "normal_abs cs" "resolve_path_against_base home p (display cwd) = path_str cs"
    by blast
  then obtain ns where "cs = RootDir # map Normal ns" "\<forall>n\<in>set ns. name_ok n" by (auto simp: normal_abs_def)
  with cs show ?thesis by (simp add: resolve_abs_def path_names_def components_path_str comp_def)
qed

lemma writable_display:
  assumes "\<forall>n\<in>set q. name_ok n"
  shows "patch_path_writable env policy cwd (display q) = can_write_path_with_cwd env policy (display q) (display cwd)"
proof -
  have n: "normal_abs (RootDir # map Normal q)" using assms by (auto simp: normal_abs_def)
  have "foldl normalize_step [] (RootDir # map Normal q) = RootDir # map Normal q"
    by (simp add: pathbuf_push_def foldl_normalize_normal)
  then have "normalize_lexical (display q) = display q" by (simp add: normalize_lexical_def display_def components_path_str [OF n])
  then show ?thesis by (simp add: patch_path_writable_def resolve_path_def display_absolute)
qed

section \<open>Verdicts\<close>

lemma constrained_change:
  assumes "is_write_patch_constrained_to_writable_paths env action policy cwd" "map_of (action_changes action) path = Some c"
  shows "patch_path_writable env policy cwd path \<and> (\<forall>dest. change_dest c = Some dest \<longrightarrow> patch_path_writable env policy cwd dest)"
proof -
  from map_of_SomeD [OF assms(2)] assms(1) show ?thesis
    by (cases c) (auto simp: is_write_patch_constrained_to_writable_paths_def list_all_iff split: option.splits dest!: bspec)
qed

lemma auto_approved_constrained:
  assumes "assess_patch_safety os env action approval profile policy cwd level = AutoApprove sandbox b" "approval \<noteq> OnFailure"
  shows "is_write_patch_constrained_to_writable_paths env action policy cwd"
  using assms by (auto simp: assess_patch_safety_def split: if_splits)

lemma intercepted:
  assumes "intercept_apply_patch os env query diff fs home s turn policy command cwd = Ok (Some (DelegateToRuntime invocation))"
    and "rt_auto_approved invocation"
  shows "maybe_parse_apply_patch_verified query diff fs home s command cwd = VerifiedBody (rt_action invocation) \<and>
    (\<exists>sandbox b. assess_patch_safety os env (rt_action invocation) (turn_approval_policy turn) (turn_permission_profile turn) policy
      (turn_cwd turn) (turn_windows_sandbox_level turn) = AutoApprove sandbox b)"
  using assms by (auto simp: intercept_apply_patch_def core_apply_patch_def split: MaybeApplyPatchVerified.splits SafetyCheck.splits)

text \<open>What the tool handler delegates, the interception delegates for the corresponding command.\<close>

lemma handled_intercepted:
  "handle_patch_input os env query diff (Some fs) home s turn policy patch_input = Ok invocation \<Longrightarrow>
    intercept_apply_patch os env query diff fs home s turn policy [''apply_patch'', patch_input] (turn_cwd turn) = Ok (Some invocation)"
  by (auto simp: handle_patch_input_def intercept_apply_patch_def split: MaybeApplyPatchVerified.splits)

lemma constrained_hunk:
  assumes "changes_loop diff fs home dir s hs [] = Ok (action_changes action)"
    and "distinct (map (\<lambda>h. display (hunk_resolve_path home dir h)) hs)" "h \<in> set hs"
    and "is_write_patch_constrained_to_writable_paths env action policy cwd" "q \<in> touched home dir h"
  shows "can_write_path_with_cwd env policy (display q) (display cwd)"
proof -
  from changes_loop_hunk [OF assms(1,3,2)] obtain c where
    c: "map_of (action_changes action) (display (hunk_resolve_path home dir h)) = Some c"
       "change_dest c = map_option (\<lambda>p. display (resolve_abs home dir p)) (hunk_dest h)" by blast
  have "\<forall>n\<in>set (hunk_resolve_path home dir h). name_ok n" using resolve_abs_names by (cases h) auto
  with constrained_change [OF assms(4) c(1)] c(2) assms(5) resolve_abs_names show ?thesis
    by (auto simp: touched_dest writable_display)
qed

section \<open>Properties\<close>

text \<open>C2: Under every approval policy but \<open>OnFailure\<close>, which approves every patch whatever its paths, a patch
  found in a command and approved without asking writes nothing outside what the sandbox policy allows:
  a file whose content the runtime changes when it applies the patch lies at a path the policy lets the
  agent write.  The file system may have changed since the verification.  The hunks name different files
  and the patch has no carriage returns; see the counterexample below for hunks on the same file.\<close>

theorem auto_approved_patch_confined:
  assumes "intercept_apply_patch os env query diff fs home s turn policy command cwd = Ok (Some (DelegateToRuntime invocation))"
    and "rt_auto_approved invocation" "turn_approval_policy turn \<noteq> OnFailure"
    and "CR \<notin> set (action_patch (rt_action invocation))"
    and "\<forall>args. parse_patch (action_patch (rt_action invocation)) = Ok args \<longrightarrow>
      distinct (map (\<lambda>h. display (hunk_resolve_path home (action_cwd (rt_action invocation)) h)) (args_hunks args))"
    and "tree_files (fst (run_patch direct_fs home t invocation)) q \<noteq> tree_files t q"
  shows "can_write_path_with_cwd env policy (display q) (display (turn_cwd turn))"
proof -
  let ?action = "rt_action invocation"
  from intercepted [OF assms(1,2)] assms(3) have verified: "maybe_parse_apply_patch_verified query diff fs home s command cwd = VerifiedBody ?action"
    and ok: "is_write_patch_constrained_to_writable_paths env ?action policy (turn_cwd turn)"
    by (auto dest: auto_approved_constrained)
  from verified_reparse [OF verified assms(4)] obtain args where args: "parse_patch (action_patch ?action) = Ok args"
    "changes_loop diff fs home (action_cwd ?action) s (args_hunks args) [] = Ok (action_changes ?action)" by blast
  have "\<not> (\<forall>args. parse_patch (action_patch ?action) = Ok args \<longrightarrow> (\<forall>h\<in>set (args_hunks args). q \<notin> touched home (action_cwd ?action) h))"
    using direct.apply_patch_frame [of "action_patch ?action" q home "action_cwd ?action" t "[]" "[]"] assms(6)
    by (auto simp: run_patch_def split: prod.splits)
  then obtain h where "h \<in> set (args_hunks args)" "q \<in> touched home (action_cwd ?action) h" using args(1) by auto
  then show ?thesis using constrained_hunk [OF args(2) _ _ ok] assms(5) args(1) by blast
qed

definition sample_turn :: "AskForApproval \<Rightarrow> patch_turn" where
  "sample_turn approval = \<lparr>turn_approval_policy = approval, turn_permission_profile = Managed (ManagedRestricted [] None) NetRestricted,
    turn_cwd = [''r''], turn_windows_sandbox_level = LevelDisabled\<rparr>"

definition workspace_policy :: FileSystemSandboxPolicy where
  "workspace_policy = restricted [entry (PathEntry ''/r'') AccessWrite]"

definition sample_action :: ApplyPatchAction where
  "sample_action = \<lparr>action_changes = [(''/r/a'', UpdateChange [] (Some ''/r/d/b'') (''y'' @ [LF]))],
    action_patch = sample_patch, action_cwd = [''r'']\<rparr>"

definition no_heredocs :: heredoc_query where
  "no_heredocs src = Ok []"

lemma sample_verified:
  "maybe_parse_apply_patch_verified no_heredocs (\<lambda>_ _. []) direct_fs None sample_tree [''apply_patch'', sample_patch] [''r''] =
    VerifiedBody sample_action"
  by code_simp

definition sample_invocation :: ApplyPatchRuntimeInvocation where
  "sample_invocation = \<lparr>rt_action = sample_action, rt_auto_approved = True, rt_exec_approval_requirement = Skip False None\<rparr>"

lemma sample_approved: "core_apply_patch Linux plain_env (sample_turn OnRequest) workspace_policy sample_action = DelegateToRuntime sample_invocation"
  by code_simp

lemma sample_intercepted:
  "intercept_apply_patch Linux plain_env no_heredocs (\<lambda>_ _. []) direct_fs None sample_tree (sample_turn OnRequest) workspace_policy
    [''apply_patch'', sample_patch] [''r''] = Ok (Some (DelegateToRuntime sample_invocation))"
  by (simp add: intercept_apply_patch_def sample_verified sample_approved)

theorem auto_approved_patch_confined_witness:
  "can_write_path_with_cwd plain_env workspace_policy ''/r/d/b'' ''/r''"
proof -
  have side: "rt_auto_approved sample_invocation" "turn_approval_policy (sample_turn OnRequest) \<noteq> OnFailure"
    "CR \<notin> set (action_patch (rt_action sample_invocation))" by code_simp+
  have shown: "display [''r'', ''d'', ''b''] = ''/r/d/b''" "display (turn_cwd (sample_turn OnRequest)) = ''/r''" by code_simp+
  have one: "\<forall>args. parse_patch (action_patch (rt_action sample_invocation)) = Ok args \<longrightarrow>
      distinct (map (\<lambda>h. display (hunk_resolve_path None (action_cwd (rt_action sample_invocation)) h)) (args_hunks args))"
    by (simp add: sample_invocation_def sample_action_def sample_patch_parses)
  have "tree_files sample_tree [''r'', ''d'', ''b''] = None" "tree_files sample_tree' [''r'', ''d'', ''b''] = Some (''y'' @ [LF])" by code_simp+
  then have "tree_files (fst (run_patch direct_fs None sample_tree sample_invocation)) [''r'', ''d'', ''b''] \<noteq> tree_files sample_tree [''r'', ''d'', ''b'']"
    by (simp add: run_patch_def sample_invocation_def sample_action_def sample_patch_applies)
  from auto_approved_patch_confined [OF sample_intercepted side one this] show ?thesis by (simp add: shown)
qed

text \<open>Two hunks on one path share an entry of the changes, and the later one replaces the earlier: the
  target of the move is not checked, though applying the patch writes it.\<close>

definition shadowing_patch :: string where
  "shadowing_patch = join_with [LF]
    [''*** Begin Patch'', ''*** Update File: a'', ''*** Move to: /b'', ''@@'', ''-x'', ''+y'', ''*** Add File: a'', ''+z'', ''*** End Patch'']"

definition shadowing_action :: ApplyPatchAction where
  "shadowing_action = \<lparr>action_changes = [(''/r/a'', AddChange (''z'' @ [LF]))], action_patch = shadowing_patch, action_cwd = [''r'']\<rparr>"

lemma shadowed_move_not_checked:
  "maybe_parse_apply_patch_verified no_heredocs (\<lambda>_ _. []) direct_fs None sample_tree [''apply_patch'', shadowing_patch] [''r''] =
     VerifiedBody shadowing_action"
  "assess_patch_safety Linux plain_env shadowing_action OnRequest (Managed (ManagedRestricted [] None) NetRestricted) workspace_policy
     [''r''] LevelDisabled = AutoApprove LinuxSeccomp False"
  "\<not> can_write_path_with_cwd plain_env workspace_policy ''/b'' ''/r''"
  "tree_files (fst (apply_patch direct_fs None [''r''] sample_tree shadowing_patch [] [])) [''b''] = Some (''y'' @ [LF])"
  by code_simp+

text \<open>The verdict respects the settings: the user is never asked when the approval policy rules asking
  out; only a nonempty patch is approved without asking, never when only trusted commands are, only
  when its paths are writable or failures are to be escalated, and under a managed profile only to run in
  the sandbox of the platform.\<close>

theorem patch_verdict_respects_settings:
  assumes "outcome = assess_patch_safety os env action approval profile policy cwd level"
  shows "(outcome = AskUser \<longrightarrow> approval \<noteq> Never \<and> (\<forall>g. approval = Granular g \<longrightarrow> sandbox_approval g)) \<and>
    (\<forall>sandbox explicitly. outcome = AutoApprove sandbox explicitly \<longrightarrow> action_changes action \<noteq> [] \<and> approval \<noteq> UnlessTrusted \<and>
      (is_write_patch_constrained_to_writable_paths env action policy cwd \<or> approval = OnFailure) \<and>
      (\<forall>m net. profile = Managed m net \<longrightarrow> get_platform_sandbox os (level \<noteq> LevelDisabled) = Some sandbox))"
  unfolding assms
  by (auto simp: assess_patch_safety_def rejects_sandbox_approval_def
      split: if_splits AskForApproval.splits PermissionProfile.splits option.splits)

lemma sample_verdict: "AutoApprove LinuxSeccomp False = assess_patch_safety Linux plain_env sample_action OnRequest
    (Managed (ManagedRestricted [] None) NetRestricted) workspace_policy [''r''] LevelDisabled"
  by code_simp

theorem patch_verdict_respects_settings_witness:
  "is_write_patch_constrained_to_writable_paths plain_env sample_action workspace_policy [''r''] \<and> get_platform_sandbox Linux False = Some LinuxSeccomp"
  using patch_verdict_respects_settings [OF sample_verdict, THEN conjunct2, rule_format, OF refl] by simp

lemma push_delta_append:
  "snd (push_delta p (a @ b)) = Ok hs \<Longrightarrow>
    \<exists>p' hs'. push_delta p a = (p', Ok hs') \<and> push_delta p' b = (fst (push_delta p (a @ b)), Ok hs) \<and> hs' = hunks p'"
  by (auto simp: push_delta_def push_chars_append split: prod.splits option.splits)

definition progress_inv :: "string \<Rightarrow> ApplyPatchArgumentDiffConsumer \<Rightarrow> (nat \<times> PatchApplyUpdatedEvent) list \<Rightarrow> Hunk list \<Rightarrow> bool" where
  "progress_inv call_id c sent hs \<longleftrightarrow>
    last_sent_at c = (if sent = [] then None else Some (fst (last sent))) \<and>
    sorted_wrt (\<lambda>a b. fst a + APPLY_PATCH_ARGUMENT_DIFF_BUFFER_INTERVAL \<le> fst b) sent \<and>
    (hs \<noteq> [] \<longrightarrow> (case pending_event c of
       Some e \<Rightarrow> e = (call_id, convert_apply_patch_hunks_to_protocol hs)
     | None \<Rightarrow> sent \<noteq> [] \<and> snd (last sent) = (call_id, convert_apply_patch_hunks_to_protocol hs)))"

lemma progress_push:
  assumes "progress_inv call_id c sent (hunks (consumer_parser c))" "push_delta (consumer_parser c) delta = (p, Ok hs)"
    "consumer_push_delta c call_id delta now = (c', event)"
  shows "consumer_parser c' = p \<and> progress_inv call_id c' (sent @ (case event of Some e \<Rightarrow> [(now, e)] | None \<Rightarrow> [])) hs"
proof -
  have far: "\<forall>a\<in>set sent. fst a + APPLY_PATCH_ARGUMENT_DIFF_BUFFER_INTERVAL \<le> t"
    if "sent \<noteq> []" "\<not> t - fst (last sent) < APPLY_PATCH_ARGUMENT_DIFF_BUFFER_INTERVAL" for t
  proof
    fix a assume "a \<in> set sent"
    moreover have "sorted_wrt (\<lambda>a b. fst a + APPLY_PATCH_ARGUMENT_DIFF_BUFFER_INTERVAL \<le> fst b) (butlast sent @ [last sent])"
      using assms(1) that(1) by (simp add: progress_inv_def)
    moreover have "set sent = insert (last sent) (set (butlast sent))" using that(1) by (metis append_butlast_last_id list.simps(15) rotate1.simps(2) set_rotate1)
    ultimately show "fst a + APPLY_PATCH_ARGUMENT_DIFF_BUFFER_INTERVAL \<le> t"
      using that(2) by (auto simp: sorted_wrt_append APPLY_PATCH_ARGUMENT_DIFF_BUFFER_INTERVAL_def)
  qed
  show ?thesis
    using assms far [of now]
    by (auto simp: consumer_push_delta_def progress_inv_def Let_def sorted_wrt_append split: if_splits option.splits dest!: bspec)
qed

lemma consumer_run_snoc:
  "consumer_run call_id (ds @ [(delta, now)]) =
    (case consumer_run call_id ds of (c, sent) \<Rightarrow>
      case consumer_push_delta c call_id delta now of
        (c', event) \<Rightarrow> (c', sent @ (case event of Some e \<Rightarrow> [(now, e)] | None \<Rightarrow> [])))"
  by (simp add: consumer_run_def split: prod.splits)

lemma consumer_run_inv:
  assumes "snd (push_delta streaming_default (concat (map fst deltas))) = Ok hs" "consumer_run call_id deltas = (c, sent)"
  shows "push_delta streaming_default (concat (map fst deltas)) = (consumer_parser c, Ok (hunks (consumer_parser c))) \<and>
    progress_inv call_id c sent (hunks (consumer_parser c))"
  using assms
proof (induction deltas arbitrary: hs c sent rule: rev_induct)
  case Nil
  then show ?case by (auto simp: consumer_run_def consumer_default_def push_delta_def progress_inv_def streaming_default_def)
next
  case (snoc d ds)
  obtain delta now where d: "d = (delta, now)" by (cases d)
  obtain c1 sent1 where run: "consumer_run call_id ds = (c1, sent1)" by (cases "consumer_run call_id ds")
  obtain c2 event where push: "consumer_push_delta c1 call_id delta now = (c2, event)" by (cases "consumer_push_delta c1 call_id delta now")
  from push_delta_append [of streaming_default "concat (map fst ds)" delta hs] snoc.prems(1) d obtain p hs' where
    p: "push_delta streaming_default (concat (map fst ds)) = (p, Ok hs')"
       "push_delta p delta = (fst (push_delta streaming_default (concat (map fst ds) @ delta)), Ok hs)" by auto
  from snoc.IH [OF _ run] p(1) have IH: "p = consumer_parser c1" "progress_inv call_id c1 sent1 (hunks (consumer_parser c1))" by auto
  have c: "c = c2" "sent = sent1 @ (case event of Some e \<Rightarrow> [(now, e)] | None \<Rightarrow> [])"
    using snoc.prems(2) run push d by (auto simp: consumer_run_snoc)
  from progress_push [OF IH(2) p(2) [unfolded IH(1)] push] p(2) snoc.prems(1) d c show ?case
    by (auto simp: push_delta_def split: prod.splits option.splits)
qed

text \<open>C36: Progress on a streamed patch is throttled but not lost: the events sent while the deltas arrive are at
  least half a second apart, and when the stream ends successfully what is held back is sent at once, so
  that the last event shows all hunks the parser has read.  The final event itself is not throttled.\<close>

theorem progress_throttled_not_lost:
  assumes "snd (push_delta streaming_default (concat (map fst deltas))) = Ok hs" "hs \<noteq> []"
    and "consumer_run call_id deltas = (c, sent)" "finish_update_on_complete c now = (c', Ok event)"
  shows "sorted_wrt (\<lambda>a b. fst a + APPLY_PATCH_ARGUMENT_DIFF_BUFFER_INTERVAL \<le> fst b) sent \<and>
    last (map snd sent @ (case event of Some e \<Rightarrow> [e] | None \<Rightarrow> [])) = (call_id, convert_apply_patch_hunks_to_protocol hs)"
proof -
  from consumer_run_inv [OF assms(1,3)] assms(1) have "progress_inv call_id c sent hs" by simp
  moreover have "event = pending_event c" using assms(4) by (auto simp: finish_update_on_complete_def Let_def split: prod.splits sum.splits)
  ultimately show ?thesis using assms(2) by (auto simp: progress_inv_def last_map split: option.splits)
qed

definition streamed_deltas :: "(string \<times> nat) list" where
  "streamed_deltas =
    [(''*** Begin Patch'' @ [LF] @ ''*** Delete File: a'' @ [LF], 100), (''*** Delete File: b'' @ [LF], 300),
     (''*** Delete File: c'' @ [LF], 700), (''*** Delete File: d'' @ [LF] @ ''*** End Patch'' @ [LF], 900)]"

text \<open>Four deltas: two events are sent on the way, and the fourth file is shown at the end.\<close>

theorem progress_throttled_not_lost_witness:
  "length (snd (consumer_run ''id'' streamed_deltas)) = 2 \<and>
   sorted_wrt (\<lambda>a b. fst a + APPLY_PATCH_ARGUMENT_DIFF_BUFFER_INTERVAL \<le> fst b) (snd (consumer_run ''id'' streamed_deltas)) \<and>
   last (map snd (snd (consumer_run ''id'' streamed_deltas)) @
    (case snd (finish_update_on_complete (fst (consumer_run ''id'' streamed_deltas)) 950) of Ok (Some e) \<Rightarrow> [e] | _ \<Rightarrow> [])) =
   (''id'', [(''a'', FileDelete []), (''b'', FileDelete []), (''c'', FileDelete []), (''d'', FileDelete [])])"
proof -
  let ?run = "consumer_run ''id'' streamed_deltas"
  let ?event = "(''id'', [(''a'', FileDelete []), (''b'', FileDelete []), (''c'', FileDelete []), (''d'', FileDelete [])])"
  let ?hs = "[DeleteFile ''a'', DeleteFile ''b'', DeleteFile ''c'', DeleteFile ''d'']"
  have hs: "snd (push_delta streaming_default (concat (map fst streamed_deltas))) = Ok ?hs" by code_simp
  have len: "length (snd ?run) = 2" by code_simp
  have fin: "snd (finish_update_on_complete (fst ?run) 950) = Ok (Some ?event)" by code_simp
  have shown: "convert_apply_patch_hunks_to_protocol ?hs = snd ?event" by code_simp
  have "finish_update_on_complete (fst ?run) 950 = (fst (finish_update_on_complete (fst ?run) 950), Ok (Some ?event))"
    using fin by (cases "finish_update_on_complete (fst ?run) 950") simp
  from progress_throttled_not_lost [OF hs _ _ this] len show ?thesis by (simp add: fin shown prod_eq_iff)
qed

end
