(* ===== verification/Permission_Grants.thy ===== *)
theory Permission_Grants
  imports Exec_Approval
begin

text \<open>
  Additional permissions (sandboxing/src/policy_transforms.rs, the grants of core/src/session/mod.rs and
  core/src/tools/handlers/mod.rs): normalisation of a request, the part of an answer that stays within the
  request, accumulation of grants in the turn and the session, the effective policy of a command, and
  the test whether a command asks for nothing new.  Glob patterns are compiled by the \<open>globset\<close>
  package, which is a parameter.  A depth of a \<open>FileSystemPermissions\<close> is positive in the source.
\<close>

section \<open>Permissions\<close>

record FileSystemPermissions =
  fp_entries :: "FileSystemSandboxEntry list"
  fp_glob_scan_max_depth :: "nat option"

record NetworkPermissions =
  net_enabled :: "bool option"

record AdditionalPermissionProfile =
  ap_network :: "NetworkPermissions option"
  ap_file_system :: "FileSystemPermissions option"

definition file_system_is_empty :: "FileSystemPermissions \<Rightarrow> bool" where
  "file_system_is_empty fp \<longleftrightarrow> fp_entries fp = []"

definition network_is_empty :: "NetworkPermissions \<Rightarrow> bool" where
  "network_is_empty n \<longleftrightarrow> net_enabled n = None"

definition profile_is_empty :: "AdditionalPermissionProfile \<Rightarrow> bool" where
  "profile_is_empty ap \<longleftrightarrow> ap_network ap = None \<and> ap_file_system ap = None"

definition from_read_write_roots :: "string list option \<Rightarrow> string list option \<Rightarrow> FileSystemPermissions" where
  "from_read_write_roots read write =
    \<lparr>fp_entries =
       map (\<lambda>path. entry (PathEntry path) AccessRead) (case read of Some r \<Rightarrow> r | None \<Rightarrow> []) @
       map (\<lambda>path. entry (PathEntry path) AccessWrite) (case write of Some w \<Rightarrow> w | None \<Rightarrow> []),
     fp_glob_scan_max_depth = None\<rparr>"

text \<open>\<open>Option::filter\<close>, and pushing what a vector does not contain.\<close>

definition option_filter :: "('a \<Rightarrow> bool) \<Rightarrow> 'a option \<Rightarrow> 'a option" where
  "option_filter P x = (case x of Some v \<Rightarrow> if P v then Some v else None | None \<Rightarrow> None)"

definition push_missing :: "FileSystemSandboxEntry list \<Rightarrow> FileSystemSandboxEntry \<Rightarrow> FileSystemSandboxEntry list" where
  "push_missing entries e = (if list_ex (\<lambda>x. entry_eq x e) entries then entries else entries @ [e])"

definition add_missing :: "FileSystemSandboxEntry list \<Rightarrow> FileSystemSandboxEntry list \<Rightarrow> FileSystemSandboxEntry list" where
  "add_missing entries es = foldl push_missing entries es"

definition normalized_entry :: "path_env \<Rightarrow> FileSystemSandboxEntry \<Rightarrow> FileSystemSandboxEntry" where
  "normalized_entry env e =
    (case entry_path e of
       PathEntry path \<Rightarrow>
         entry (PathEntry (case Option.bind (canonicalize_preserving_symlinks env path) (abs_from env) of
             Some p \<Rightarrow> p
           | None \<Rightarrow> path)) (entry_access e)
     | _ \<Rightarrow> e)"

fun normalize_entries ::
  "path_env \<Rightarrow> FileSystemSandboxEntry list \<Rightarrow> FileSystemSandboxEntry list \<Rightarrow> (string, FileSystemSandboxEntry list) result" where
  "normalize_entries env entries [] = Ok entries"
| "normalize_entries env entries (e # es) =
    (if (case entry_path e of GlobPattern _ \<Rightarrow> True | _ \<Rightarrow> False) \<and> entry_access e \<noteq> AccessNone
     then Err ''glob file system permissions only support deny-read entries''
     else normalize_entries env (push_missing entries (normalized_entry env e)) es)"

definition normalize_additional_permissions ::
  "path_env \<Rightarrow> AdditionalPermissionProfile \<Rightarrow> (string, AdditionalPermissionProfile) result" where
  "normalize_additional_permissions env ap =
    (let network = option_filter (\<lambda>n. \<not> network_is_empty n) (ap_network ap) in
     case ap_file_system ap of
       None \<Rightarrow> Ok \<lparr>ap_network = network, ap_file_system = None\<rparr>
     | Some fp \<Rightarrow>
         (case normalize_entries env [] (fp_entries fp) of
            Err e \<Rightarrow> Err e
          | Ok entries \<Rightarrow>
              (let file_system = \<lparr>fp_entries = entries, fp_glob_scan_max_depth = fp_glob_scan_max_depth fp\<rparr> in
               Ok \<lparr>ap_network = network,
                 ap_file_system = (if file_system_is_empty file_system then None else Some file_system)\<rparr>)))"

section \<open>Depths of glob scans\<close>

datatype GlobScanDepth = Bounded nat | Unbounded

definition effective_glob_scan_depth :: "FileSystemSandboxEntry list \<Rightarrow> nat option \<Rightarrow> GlobScanDepth option" where
  "effective_glob_scan_depth entries depth =
    (if list_ex (\<lambda>e. entry_access e = AccessNone \<and> (case entry_path e of GlobPattern _ \<Rightarrow> True | _ \<Rightarrow> False)) entries
     then Some (case depth of Some depth \<Rightarrow> Bounded depth | None \<Rightarrow> Unbounded)
     else None)"

definition merge_glob_scan_max_depth ::
  "FileSystemSandboxEntry list \<Rightarrow> nat option \<Rightarrow> FileSystemSandboxEntry list \<Rightarrow> nat option \<Rightarrow> nat option" where
  "merge_glob_scan_max_depth left_entries left_depth right_entries right_depth =
    (case (effective_glob_scan_depth left_entries left_depth, effective_glob_scan_depth right_entries right_depth) of
       (Some Unbounded, _) \<Rightarrow> None
     | (_, Some Unbounded) \<Rightarrow> None
     | (Some (Bounded left), Some (Bounded right)) \<Rightarrow> Some (max left right)
     | (Some (Bounded depth), None) \<Rightarrow> Some depth
     | (None, Some (Bounded depth)) \<Rightarrow> Some depth
     | (None, None) \<Rightarrow> None)"

definition non_zero :: "nat option \<Rightarrow> nat option" where
  "non_zero d = option_filter (\<lambda>n. n \<noteq> 0) d"

section \<open>Merging\<close>

definition merge_permission_entries ::
  "FileSystemSandboxEntry list \<Rightarrow> FileSystemSandboxEntry list \<Rightarrow> FileSystemSandboxEntry list" where
  "merge_permission_entries base permissions = add_missing [] (base @ permissions)"

definition merge_network :: "NetworkPermissions option \<Rightarrow> NetworkPermissions option \<Rightarrow> NetworkPermissions option" where
  "merge_network base permissions =
    (if base = Some \<lparr>net_enabled = Some True\<rparr> \<or> permissions = Some \<lparr>net_enabled = Some True\<rparr>
     then Some \<lparr>net_enabled = Some True\<rparr> else None)"

definition merge_file_system :: "FileSystemPermissions option \<Rightarrow> FileSystemPermissions option \<Rightarrow> FileSystemPermissions option" where
  "merge_file_system base permissions =
    (case (base, permissions) of
       (Some base, Some permissions) \<Rightarrow>
         option_filter (\<lambda>fp. \<not> file_system_is_empty fp)
           (Some \<lparr>fp_entries = merge_permission_entries (fp_entries base) (fp_entries permissions),
             fp_glob_scan_max_depth = non_zero (merge_glob_scan_max_depth
               (fp_entries base) (fp_glob_scan_max_depth base) (fp_entries permissions) (fp_glob_scan_max_depth permissions))\<rparr>)
     | (Some base, None) \<Rightarrow> Some base
     | (None, permissions) \<Rightarrow> permissions)"

definition merge_permission_profiles ::
  "AdditionalPermissionProfile option \<Rightarrow> AdditionalPermissionProfile option \<Rightarrow> AdditionalPermissionProfile option" where
  "merge_permission_profiles base permissions =
    (case permissions of
       None \<Rightarrow> base
     | Some permissions \<Rightarrow>
         option_filter (\<lambda>ap. \<not> profile_is_empty ap)
           (Some (case base of
              Some base \<Rightarrow>
                \<lparr>ap_network = merge_network (ap_network base) (ap_network permissions),
                 ap_file_system = merge_file_system (ap_file_system base) (ap_file_system permissions)\<rparr>
            | None \<Rightarrow> permissions)))"

section \<open>Intersecting a grant with a request\<close>

text \<open>The last of \<open>Path::ancestors\<close>.\<close>

definition last_ancestor :: "string \<Rightarrow> string" where
  "last_ancestor path = (if is_absolute path then [slash] else [])"

definition resolve_permission_path :: "path_env \<Rightarrow> FileSystemPath \<Rightarrow> string \<Rightarrow> string option" where
  "resolve_permission_path env path cwd =
    (case path of
       PathEntry path \<Rightarrow> Some path
     | GlobPattern _ \<Rightarrow> None
     | Special value \<Rightarrow>
         (case value of
            Root \<Rightarrow> abs_from env (last_ancestor cwd)
          | ProjectRoots subpath \<Rightarrow>
              (case abs_from env cwd of
                 None \<Rightarrow> None
               | Some cwd \<Rightarrow>
                   Some (case subpath of
                      Some subpath \<Rightarrow> resolve_path_against_base (pe_home env) subpath cwd
                    | None \<Rightarrow> cwd))
          | Tmpdir \<Rightarrow>
              (case pe_tmpdir env of
                 None \<Rightarrow> None
               | Some tmpdir \<Rightarrow> if tmpdir = [] then None else abs_from env tmpdir)
          | SlashTmp \<Rightarrow> option_filter (fs_is_dir env) (abs_from env ''/tmp'')
          | Minimal \<Rightarrow> None
          | Unknown _ _ \<Rightarrow> None))"

definition materialize_cwd_dependent_entry :: "path_env \<Rightarrow> FileSystemSandboxEntry \<Rightarrow> string \<Rightarrow> FileSystemSandboxEntry" where
  "materialize_cwd_dependent_entry env e cwd =
    (case entry_path e of
       Special (ProjectRoots _) \<Rightarrow>
         (case resolve_permission_path env (entry_path e) cwd of
            Some path \<Rightarrow> entry (PathEntry path) (entry_access e)
          | None \<Rightarrow> e)
     | GlobPattern pattern \<Rightarrow> entry (GlobPattern (resolve_path_against_base (pe_home env) pattern cwd)) (entry_access e)
     | _ \<Rightarrow> e)"

fun access_covers :: "FileSystemAccessMode \<Rightarrow> FileSystemAccessMode \<Rightarrow> bool" where
  "access_covers requested AccessRead = can_read requested"
| "access_covers requested AccessWrite = can_write requested"
| "access_covers requested AccessNone = False"

definition paths_overlap :: "string \<Rightarrow> string \<Rightarrow> bool" where
  "paths_overlap left right \<longleftrightarrow> path_starts_with left right \<or> path_starts_with right left"

definition glob_char :: "char \<Rightarrow> bool" where
  "glob_char c \<longleftrightarrow> c \<in> set ''*?[]''"

definition glob_static_prefix_path :: "path_env \<Rightarrow> string \<Rightarrow> string \<Rightarrow> string option" where
  "glob_static_prefix_path env pattern cwd =
    (let resolved_pattern = resolve_path_against_base (pe_home env) pattern cwd;
         pre = takeWhile (\<lambda>c. \<not> glob_char c) resolved_pattern in
     if list_ex glob_char resolved_pattern then
       (if pre = [] then None
        else if ends_with [slash] pre \<or> ends_with [CHR 0x5C] pre then abs_from env pre
        else Option.bind (path_parent pre) (abs_from env))
     else abs_from env resolved_pattern)"

definition granted_file_system_entry_within_request ::
  "path_env \<Rightarrow> FileSystemPermissions \<Rightarrow> FileSystemSandboxPolicy \<Rightarrow> ReadDenyMatcher option \<Rightarrow> FileSystemSandboxEntry \<Rightarrow> string \<Rightarrow> bool" where
  "granted_file_system_entry_within_request env requested requested_policy matcher granted_entry cwd =
    (if \<not> can_read (entry_access granted_entry) then False
     else (case resolve_permission_path env (entry_path granted_entry) cwd of
        Some path \<Rightarrow>
          if (case matcher of Some m \<Rightarrow> is_read_denied env m path | None \<Rightarrow> False) then False
          else access_covers (resolve_access_with_cwd env requested_policy path cwd) (entry_access granted_entry)
      | None \<Rightarrow>
          list_ex (\<lambda>requested_entry. access_covers (entry_access requested_entry) (entry_access granted_entry) \<and>
            file_system_path_eq (entry_path requested_entry) (entry_path granted_entry)) (fp_entries requested)))"

definition deny_entry_constrains_accepted_grant ::
  "path_env \<Rightarrow> FileSystemSandboxEntry \<Rightarrow> FileSystemSandboxEntry list \<Rightarrow> string \<Rightarrow> bool" where
  "deny_entry_constrains_accepted_grant env deny_entry accepted_entries cwd =
    list_ex (\<lambda>e.
      case resolve_permission_path env (entry_path e) cwd of
        None \<Rightarrow> False
      | Some grant_path \<Rightarrow>
          (case (case entry_path deny_entry of
                   GlobPattern pattern \<Rightarrow> glob_static_prefix_path env pattern cwd
                 | _ \<Rightarrow> resolve_permission_path env (entry_path deny_entry) cwd) of
             Some deny_path \<Rightarrow> paths_overlap deny_path grant_path
           | None \<Rightarrow> False)) (filter (\<lambda>e. can_read (entry_access e)) accepted_entries)"

text \<open>The retained denials, which are also added to the entries.\<close>

definition retained_deny_entries ::
  "path_env \<Rightarrow> FileSystemSandboxEntry list \<Rightarrow> FileSystemSandboxEntry list \<Rightarrow> string \<Rightarrow> FileSystemSandboxEntry list" where
  "retained_deny_entries env source_entries accepted_entries cwd =
    map (\<lambda>e. materialize_cwd_dependent_entry env e cwd)
      (filter (\<lambda>e. deny_entry_constrains_accepted_grant env e accepted_entries cwd)
        (filter (\<lambda>e. entry_access e = AccessNone) source_entries))"

definition retain_constraining_deny_entries ::
  "path_env \<Rightarrow> FileSystemSandboxEntry list \<Rightarrow> FileSystemSandboxEntry list \<Rightarrow> string \<Rightarrow> FileSystemSandboxEntry list \<Rightarrow>
   FileSystemSandboxEntry list \<times> FileSystemSandboxEntry list" where
  "retain_constraining_deny_entries env source_entries accepted_entries cwd output_entries =
    (let retained = retained_deny_entries env source_entries accepted_entries cwd in
     (retained, add_missing output_entries retained))"

definition accepted_entries ::
  "path_env \<Rightarrow> glob_compiler \<Rightarrow> FileSystemPermissions \<Rightarrow> FileSystemPermissions \<Rightarrow> string \<Rightarrow> FileSystemSandboxEntry list" where
  "accepted_entries env globs requested granted cwd =
    (let requested_policy = restricted (fp_entries requested);
         matcher = read_deny_matcher_new env globs requested_policy cwd in
     add_missing []
       (map (\<lambda>e. materialize_cwd_dependent_entry env e cwd)
         (filter (\<lambda>e. granted_file_system_entry_within_request env requested requested_policy matcher e cwd)
           (fp_entries granted))))"

definition intersect_file_system ::
  "path_env \<Rightarrow> glob_compiler \<Rightarrow> FileSystemPermissions \<Rightarrow> FileSystemPermissions \<Rightarrow> string \<Rightarrow> FileSystemPermissions" where
  "intersect_file_system env globs requested granted cwd =
    (let accepted = accepted_entries env globs requested granted cwd;
         (requested_retained, entries1) = retain_constraining_deny_entries env (fp_entries requested) accepted cwd accepted;
         (granted_retained, entries2) = retain_constraining_deny_entries env (fp_entries granted) accepted cwd entries1 in
     \<lparr>fp_entries = entries2,
      fp_glob_scan_max_depth = non_zero (merge_glob_scan_max_depth
        requested_retained (fp_glob_scan_max_depth requested) granted_retained (fp_glob_scan_max_depth granted))\<rparr>)"

definition intersect_permission_profiles ::
  "path_env \<Rightarrow> glob_compiler \<Rightarrow> AdditionalPermissionProfile \<Rightarrow> AdditionalPermissionProfile \<Rightarrow> string \<Rightarrow> AdditionalPermissionProfile" where
  "intersect_permission_profiles env globs requested granted cwd =
    \<lparr>ap_network =
       (if ap_network requested = Some \<lparr>net_enabled = Some True\<rparr> \<and> ap_network granted = Some \<lparr>net_enabled = Some True\<rparr>
        then Some \<lparr>net_enabled = Some True\<rparr> else None),
     ap_file_system =
       option_filter (\<lambda>fp. \<not> file_system_is_empty fp)
         (map_option (\<lambda>requested_file_system.
            intersect_file_system env globs requested_file_system
              (case ap_file_system granted of
                 Some fp \<Rightarrow> fp
               | None \<Rightarrow> \<lparr>fp_entries = [], fp_glob_scan_max_depth = None\<rparr>) cwd) (ap_file_system requested))\<rparr>"

section \<open>Effective policies\<close>

definition merge_file_system_policy_with_additional_permissions ::
  "FileSystemSandboxPolicy \<Rightarrow> FileSystemPermissions \<Rightarrow> FileSystemSandboxPolicy" where
  "merge_file_system_policy_with_additional_permissions p fp =
    (if fs_kind p = Restricted
     then p\<lparr>fs_entries := add_missing (fs_entries p) (fp_entries fp),
       glob_scan_max_depth := merge_glob_scan_max_depth (fs_entries p) (glob_scan_max_depth p)
         (fp_entries fp) (fp_glob_scan_max_depth fp)\<rparr>
     else p)"

definition effective_file_system_sandbox_policy ::
  "FileSystemSandboxPolicy \<Rightarrow> AdditionalPermissionProfile option \<Rightarrow> FileSystemSandboxPolicy" where
  "effective_file_system_sandbox_policy p additional =
    (case additional of
       None \<Rightarrow> p
     | Some ap \<Rightarrow>
         (case ap_file_system ap of
            None \<Rightarrow> p
          | Some fp \<Rightarrow>
              if file_system_is_empty fp then p else merge_file_system_policy_with_additional_permissions p fp))"

definition merge_network_access :: "bool \<Rightarrow> AdditionalPermissionProfile \<Rightarrow> bool" where
  "merge_network_access base_network_access ap \<longleftrightarrow>
    base_network_access \<or> (case Option.bind (ap_network ap) net_enabled of Some b \<Rightarrow> b | None \<Rightarrow> False)"

definition effective_network_sandbox_policy ::
  "NetworkSandboxPolicy \<Rightarrow> AdditionalPermissionProfile option \<Rightarrow> NetworkSandboxPolicy" where
  "effective_network_sandbox_policy network additional =
    (case additional of
       Some ap \<Rightarrow> if merge_network_access (network_is_enabled network) ap then NetEnabled else NetRestricted
     | None \<Rightarrow> network)"

fun enforcement :: "PermissionProfile \<Rightarrow> SandboxEnforcement" where
  "enforcement (Managed _ _) = EnforceManaged"
| "enforcement Disabled = EnforceDisabled"
| "enforcement (External _) = EnforceExternal"

definition effective_permission_profile ::
  "PermissionProfile \<Rightarrow> AdditionalPermissionProfile option \<Rightarrow> PermissionProfile option" where
  "effective_permission_profile profile additional =
    from_runtime_permissions_with_enforcement (enforcement profile)
      (effective_file_system_sandbox_policy (file_system_sandbox_policy profile) additional)
      (effective_network_sandbox_policy (network_sandbox_policy profile) additional)"

definition should_require_platform_sandbox :: "FileSystemSandboxPolicy \<Rightarrow> NetworkSandboxPolicy \<Rightarrow> bool \<Rightarrow> bool" where
  "should_require_platform_sandbox p network has_managed_network_requirements =
    (if has_managed_network_requirements then True
     else if \<not> network_is_enabled network then fs_kind p \<noteq> ExternalSandbox
     else fs_kind p = Restricted \<and> \<not> has_full_disk_write_access p)"

section \<open>Grants of a session\<close>

datatype PermissionGrantScope = TurnScope | SessionScope

record RequestPermissionsResponse =
  rp_permissions :: AdditionalPermissionProfile
  rp_scope :: PermissionGrantScope
  rp_strict_auto_review :: bool

definition no_permissions :: AdditionalPermissionProfile where
  "no_permissions = \<lparr>ap_network = None, ap_file_system = None\<rparr>"

definition normalize_request_permissions_response ::
  "path_env \<Rightarrow> glob_compiler \<Rightarrow> AdditionalPermissionProfile \<Rightarrow> RequestPermissionsResponse \<Rightarrow> string \<Rightarrow> RequestPermissionsResponse" where
  "normalize_request_permissions_response env globs requested response cwd =
    (if rp_strict_auto_review response \<and> rp_scope response = SessionScope
     then \<lparr>rp_permissions = no_permissions, rp_scope = TurnScope, rp_strict_auto_review = False\<rparr>
     else if profile_is_empty (rp_permissions response) then response
     else response\<lparr>rp_permissions := intersect_permission_profiles env globs requested (rp_permissions response) cwd\<rparr>)"

text \<open>A pending request holds what was asked for and the working directory at that time.\<close>

record turn_grants =
  tg_granted :: "AdditionalPermissionProfile option"
  tg_strict_auto_review :: bool
  tg_pending :: "(string \<times> AdditionalPermissionProfile \<times> string) list"

record grant_state =
  gs_session :: "AdditionalPermissionProfile option"
  gs_turn :: "turn_grants option"

definition turn_grants_default :: turn_grants where
  "turn_grants_default = \<lparr>tg_granted = None, tg_strict_auto_review = False, tg_pending = []\<rparr>"

definition record_turn_permissions :: "turn_grants \<Rightarrow> AdditionalPermissionProfile \<Rightarrow> turn_grants" where
  "record_turn_permissions ts permissions = ts\<lparr>tg_granted := merge_permission_profiles (tg_granted ts) (Some permissions)\<rparr>"

definition record_session_permissions :: "grant_state \<Rightarrow> AdditionalPermissionProfile \<Rightarrow> grant_state" where
  "record_session_permissions st permissions = st\<lparr>gs_session := merge_permission_profiles (gs_session st) (Some permissions)\<rparr>"

definition record_granted_request_permissions_for_turn :: "grant_state \<Rightarrow> RequestPermissionsResponse \<Rightarrow> grant_state" where
  "record_granted_request_permissions_for_turn st response =
    (if profile_is_empty (rp_permissions response) then st
     else (case rp_scope response of
        TurnScope \<Rightarrow>
          st\<lparr>gs_turn := map_option (\<lambda>ts.
            (let ts = record_turn_permissions ts (rp_permissions response) in
             if rp_strict_auto_review response then ts\<lparr>tg_strict_auto_review := True\<rparr> else ts)) (gs_turn st)\<rparr>
      | SessionScope \<Rightarrow> record_session_permissions st (rp_permissions response)))"

text \<open>The answer a review stands for.\<close>

definition reviewed_response :: "ReviewDecision \<Rightarrow> AdditionalPermissionProfile \<Rightarrow> RequestPermissionsResponse" where
  "reviewed_response review requested =
    (let granted = \<lparr>rp_permissions = requested, rp_scope = TurnScope, rp_strict_auto_review = False\<rparr>;
         refused = granted\<lparr>rp_permissions := no_permissions\<rparr> in
     case review of
       Approved \<Rightarrow> granted
     | ApprovedExecpolicyAmendment _ \<Rightarrow> granted
     | ApprovedForSession \<Rightarrow> granted\<lparr>rp_scope := SessionScope\<rparr>
     | ApprovedNetworkPolicyAmendment _ AllowHost \<Rightarrow> granted
     | ApprovedNetworkPolicyAmendment _ DenyHost \<Rightarrow> refused
     | _ \<Rightarrow> refused)"

definition permission_requests_refused :: "AskForApproval \<Rightarrow> bool" where
  "permission_requests_refused approval_policy =
    (case approval_policy of Never \<Rightarrow> True | Granular granular_config \<Rightarrow> \<not> request_permissions granular_config | _ \<Rightarrow> False)"

text \<open>The request handler: what is asked for is normalised, and something has to be asked for.\<close>

definition handle_request_permissions :: "path_env \<Rightarrow> AdditionalPermissionProfile \<Rightarrow> (string, AdditionalPermissionProfile) result" where
  "handle_request_permissions env permissions =
    (case normalize_additional_permissions env permissions of
       Err e \<Rightarrow> Err e
     | Ok permissions \<Rightarrow>
         if profile_is_empty permissions then Err ''request_permissions requires at least one permission'' else Ok permissions)"

definition insert_pending_request_permissions ::
  "grant_state \<Rightarrow> string \<Rightarrow> AdditionalPermissionProfile \<Rightarrow> string \<Rightarrow> grant_state" where
  "insert_pending_request_permissions st call_id requested cwd =
    st\<lparr>gs_turn := map_option (\<lambda>ts. ts\<lparr>tg_pending := AList.update call_id (requested, cwd) (tg_pending ts)\<rparr>) (gs_turn st)\<rparr>"

definition remove_pending_request_permissions :: "grant_state \<Rightarrow> string \<Rightarrow> grant_state" where
  "remove_pending_request_permissions st call_id =
    st\<lparr>gs_turn := map_option (\<lambda>ts. ts\<lparr>tg_pending := AList.delete call_id (tg_pending ts)\<rparr>) (gs_turn st)\<rparr>"

definition notify_request_permissions_response ::
  "path_env \<Rightarrow> glob_compiler \<Rightarrow> string \<Rightarrow> RequestPermissionsResponse \<Rightarrow> grant_state \<Rightarrow> grant_state" where
  "notify_request_permissions_response env globs call_id response st =
    (case Option.bind (gs_turn st) (\<lambda>ts. map_of (tg_pending ts) call_id) of
       None \<Rightarrow> st
     | Some (requested, cwd) \<Rightarrow>
         record_granted_request_permissions_for_turn (remove_pending_request_permissions st call_id)
           (normalize_request_permissions_response env globs requested response cwd))"

text \<open>A review ends with the turn it was asked in still active, or not: grants for an earlier turn are void.\<close>

definition record_review ::
  "path_env \<Rightarrow> glob_compiler \<Rightarrow> ReviewDecision \<Rightarrow> AdditionalPermissionProfile \<Rightarrow> string \<Rightarrow> bool \<Rightarrow> grant_state \<Rightarrow> grant_state" where
  "record_review env globs review requested cwd same_turn st =
    (let st' = record_granted_request_permissions_for_turn st
           (normalize_request_permissions_response env globs requested (reviewed_response review requested) cwd) in
     if same_turn then st' else st'\<lparr>gs_turn := gs_turn st\<rparr>)"

definition granted_turn_permissions :: "grant_state \<Rightarrow> AdditionalPermissionProfile option" where
  "granted_turn_permissions st = Option.bind (gs_turn st) tg_granted"

definition granted_permissions :: "grant_state \<Rightarrow> AdditionalPermissionProfile option" where
  "granted_permissions st = merge_permission_profiles (gs_session st) (granted_turn_permissions st)"

section \<open>Permissions of a command\<close>

record EffectiveAdditionalPermissions =
  ea_sandbox_permissions :: SandboxPermissions
  ea_additional_permissions :: "AdditionalPermissionProfile option"
  ea_permissions_preapproved :: bool

text \<open>The derived equality of profiles.\<close>

definition file_system_permissions_eq :: "FileSystemPermissions \<Rightarrow> FileSystemPermissions \<Rightarrow> bool" where
  "file_system_permissions_eq a b \<longleftrightarrow>
    list_all2 entry_eq (fp_entries a) (fp_entries b) \<and> fp_glob_scan_max_depth a = fp_glob_scan_max_depth b"

definition profile_eq :: "AdditionalPermissionProfile \<Rightarrow> AdditionalPermissionProfile \<Rightarrow> bool" where
  "profile_eq a b \<longleftrightarrow> ap_network a = ap_network b \<and>
    rel_option file_system_permissions_eq (ap_file_system a) (ap_file_system b)"

definition permissions_are_preapproved ::
  "path_env \<Rightarrow> glob_compiler \<Rightarrow> AdditionalPermissionProfile \<Rightarrow> AdditionalPermissionProfile \<Rightarrow> string \<Rightarrow> bool" where
  "permissions_are_preapproved env globs effective granted cwd =
    profile_eq (intersect_permission_profiles env globs effective granted cwd)
      (intersect_permission_profiles env globs effective effective cwd)"

definition apply_granted_turn_permissions ::
  "path_env \<Rightarrow> glob_compiler \<Rightarrow> grant_state \<Rightarrow> string \<Rightarrow> SandboxPermissions \<Rightarrow> AdditionalPermissionProfile option \<Rightarrow>
   EffectiveAdditionalPermissions" where
  "apply_granted_turn_permissions env globs st cwd sandbox_permissions additional =
    (if sandbox_permissions = RequireEscalated
     then \<lparr>ea_sandbox_permissions = sandbox_permissions, ea_additional_permissions = additional, ea_permissions_preapproved = False\<rparr>
     else
       (let granted = granted_permissions st;
            effective = merge_permission_profiles additional granted in
        \<lparr>ea_sandbox_permissions =
           (if effective \<noteq> None \<and> sandbox_permissions \<noteq> WithAdditionalPermissions
            then WithAdditionalPermissions else sandbox_permissions),
         ea_additional_permissions = effective,
         ea_permissions_preapproved =
           (case (effective, granted) of
              (Some effective, Some granted) \<Rightarrow> permissions_are_preapproved env globs effective granted cwd
            | _ \<Rightarrow> False)\<rparr>))"

definition implicit_granted_permissions ::
  "SandboxPermissions \<Rightarrow> AdditionalPermissionProfile option \<Rightarrow> EffectiveAdditionalPermissions \<Rightarrow>
   AdditionalPermissionProfile option" where
  "implicit_granted_permissions sandbox_permissions additional effective =
    (if sandbox_permissions \<noteq> WithAdditionalPermissions \<and> sandbox_permissions \<noteq> RequireEscalated \<and> additional = None
     then ea_additional_permissions effective else None)"

definition normalize_and_validate_additional_permissions ::
  "path_env \<Rightarrow> (AskForApproval \<Rightarrow> string) \<Rightarrow> bool \<Rightarrow> AskForApproval \<Rightarrow> SandboxPermissions \<Rightarrow> AdditionalPermissionProfile option \<Rightarrow> bool \<Rightarrow>
   (string, AdditionalPermissionProfile option) result" where
  "normalize_and_validate_additional_permissions env debug allowed approval_policy sandbox_permissions additional preapproved =
    (let uses = (sandbox_permissions = WithAdditionalPermissions) in
     if \<not> preapproved \<and> \<not> allowed \<and> (uses \<or> additional \<noteq> None)
     then Err ''additional permissions are disabled; enable `features.exec_permission_approvals` before using `with_additional_permissions`''
     else if uses then
       (if \<not> preapproved \<and> approval_policy \<noteq> OnRequest
        then Err (''approval policy is '' @ debug approval_policy @ ''; reject command '' @ [CHR 0xE2, CHR 0x80, CHR 0x94] @
          '' you cannot request additional permissions unless the approval policy is OnRequest'')
        else (case additional of
           None \<Rightarrow> Err ''missing `additional_permissions`; provide at least one of `network` or `file_system` when using `with_additional_permissions`''
         | Some permissions \<Rightarrow>
             (case normalize_additional_permissions env permissions of
                Err e \<Rightarrow> Err e
              | Ok normalized \<Rightarrow>
                  if profile_is_empty normalized
                  then Err ''`additional_permissions` must include at least one requested permission in `network` or `file_system`''
                  else Ok (Some normalized))))
     else if additional \<noteq> None
     then Err ''`additional_permissions` requires `sandbox_permissions` set to `with_additional_permissions`''
     else Ok None)"

section \<open>Runs of grants\<close>

text \<open>A path in an entry is absolute and normal, as \<open>AbsolutePathBuf\<close> guarantees.\<close>

definition wf_entries :: "FileSystemSandboxEntry list \<Rightarrow> bool" where
  "wf_entries es \<longleftrightarrow> (\<forall>e\<in>set es. case entry_path e of PathEntry p \<Rightarrow> is_absolute p \<and> normalize_path p = p | _ \<Rightarrow> True)"

definition profile_entries :: "AdditionalPermissionProfile \<Rightarrow> FileSystemSandboxEntry list" where
  "profile_entries ap = (case ap_file_system ap of Some fp \<Rightarrow> fp_entries fp | None \<Rightarrow> [])"

text \<open>The states a session reaches, with the requests made so far and their directories.  The user or
  client may answer a request with any permissions.\<close>

inductive grant_run :: "path_env \<Rightarrow> glob_compiler \<Rightarrow> (AdditionalPermissionProfile \<times> string) list \<Rightarrow> grant_state \<Rightarrow> bool"
  for env globs where
  started: "grant_run env globs [] \<lparr>gs_session = None, gs_turn = None\<rparr>"
| turn_begins: "grant_run env globs rs st \<Longrightarrow> grant_run env globs rs (st\<lparr>gs_turn := Some turn_grants_default\<rparr>)"
| turn_ends: "grant_run env globs rs st \<Longrightarrow> grant_run env globs rs (st\<lparr>gs_turn := None\<rparr>)"
| asked: "grant_run env globs rs st \<Longrightarrow> \<not> permission_requests_refused approval \<Longrightarrow> is_absolute cwd \<Longrightarrow>
    wf_entries (profile_entries raw) \<Longrightarrow> handle_request_permissions env raw = Ok requested \<Longrightarrow>
    grant_run env globs ((requested, cwd) # rs) (insert_pending_request_permissions st call_id requested cwd)"
| reviewed: "grant_run env globs rs st \<Longrightarrow> \<not> permission_requests_refused approval \<Longrightarrow> is_absolute cwd \<Longrightarrow>
    wf_entries (profile_entries raw) \<Longrightarrow> handle_request_permissions env raw = Ok requested \<Longrightarrow>
    grant_run env globs ((requested, cwd) # rs) (record_review env globs review requested cwd same_turn st)"
| answered: "grant_run env globs rs st \<Longrightarrow> wf_entries (profile_entries (rp_permissions response)) \<Longrightarrow>
    grant_run env globs rs (notify_request_permissions_response env globs call_id response st)"
| cancelled: "grant_run env globs rs st \<Longrightarrow> grant_run env globs rs (remove_pending_request_permissions st call_id)"

section \<open>Unions of entries\<close>

lemma push_missing_iff: "set (push_missing xs e) \<subseteq> insert e (set xs)" "set xs \<subseteq> set (push_missing xs e)"
  "\<exists>e'\<in>set (push_missing xs e). entry_eq e' e"
  using entry_eq_refl by (auto simp: push_missing_def list_ex_iff)

lemma add_missing_Cons: "add_missing xs (e # es) = add_missing (push_missing xs e) es"
  by (simp add: add_missing_def)

lemma add_missing_sub: "set (add_missing xs es) \<subseteq> set xs \<union> set es"
proof (induction es arbitrary: xs)
  case (Cons e es)
  then show ?case using Cons.IH [of "push_missing xs e"] push_missing_iff(1) [of xs e] by (auto simp: add_missing_Cons)
qed (simp add: add_missing_def)

lemma add_missing_sup: "set xs \<subseteq> set (add_missing xs es)"
proof (induction es arbitrary: xs)
  case (Cons e es)
  then show ?case using Cons.IH [of "push_missing xs e"] push_missing_iff(2) [of xs e] by (auto simp: add_missing_Cons)
qed (simp add: add_missing_def)

lemma add_missing_has: "e \<in> set es \<Longrightarrow> \<exists>e'\<in>set (add_missing xs es). entry_eq e' e"
proof (induction es arbitrary: xs)
  case (Cons d es)
  show ?case
  proof (cases "e = d")
    case True
    then show ?thesis using push_missing_iff(3) [of xs d] add_missing_sup [of "push_missing xs d" es] by (auto simp: add_missing_Cons)
  qed (use Cons in \<open>simp add: add_missing_Cons\<close>)
qed simp

lemma add_missing_kept: "e \<in> set xs \<Longrightarrow> \<exists>e'\<in>set (add_missing xs es). entry_eq e' e"
  using add_missing_sup entry_eq_refl by blast

lemma matching_iff:
  "r \<in> matching_entries env p t cwd \<longleftrightarrow>
    (\<exists>e\<in>set (fs_entries p). \<exists>q. resolve_entry_path env (entry_path e) (abs_from env cwd) = Some q \<and> path_starts_with t q \<and>
      r = \<lparr>resolved_path = q, resolved_access = entry_access e\<rparr>)"
  unfolding matching_entries_def by (auto simp: resolved_entries_iff)

lemma matching_entry_eq:
  assumes "wf_env env" "entry_eq e' e" "e' \<in> set (fs_entries p)"
    and "resolve_entry_path env (entry_path e) (abs_from env cwd) = Some q" "path_starts_with t q"
  shows "\<exists>r\<in>matching_entries env p t cwd.
    resolved_entry_precedence r = resolved_entry_precedence \<lparr>resolved_path = q, resolved_access = entry_access e\<rparr>"
proof -
  from assms(2) have eq: "file_system_path_eq (entry_path e') (entry_path e)" "entry_access e' = entry_access e" by (auto simp: entry_eq_def)
  from path_eq_resolved [OF eq(1) assms(1,4)] obtain q' where
    q': "resolve_entry_path env (entry_path e') (abs_from env cwd) = Some q'" "path_components q' = path_components q" by blast
  then have "\<lparr>resolved_path = q', resolved_access = entry_access e'\<rparr> \<in> matching_entries env p t cwd"
    using assms(3) starts_with_components [OF assms(5) q'(2)] by (auto simp: matching_iff)
  then show ?thesis using q'(2) eq(2) by (auto simp: resolved_entry_precedence_def intro!: bexI)
qed

lemma access_no_match:
  "fs_kind p = Restricted \<Longrightarrow> resolve_candidate_path env path cwd = Some t \<Longrightarrow> matching_entries env p t cwd = {} \<Longrightarrow>
    resolve_access_with_cwd env p path cwd = AccessNone"
  by (auto simp: resolve_access_with_cwd_def matching_entries_def max_by_key_def filter_empty_conv split: option.splits list.splits)

text \<open>The access under the entry with the highest precedence.\<close>

lemma access_of_max:
  assumes "fs_kind p = Restricted" "resolve_candidate_path env path cwd = Some t" "r \<in> matching_entries env p t cwd"
    "\<forall>r'\<in>matching_entries env p t cwd. resolved_entry_precedence r' \<le> resolved_entry_precedence r"
  shows "resolve_access_with_cwd env p path cwd = resolved_access r"
proof -
  from assms(3) have "matching_entries env p t cwd \<noteq> {}" by blast
  from resolve_access_max [OF assms(1,2) this] obtain e where
    "e \<in> matching_entries env p t cwd" "resolve_access_with_cwd env p path cwd = resolved_access e"
    "\<forall>e'\<in>matching_entries env p t cwd. resolved_entry_precedence e' \<le> resolved_entry_precedence e" by blast
  with assms(3,4) have "resolved_entry_precedence e = resolved_entry_precedence r" by (intro antisym) auto
  then show ?thesis using \<open>resolve_access_with_cwd env p path cwd = resolved_access e\<close> by (simp add: resolved_entry_precedence_def)
qed

lemma union_access_half:
  assumes "wf_env env" "fs_kind p = Restricted" "fs_kind a = Restricted" "resolve_candidate_path env path cwd = Some t"
    and "\<forall>e\<in>set (fs_entries a). \<exists>e'\<in>set (fs_entries p). entry_eq e' e"
    and "m \<in> matching_entries env p t cwd" "m \<in> matching_entries env a t cwd"
    and "\<forall>r\<in>matching_entries env p t cwd. resolved_entry_precedence r \<le> resolved_entry_precedence m"
  shows "resolve_access_with_cwd env a path cwd = resolved_access m"
proof (rule access_of_max [OF assms(3,4,7)], rule)
  fix r assume "r \<in> matching_entries env a t cwd"
  then obtain e q where e: "e \<in> set (fs_entries a)" "resolve_entry_path env (entry_path e) (abs_from env cwd) = Some q"
    "path_starts_with t q" "r = \<lparr>resolved_path = q, resolved_access = entry_access e\<rparr>" by (auto simp: matching_iff)
  with assms(5) obtain e' where "e' \<in> set (fs_entries p)" "entry_eq e' e" by blast
  from matching_entry_eq [OF assms(1) this(2,1) e(2,3)] assms(8) show "resolved_entry_precedence r \<le> resolved_entry_precedence m"
    unfolding e(4) by fastforce
qed

lemma union_access:
  assumes "wf_env env" "fs_kind p = Restricted" "fs_kind a = Restricted" "fs_kind b = Restricted"
    and "set (fs_entries p) \<subseteq> set (fs_entries a) \<union> set (fs_entries b)"
    and "\<forall>e\<in>set (fs_entries a) \<union> set (fs_entries b). \<exists>e'\<in>set (fs_entries p). entry_eq e' e"
  shows "resolve_access_with_cwd env p path cwd \<in> {resolve_access_with_cwd env a path cwd, resolve_access_with_cwd env b path cwd}"
proof (cases "resolve_candidate_path env path cwd")
  case None
  then show ?thesis using assms(2,3) by (simp add: resolve_access_with_cwd_def)
next
  case (Some t)
  show ?thesis
  proof (cases "matching_entries env p t cwd = {}")
    case True
    have "matching_entries env a t cwd = {}"
    proof (rule ccontr)
      assume "matching_entries env a t cwd \<noteq> {}"
      then obtain e q where e: "e \<in> set (fs_entries a)" "resolve_entry_path env (entry_path e) (abs_from env cwd) = Some q"
        "path_starts_with t q" by (auto simp: matching_iff set_eq_iff)
      with assms(6) obtain e' where "e' \<in> set (fs_entries p)" "entry_eq e' e" by blast
      from matching_entry_eq [OF assms(1) this(2,1) e(2,3)] True show False by blast
    qed
    with access_no_match [OF assms(2) Some True] access_no_match [OF assms(3) Some] show ?thesis by simp
  next
    case False
    from resolve_access_max [OF assms(2) Some False] obtain m where m: "m \<in> matching_entries env p t cwd"
      "resolve_access_with_cwd env p path cwd = resolved_access m"
      "\<forall>r\<in>matching_entries env p t cwd. resolved_entry_precedence r \<le> resolved_entry_precedence m" by blast
    from m(1) assms(5) have "m \<in> matching_entries env a t cwd \<or> m \<in> matching_entries env b t cwd" by (auto simp: matching_iff)
    then show ?thesis
    proof
      assume *: "m \<in> matching_entries env a t cwd"
      from union_access_half [OF assms(1,2,3) Some _ m(1) * m(3)] assms(6) m(2) show ?thesis by simp
    next
      assume *: "m \<in> matching_entries env b t cwd"
      from union_access_half [OF assms(1,2,4) Some _ m(1) * m(3)] assms(6) m(2) show ?thesis by simp
    qed
  qed
qed

lemma restricted_simps [simp]: "fs_kind (restricted es) = Restricted" "fs_entries (restricted es) = es"
  by (simp_all add: restricted_def)

lemma merged_access:
  assumes "wf_env env"
  shows "resolve_access_with_cwd env (restricted (merge_permission_entries a b)) path cwd \<in>
    {resolve_access_with_cwd env (restricted a) path cwd, resolve_access_with_cwd env (restricted b) path cwd}"
  by (rule union_access [OF assms]) (use add_missing_sub [of "[]" "a @ b"] add_missing_has [of _ "a @ b" "[]"] in
    \<open>auto simp: merge_permission_entries_def\<close>)

lemma effective_access:
  assumes "wf_env env" "fs_kind p = Restricted" "additional = Some ap"
  shows "resolve_access_with_cwd env (effective_file_system_sandbox_policy p additional) path cwd \<in>
    {resolve_access_with_cwd env p path cwd, resolve_access_with_cwd env (restricted (profile_entries ap)) path cwd}"
proof (cases "ap_file_system ap")
  case (Some fp)
  let ?p = "merge_file_system_policy_with_additional_permissions p fp"
  have "resolve_access_with_cwd env ?p path cwd \<in> {resolve_access_with_cwd env p path cwd, resolve_access_with_cwd env (restricted (fp_entries fp)) path cwd}"
    by (rule union_access [OF assms(1)])
      (use assms(2) add_missing_sub [of "fs_entries p" "fp_entries fp"] add_missing_kept [of _ "fs_entries p" "fp_entries fp"]
        add_missing_has [of _ "fp_entries fp" "fs_entries p"] in
        \<open>auto simp: merge_file_system_policy_with_additional_permissions_def\<close>)
  with Some assms(3) show ?thesis by (simp add: effective_file_system_sandbox_policy_def profile_entries_def)
qed (simp add: effective_file_system_sandbox_policy_def assms(3))

section \<open>Within the request\<close>

lemma starts_with_prefix: "path_starts_with a b \<longleftrightarrow> prefix (path_components b) (path_components a)"
  unfolding path_starts_with_def by (metis prefix_def append_take_drop_id append_eq_conv_conj)

lemma starts_with_trans: "path_starts_with a b \<Longrightarrow> path_starts_with b c \<Longrightarrow> path_starts_with a c"
  unfolding starts_with_prefix by (rule prefix_order.trans)

lemma starts_with_linear:
  assumes "path_starts_with t a" "path_starts_with t b" "\<not> path_starts_with b a"
  shows "path_starts_with a b \<and> length (path_components b) < length (path_components a)"
  using assms prefix_same_cases [of "path_components a" "path_components t" "path_components b"] prefix_length_le
  unfolding starts_with_prefix by (metis prefix_length_prefix not_le_imp_less prefix_order.refl)

lemma absolute_cwd:
  assumes "wf_env env" "is_absolute cwd"
  shows "\<exists>cs. abs_from env cwd = Some (path_str cs) \<and> normal_abs cs"
  using abs_from_absolute [OF assms(2), of env] abs_from_normal [OF assms(1), of cwd] by auto

lemma root_normal: "abs_from env [slash] = Some [slash]" "is_absolute [slash]" "normalize_path [slash] = [slash]"
proof -
  show "is_absolute [slash]" "normalize_path [slash] = [slash]" by code_simp+
  then show "abs_from env [slash] = Some [slash]" by (simp add: abs_from_absolute)
qed

lemma resolve_permission_entry:
  assumes "wf_env env" "is_absolute cwd"
  shows "resolve_permission_path env path cwd = resolve_entry_path env path (abs_from env cwd)"
  using absolute_cwd [OF assms] assms(2) root_of_absolute root_normal(1)
  by (auto simp: resolve_permission_path_def resolve_entry_path_def resolve_file_system_path_def resolve_file_system_special_path_def
      last_ancestor_def option_filter_def split: FileSystemPath.splits FileSystemSpecialPath.splits option.splits)

lemma materialized_resolved:
  assumes "wf_env env" "is_absolute c" "is_absolute cwd"
  shows "resolve_entry_path env (entry_path (materialize_cwd_dependent_entry env e c)) (abs_from env cwd) =
      resolve_entry_path env (entry_path e) (abs_from env c)" (is ?path)
    and "entry_access (materialize_cwd_dependent_entry env e c) = entry_access e" (is ?access)
proof -
  obtain cs where cs: "abs_from env c = Some (path_str cs)" "absolute_root_path_for_cwd (path_str cs) = [slash]"
    using absolute_cwd [OF assms(1,2)] root_of_absolute by blast
  obtain cs' where cs': "abs_from env cwd = Some (path_str cs')" "absolute_root_path_for_cwd (path_str cs') = [slash]"
    using absolute_cwd [OF assms(1,3)] root_of_absolute by blast
  note defs = materialize_cwd_dependent_entry_def resolve_permission_entry [OF assms(1,2)] resolve_entry_path_def entry_def
    resolve_file_system_path_def resolve_file_system_special_path_def cs cs'
  show ?path
  proof (cases "entry_path e")
    case (Special v)
    then show ?thesis by (cases v) (simp_all add: defs split: option.splits)
  qed (simp_all add: defs)
  show ?access
  proof (cases "entry_path e")
    case (Special v)
    then show ?thesis by (cases v) (simp_all add: defs split: option.splits)
  qed (simp_all add: defs)
qed

lemma normal_path_str: "normal_abs cs \<Longrightarrow> is_absolute (path_str cs) \<and> normalize_path (path_str cs) = path_str cs"
  by (simp add: normal_abs_absolute normalize_path_normal)

lemma resolved_entry_normal:
  assumes "wf_env env" "is_absolute cwd" "wf_entries es" "e \<in> set es" "resolve_entry_path env (entry_path e) (abs_from env cwd) = Some q"
  shows "is_absolute q \<and> normalize_path q = q"
proof (cases "entry_path e")
  case (PathEntry p)
  then show ?thesis using assms(3,4,5) by (auto simp: wf_entries_def resolve_entry_path_def resolve_file_system_path_def)
next
  case (GlobPattern p)
  then show ?thesis using assms(5) by (simp add: resolve_entry_path_def resolve_file_system_path_def)
next
  case (Special v)
  obtain cs where cs: "abs_from env cwd = Some (path_str cs)" "normal_abs cs" using absolute_cwd [OF assms(1,2)] by blast
  have home: "\<exists>cs'. normal_abs cs' \<and> resolve_path_against_base (pe_home env) p (path_str cs) = path_str cs'" for p
    by (rule resolved_normal) (simp add: normal_abs_absolute cs(2))
  have "q = [slash] \<or> (\<exists>cs. normal_abs cs \<and> q = path_str cs)"
    using assms(5) Special cs home root_of_absolute [OF cs(2)] abs_from_normal [OF assms(1)]
    by (auto simp: resolve_entry_path_def resolve_file_system_path_def resolve_file_system_special_path_def
        split: FileSystemSpecialPath.splits option.splits if_splits)
  then show ?thesis using root_normal normal_path_str by auto
qed

lemma absolute_candidate: "is_absolute path \<Longrightarrow> resolve_candidate_path env path cwd = Some (normalize_path path)"
  by (simp add: resolve_candidate_path_def abs_from_absolute)

text \<open>No read-only path inside a writable one.\<close>

definition no_read_inside_write :: "path_env \<Rightarrow> string \<Rightarrow> FileSystemSandboxEntry list \<Rightarrow> bool" where
  "no_read_inside_write env cwd es \<longleftrightarrow>
    list_all (\<lambda>w. list_all (\<lambda>r.
      case (resolve_entry_path env (entry_path w) (abs_from env cwd), resolve_entry_path env (entry_path r) (abs_from env cwd)) of
        (Some q, Some q') \<Rightarrow>
          entry_access w = AccessWrite \<and> entry_access r = AccessRead \<and> path_starts_with q' q \<longrightarrow> path_components q' = path_components q
      | _ \<Rightarrow> True) es) es"

lemma intersection_entries:
  "fp_entries (intersect_file_system env globs requested granted c) =
    add_missing (add_missing (accepted_entries env globs requested granted c)
      (retained_deny_entries env (fp_entries requested) (accepted_entries env globs requested granted c) c))
      (retained_deny_entries env (fp_entries granted) (accepted_entries env globs requested granted c) c)"
  by (simp add: intersect_file_system_def retain_constraining_deny_entries_def Let_def)

lemma retained_access:
  assumes "wf_env env" "is_absolute c" "e \<in> set (retained_deny_entries env es acc c)"
  shows "entry_access e = AccessNone"
  using assms(3) materialized_resolved(2) [OF assms(1,2,2)] by (auto simp: retained_deny_entries_def)

lemma in_intersection:
  assumes "wf_env env" "is_absolute c"
    and "e \<in> set (fp_entries (intersect_file_system env globs requested granted c))" "can_read (entry_access e)"
  shows "e \<in> set (accepted_entries env globs requested granted c)"
proof -
  let ?acc = "accepted_entries env globs requested granted c"
  let ?r = "\<lambda>es. retained_deny_entries env es ?acc c"
  have "e \<in> set ?acc \<union> set (?r (fp_entries requested)) \<union> set (?r (fp_entries granted))"
    using assms(3) add_missing_sub [of "add_missing ?acc (?r (fp_entries requested))" "?r (fp_entries granted)"]
      add_missing_sub [of ?acc "?r (fp_entries requested)"] unfolding intersection_entries by blast
  moreover have "e \<notin> set (?r es)" for es using retained_access [OF assms(1,2), of e es ?acc] assms(4) by auto
  ultimately show ?thesis by blast
qed

lemma intersection_has:
  assumes "e \<in> set (accepted_entries env globs requested granted c) \<or>
    e \<in> set (retained_deny_entries env (fp_entries requested) (accepted_entries env globs requested granted c) c) \<or>
    e \<in> set (retained_deny_entries env (fp_entries granted) (accepted_entries env globs requested granted c) c)"
  shows "\<exists>e'\<in>set (fp_entries (intersect_file_system env globs requested granted c)). entry_eq e' e"
proof -
  let ?acc = "accepted_entries env globs requested granted c"
  let ?r = "\<lambda>es. retained_deny_entries env es ?acc c"
  let ?one = "add_missing ?acc (?r (fp_entries requested))"
  from assms have "e \<in> set ?acc \<or> e \<in> set (?r (fp_entries requested)) \<or> e \<in> set (?r (fp_entries granted))" .
  then show ?thesis
  proof (elim disjE)
    assume "e \<in> set ?acc"
    then have "e \<in> set ?one" using add_missing_sup by blast
    then show ?thesis unfolding intersection_entries by (rule add_missing_kept)
  next
    assume "e \<in> set (?r (fp_entries requested))"
    from add_missing_has [OF this, of ?acc] obtain e' where "e' \<in> set ?one" "entry_eq e' e" by blast
    then show ?thesis unfolding intersection_entries using add_missing_sup [of ?one] by blast
  next
    assume "e \<in> set (?r (fp_entries granted))"
    then show ?thesis unfolding intersection_entries by (rule add_missing_has)
  qed
qed

lemma accepted_from:
  assumes "e \<in> set (accepted_entries env globs requested granted c)"
  shows "\<exists>g\<in>set (fp_entries granted). e = materialize_cwd_dependent_entry env g c \<and>
    granted_file_system_entry_within_request env requested (restricted (fp_entries requested))
      (read_deny_matcher_new env globs (restricted (fp_entries requested)) c) g c"
proof -
  let ?within = "\<lambda>g. granted_file_system_entry_within_request env requested (restricted (fp_entries requested))
      (read_deny_matcher_new env globs (restricted (fp_entries requested)) c) g c"
  have "set (accepted_entries env globs requested granted c) \<subseteq> (\<lambda>g. materialize_cwd_dependent_entry env g c) ` {g \<in> set (fp_entries granted). ?within g}"
    using add_missing_sub [of "[]" "map (\<lambda>e. materialize_cwd_dependent_entry env e c) (filter ?within (fp_entries granted))"]
    by (simp add: accepted_entries_def Let_def)
  with assms show ?thesis by blast
qed

text \<open>A readable path in an intersection has its access from a granted entry that covers it.\<close>

lemma intersection_max:
  assumes "wf_env env" "is_absolute c" "is_absolute cwd" "is_absolute path" "wf_entries (fp_entries granted)"
    and "resolve_access_with_cwd env (restricted (fp_entries (intersect_file_system env globs requested granted c))) path cwd = a" "can_read a"
  shows "\<exists>g q. g \<in> set (fp_entries granted) \<and> entry_access g = a \<and> resolve_entry_path env (entry_path g) (abs_from env c) = Some q \<and>
    path_starts_with (normalize_path path) q \<and> resolve_candidate_path env q c = Some q \<and>
    materialize_cwd_dependent_entry env g c \<in> set (accepted_entries env globs requested granted c) \<and>
    access_covers (resolve_access_with_cwd env (restricted (fp_entries requested)) q c) a \<and>
    (\<forall>r\<in>matching_entries env (restricted (fp_entries (intersect_file_system env globs requested granted c))) (normalize_path path) cwd.
      resolved_entry_precedence r \<le> (length (path_components q), a))"
proof -
  let ?p = "restricted (fp_entries (intersect_file_system env globs requested granted c))"
  note cand = absolute_candidate [OF assms(4), of env]
  have "matching_entries env ?p (normalize_path path) cwd \<noteq> {}"
    using access_no_match [OF _ cand, of ?p] assms(6,7) by auto
  from resolve_access_max [OF _ cand this] obtain m where m: "m \<in> matching_entries env ?p (normalize_path path) cwd"
    "a = resolved_access m" "\<forall>r\<in>matching_entries env ?p (normalize_path path) cwd. resolved_entry_precedence r \<le> resolved_entry_precedence m"
    using assms(6) by auto
  from m(1) obtain e q where e: "e \<in> set (fs_entries ?p)" "resolve_entry_path env (entry_path e) (abs_from env cwd) = Some q"
    "path_starts_with (normalize_path path) q" "m = \<lparr>resolved_path = q, resolved_access = entry_access e\<rparr>" by (auto simp: matching_iff)
  with m(2) have a: "entry_access e = a" by simp
  have acc: "e \<in> set (accepted_entries env globs requested granted c)"
    using in_intersection [OF assms(1,2)] e(1) a assms(7) by simp
  from accepted_from [OF this] obtain g where g: "g \<in> set (fp_entries granted)" "e = materialize_cwd_dependent_entry env g c"
    "granted_file_system_entry_within_request env requested (restricted (fp_entries requested))
      (read_deny_matcher_new env globs (restricted (fp_entries requested)) c) g c" by blast
  have q: "resolve_entry_path env (entry_path g) (abs_from env c) = Some q" "entry_access g = a"
    using materialized_resolved [OF assms(1,2,3), of g] e(2) a g(2) by auto
  from resolved_entry_normal [OF assms(1,2,5) g(1) q(1)] have "resolve_candidate_path env q c = Some q" by (simp add: absolute_candidate)
  moreover have "access_covers (resolve_access_with_cwd env (restricted (fp_entries requested)) q c) a"
    using g(3) q resolve_permission_entry [OF assms(1,2)]
    by (auto simp: granted_file_system_entry_within_request_def split: if_splits)
  moreover have "resolved_entry_precedence m = (length (path_components q), a)" using e(4) a by (simp add: resolved_entry_precedence_def)
  ultimately show ?thesis using g(1,2) q e(3) acc m(3) by auto
qed

text \<open>A denial below an accepted grant is in the intersection.\<close>

lemma denial_retained:
  assumes "wf_env env" "is_absolute c" "is_absolute cwd" "d \<in> set (fp_entries requested) \<union> set (fp_entries granted)" "entry_access d = AccessNone"
    and "resolve_entry_path env (entry_path d) (abs_from env c) = Some q'" "path_starts_with t q'" "path_starts_with q' q"
    and "materialize_cwd_dependent_entry env g c \<in> set (accepted_entries env globs requested granted c)" "can_read (entry_access g)"
    and "resolve_entry_path env (entry_path g) (abs_from env c) = Some q"
  shows "\<exists>r\<in>matching_entries env (restricted (fp_entries (intersect_file_system env globs requested granted c))) t cwd.
    resolved_entry_precedence r = (length (path_components q'), AccessNone)"
proof -
  let ?acc = "accepted_entries env globs requested granted c" and ?d = "materialize_cwd_dependent_entry env d c"
  have "\<not> (\<exists>pat. entry_path d = GlobPattern pat)" using assms(6) by (auto simp: resolve_entry_path_def resolve_file_system_path_def)
  then have "deny_entry_constrains_accepted_grant env d ?acc c"
    using assms(6,8,9,10,11) materialized_resolved [OF assms(1,2,2)] resolve_permission_entry [OF assms(1,2)]
    by (auto simp: deny_entry_constrains_accepted_grant_def list_ex_iff paths_overlap_def split: FileSystemPath.splits intro!: bexI)
  then have "?d \<in> set (retained_deny_entries env (fp_entries requested) ?acc c) \<or> ?d \<in> set (retained_deny_entries env (fp_entries granted) ?acc c)"
    using assms(4,5) by (auto simp: retained_deny_entries_def)
  then obtain e' where e': "e' \<in> set (fp_entries (intersect_file_system env globs requested granted c))" "entry_eq e' ?d"
    using intersection_has by blast
  have "resolve_entry_path env (entry_path ?d) (abs_from env cwd) = Some q'" "entry_access ?d = AccessNone"
    using materialized_resolved [OF assms(1,2,3), of d] assms(5,6) by auto
  from matching_entry_eq [OF assms(1) e'(2) _ this(1) assms(7), of "restricted (fp_entries (intersect_file_system env globs requested granted c))"]
  show ?thesis using e'(1) \<open>entry_access ?d = AccessNone\<close> by (simp add: resolved_entry_precedence_def)
qed

lemma no_read_inside_writeD:
  assumes "no_read_inside_write env cwd es" "w \<in> set es" "r \<in> set es" "entry_access w = AccessWrite" "entry_access r = AccessRead"
    and "resolve_entry_path env (entry_path w) (abs_from env cwd) = Some q" "resolve_entry_path env (entry_path r) (abs_from env cwd) = Some q'"
    and "path_starts_with q' q"
  shows "path_components q' = path_components q"
  using assms(1) [unfolded no_read_inside_write_def list_all_iff, THEN bspec, OF assms(2), THEN bspec, OF assms(3)] assms(4-8) by simp

text \<open>Below a covered path the access may only drop through a more specific entry.\<close>

lemma covered_below:
  assumes "fs_kind p = Restricted" "is_absolute path" "path_starts_with (normalize_path path) q" "resolve_candidate_path env q c = Some q"
    and "access_covers (resolve_access_with_cwd env p q c) a" "can_read a"
    and denials: "\<And>d q'. d \<in> set (fs_entries p) \<Longrightarrow> entry_access d = AccessNone \<Longrightarrow> resolve_entry_path env (entry_path d) (abs_from env c) = Some q' \<Longrightarrow>
      path_starts_with (normalize_path path) q' \<Longrightarrow> path_starts_with q' q \<Longrightarrow> length (path_components q) < length (path_components q') \<Longrightarrow> False"
    and clean: "no_read_inside_write env c (fs_entries p)"
  shows "access_covers (resolve_access_with_cwd env p path c) a"
proof -
  let ?t = "normalize_path path"
  note cand = absolute_candidate [OF assms(2), of env c]
  have "can_read (resolve_access_with_cwd env p q c)" using assms(5,6) by (cases a; cases "resolve_access_with_cwd env p q c") auto
  then have "matching_entries env p q c \<noteq> {}" using access_no_match [OF assms(1,4)] by auto
  from resolve_access_max [OF assms(1,4) this] obtain r0 where r0: "r0 \<in> matching_entries env p q c"
    "resolve_access_with_cwd env p q c = resolved_access r0" by blast
  have sub: "matching_entries env p q c \<subseteq> matching_entries env p ?t c" using starts_with_trans [OF assms(3)] by (auto simp: matching_entries_def)
  with r0(1) have "matching_entries env p ?t c \<noteq> {}" by blast
  from resolve_access_max [OF assms(1) cand this] obtain r1 where r1: "r1 \<in> matching_entries env p ?t c"
    "resolve_access_with_cwd env p path c = resolved_access r1"
    "\<forall>r\<in>matching_entries env p ?t c. resolved_entry_precedence r \<le> resolved_entry_precedence r1" by blast
  show ?thesis
  proof (cases "r1 \<in> matching_entries env p q c")
    case True
    have "resolve_access_with_cwd env p q c = resolved_access r1" by (rule access_of_max [OF assms(1,4) True]) (use sub r1(3) in auto)
    with r1(2) assms(5) show ?thesis by simp
  next
    case False
    from r1(1) obtain d q' where d: "d \<in> set (fs_entries p)" "resolve_entry_path env (entry_path d) (abs_from env c) = Some q'"
      "path_starts_with ?t q'" "r1 = \<lparr>resolved_path = q', resolved_access = entry_access d\<rparr>" by (auto simp: matching_iff)
    with False have "\<not> path_starts_with q q'" by (auto simp: matching_iff)
    from starts_with_linear [OF d(3) assms(3) this] have below: "path_starts_with q' q" "length (path_components q) < length (path_components q')" by auto
    have acc: "resolve_access_with_cwd env p path c = entry_access d" using r1(2) d(4) by simp
    have "entry_access d \<noteq> AccessNone" using denials [OF d(1) _ d(2,3) below] by blast
    moreover have False if "entry_access d = AccessRead" "a = AccessWrite"
    proof -
      from r0(1) obtain w q0 where w: "w \<in> set (fs_entries p)" "resolve_entry_path env (entry_path w) (abs_from env c) = Some q0"
        "path_starts_with q q0" "r0 = \<lparr>resolved_path = q0, resolved_access = entry_access w\<rparr>" by (auto simp: matching_iff)
      have "entry_access w = AccessWrite" using assms(5) that(2) r0(2) w(4) by (cases "entry_access w") auto
      from no_read_inside_writeD [OF clean w(1) d(1) this that(1) w(2) d(2) starts_with_trans [OF below(1) w(3)]]
      have "length (path_components q') \<le> length (path_components q)" using w(3) by (auto simp: starts_with_prefix prefix_length_le)
      with below(2) show False by simp
    qed
    ultimately show ?thesis using acc assms(6) by (cases "entry_access d"; cases a) auto
  qed
qed

text \<open>An entry that no denial of the same path overrides covers its own path.\<close>

lemma self_access:
  assumes "g \<in> set es" "resolve_entry_path env (entry_path g) (abs_from env c) = Some q" "resolve_candidate_path env q c = Some q"
    and denials: "\<And>d q'. d \<in> set es \<Longrightarrow> entry_access d = AccessNone \<Longrightarrow> resolve_entry_path env (entry_path d) (abs_from env c) = Some q' \<Longrightarrow>
      path_starts_with q q' \<Longrightarrow> path_starts_with q' q \<Longrightarrow> False"
    and "can_read (entry_access g)"
  shows "access_covers (resolve_access_with_cwd env (restricted es) q c) (entry_access g)"
proof -
  let ?m = "\<lparr>resolved_path = q, resolved_access = entry_access g\<rparr>"
  have m: "?m \<in> matching_entries env (restricted es) q c" using assms(1,2) by (auto simp: matching_iff starts_with_prefix)
  then have "matching_entries env (restricted es) q c \<noteq> {}" by blast
  from resolve_access_max [OF restricted_simps(1) assms(3) this] obtain r where r: "r \<in> matching_entries env (restricted es) q c"
    "resolve_access_with_cwd env (restricted es) q c = resolved_access r" "resolved_entry_precedence ?m \<le> resolved_entry_precedence r"
    using m by blast
  from r(1) obtain d q' where d: "d \<in> set es" "resolve_entry_path env (entry_path d) (abs_from env c) = Some q'"
    "path_starts_with q q'" "r = \<lparr>resolved_path = q', resolved_access = entry_access d\<rparr>" by (auto simp: matching_iff)
  have "length (path_components q') \<le> length (path_components q)" using d(3) by (simp add: starts_with_prefix prefix_length_le)
  with r(3) d(4) have eq: "length (path_components q') = length (path_components q)" "entry_access g \<le> entry_access d"
    by (auto simp: resolved_entry_precedence_def)
  with d(3) have "path_starts_with q' q" by (simp add: path_starts_with_def)
  then have "entry_access d \<noteq> AccessNone" using denials [OF d(1) _ d(2,3)] by blast
  with eq(2) r(2) d(4) assms(5) show ?thesis
    by (cases "entry_access g"; cases "entry_access d") (auto simp: less_eq_FileSystemAccessMode_def)
qed

lemma intersection_within:
  assumes env: "wf_env env" "is_absolute c" "is_absolute cwd" "is_absolute path" "wf_entries (fp_entries granted)"
    and "resolve_access_with_cwd env (restricted (fp_entries (intersect_file_system env globs requested granted c))) path cwd = a" "can_read a"
    and es: "es = fp_entries requested \<or> es = fp_entries granted"
    and clean: "no_read_inside_write env c es"
  shows "access_covers (resolve_access_with_cwd env (restricted es) path c) a"
proof -
  let ?p = "restricted (fp_entries (intersect_file_system env globs requested granted c))"
  from intersection_max [OF assms(1-7)] obtain g q where g: "g \<in> set (fp_entries granted)" "entry_access g = a"
    "resolve_entry_path env (entry_path g) (abs_from env c) = Some q" "path_starts_with (normalize_path path) q" "resolve_candidate_path env q c = Some q"
    "materialize_cwd_dependent_entry env g c \<in> set (accepted_entries env globs requested granted c)"
    "access_covers (resolve_access_with_cwd env (restricted (fp_entries requested)) q c) a"
    "\<forall>r\<in>matching_entries env ?p (normalize_path path) cwd. resolved_entry_precedence r \<le> (length (path_components q), a)" by blast
  have below: False if "d \<in> set es" "entry_access d = AccessNone" "resolve_entry_path env (entry_path d) (abs_from env c) = Some q'"
    "path_starts_with (normalize_path path) q'" "path_starts_with q' q" "length (path_components q) \<le> length (path_components q')" for d q'
  proof -
    from that(1) es have "d \<in> set (fp_entries requested) \<union> set (fp_entries granted)" by auto
    from denial_retained [OF env(1-3) this that(2-5) g(6) _ g(3)] g(2,8) assms(7)
    have "(length (path_components q'), AccessNone) \<le> (length (path_components q), a)" by fastforce
    then have "AccessNone \<le> a" using that(6) by auto
    with assms(7) show False by (cases a) (auto simp: less_eq_FileSystemAccessMode_def)
  qed
  have "access_covers (resolve_access_with_cwd env (restricted es) q c) a"
    using es
  proof
    assume "es = fp_entries granted"
    with self_access [of g es, OF _ g(3,5)] g(1,2) assms(7) below starts_with_trans [OF g(4)] show ?thesis
      by (metis prefix_length_le starts_with_prefix)
  qed (use g(7) in simp)
  then show ?thesis
    by (rule covered_below [OF restricted_simps(1) env(4) g(4,5) _ assms(7)]) (use clean below [OF _ _ _ _ _ less_imp_le] in auto)
qed

section \<open>Grants stay within the requests\<close>

text \<open>What a profile gives access to was asked for by one of the requests.\<close>

definition asked_for :: "path_env \<Rightarrow> (AdditionalPermissionProfile \<times> string) list \<Rightarrow> string \<Rightarrow> FileSystemAccessMode \<Rightarrow> bool" where
  "asked_for env rs path a \<longleftrightarrow>
    (\<exists>(requested, c)\<in>set rs. access_covers (resolve_access_with_cwd env (restricted (profile_entries requested)) path c) a)"

definition within_requests :: "path_env \<Rightarrow> (AdditionalPermissionProfile \<times> string) list \<Rightarrow> AdditionalPermissionProfile option \<Rightarrow> bool" where
  "within_requests env rs granted \<longleftrightarrow> (\<forall>ap. granted = Some ap \<longrightarrow>
    (\<forall>path cwd. is_absolute path \<longrightarrow> is_absolute cwd \<longrightarrow>
      can_read (resolve_access_with_cwd env (restricted (profile_entries ap)) path cwd) \<longrightarrow>
      asked_for env rs path (resolve_access_with_cwd env (restricted (profile_entries ap)) path cwd)) \<and>
    (ap_network ap = Some \<lparr>net_enabled = Some True\<rparr> \<longrightarrow> (\<exists>(requested, _)\<in>set rs. ap_network requested = Some \<lparr>net_enabled = Some True\<rparr>)))"

lemma no_entries_access: "\<not> can_read (resolve_access_with_cwd env (restricted []) path cwd)"
  by (auto simp: resolve_access_with_cwd_def resolved_entries_with_cwd_def max_by_key_def split: option.splits)

lemma within_none: "within_requests env rs None"
  by (simp add: within_requests_def)

lemma within_mono: "within_requests env rs g \<Longrightarrow> within_requests env (r # rs) g"
  by (auto simp: within_requests_def asked_for_def)

lemma profile_entries_merge:
  "profile_entries \<lparr>ap_network = n, ap_file_system = merge_file_system (ap_file_system a) (ap_file_system b)\<rparr> =
    (if ap_file_system a \<noteq> None \<and> ap_file_system b \<noteq> None then merge_permission_entries (profile_entries a) (profile_entries b)
     else profile_entries a @ profile_entries b)"
  by (auto simp: profile_entries_def merge_file_system_def option_filter_def file_system_is_empty_def split: option.splits)

lemma merge_within:
  assumes "wf_env env" "within_requests env rs a" "within_requests env rs b"
  shows "within_requests env rs (merge_permission_profiles a b)"
proof (cases "a = None \<or> b = None")
  case True
  with assms show ?thesis
    by (auto simp: merge_permission_profiles_def option_filter_def within_none split: option.splits)
next
  case False
  then obtain x y where xy: "a = Some x" "b = Some y" by auto
  let ?m = "\<lparr>ap_network = merge_network (ap_network x) (ap_network y), ap_file_system = merge_file_system (ap_file_system x) (ap_file_system y)\<rparr>"
  let ?acc = "\<lambda>ap path cwd. resolve_access_with_cwd env (restricted (profile_entries ap)) path cwd"
  have acc: "?acc ?m path cwd \<in> {?acc x path cwd, ?acc y path cwd}" for path cwd
    using merged_access [OF assms(1), of "profile_entries x" "profile_entries y" path cwd] unfolding profile_entries_merge
    by (auto simp: profile_entries_def split: option.splits)
  have net: "ap_network ?m = Some \<lparr>net_enabled = Some True\<rparr> \<Longrightarrow>
      ap_network x = Some \<lparr>net_enabled = Some True\<rparr> \<or> ap_network y = Some \<lparr>net_enabled = Some True\<rparr>"
    by (auto simp: merge_network_def split: if_splits)
  have "within_requests env rs (Some ?m)"
    unfolding within_requests_def
  proof (intro allI impI conjI)
    fix ap path cwd assume *: "Some ?m = Some ap" "is_absolute path" "is_absolute cwd" "can_read (?acc ap path cwd)"
    then have ap: "ap = ?m" by simp
    from acc [of path cwd] *(2-4) assms(2,3) xy show "asked_for env rs path (?acc ap path cwd)"
      unfolding within_requests_def ap by (metis insertE singletonD)
  next
    fix ap assume "Some ?m = Some ap" "ap_network ap = Some \<lparr>net_enabled = Some True\<rparr>"
    with net assms(2,3) xy show "\<exists>(requested, _)\<in>set rs. ap_network requested = Some \<lparr>net_enabled = Some True\<rparr>"
      unfolding within_requests_def by blast
  qed
  with xy show ?thesis by (auto simp: merge_permission_profiles_def option_filter_def within_none)
qed

lemma intersection_within_requests:
  assumes "wf_env env" "is_absolute c" "wf_entries (profile_entries granted)" "no_read_inside_write env c (profile_entries requested)"
    and "(requested, c) \<in> set rs"
  shows "within_requests env rs (Some (intersect_permission_profiles env globs requested granted c))"
  unfolding within_requests_def
proof (intro allI impI conjI)
  let ?i = "intersect_permission_profiles env globs requested granted c"
  let ?g = "case ap_file_system granted of Some fp \<Rightarrow> fp | None \<Rightarrow> \<lparr>fp_entries = [], fp_glob_scan_max_depth = None\<rparr>"
  fix ap path cwd assume ap: "Some ?i = Some ap" and path: "is_absolute path" "is_absolute cwd"
    and a: "can_read (resolve_access_with_cwd env (restricted (profile_entries ap)) path cwd)"
  then have "profile_entries ap \<noteq> []" using no_entries_access by metis
  with ap obtain fp where fp: "ap_file_system requested = Some fp" "profile_entries ap = fp_entries (intersect_file_system env globs fp ?g c)"
    by (auto simp: intersect_permission_profiles_def profile_entries_def option_filter_def split: option.splits if_splits)
  have "wf_entries (fp_entries ?g)" using assms(3) by (auto simp: profile_entries_def wf_entries_def split: option.splits)
  from intersection_within [OF assms(1,2) path(2,1) this refl, of globs fp "fp_entries fp"] a assms(4) fp
  have "access_covers (resolve_access_with_cwd env (restricted (profile_entries requested)) path c)
      (resolve_access_with_cwd env (restricted (profile_entries ap)) path cwd)" by (simp add: profile_entries_def)
  with assms(5) show "asked_for env rs path (resolve_access_with_cwd env (restricted (profile_entries ap)) path cwd)"
    unfolding asked_for_def by blast
next
  fix ap assume "Some (intersect_permission_profiles env globs requested granted c) = Some ap" "ap_network ap = Some \<lparr>net_enabled = Some True\<rparr>"
  then have "ap_network requested = Some \<lparr>net_enabled = Some True\<rparr>" by (auto simp: intersect_permission_profiles_def split: if_splits)
  with assms(5) show "\<exists>(requested, _)\<in>set rs. ap_network requested = Some \<lparr>net_enabled = Some True\<rparr>" by blast
qed

lemma within_empty: "profile_is_empty ap \<Longrightarrow> within_requests env rs (Some ap)"
  using no_entries_access by (auto simp: within_requests_def profile_is_empty_def profile_entries_def)

lemma normalized_within:
  assumes "wf_env env" "is_absolute c" "wf_entries (profile_entries (rp_permissions response))"
    "no_read_inside_write env c (profile_entries requested)" "(requested, c) \<in> set rs"
  shows "within_requests env rs (Some (rp_permissions (normalize_request_permissions_response env globs requested response c)))"
  using intersection_within_requests [OF assms] within_empty
  by (auto simp: normalize_request_permissions_response_def no_permissions_def profile_is_empty_def)

definition grants_ok :: "path_env \<Rightarrow> (AdditionalPermissionProfile \<times> string) list \<Rightarrow> grant_state \<Rightarrow> bool" where
  "grants_ok env rs st \<longleftrightarrow> within_requests env rs (gs_session st) \<and>
    (\<forall>ts. gs_turn st = Some ts \<longrightarrow> within_requests env rs (tg_granted ts) \<and>
      (\<forall>(_, requested, c)\<in>set (tg_pending ts). (requested, c) \<in> set rs \<and> is_absolute c))"

lemma record_ok:
  assumes "wf_env env" "grants_ok env rs st" "within_requests env rs (Some (rp_permissions response))"
  shows "grants_ok env rs (record_granted_request_permissions_for_turn st response)"
  using assms merge_within [OF assms(1) _ assms(3)]
  by (auto simp: grants_ok_def record_granted_request_permissions_for_turn_def record_turn_permissions_def record_session_permissions_def
      Let_def split: PermissionGrantScope.splits)

lemma remove_pending_ok: "grants_ok env rs st \<Longrightarrow> grants_ok env rs (remove_pending_request_permissions st call_id)"
  by (auto simp: grants_ok_def remove_pending_request_permissions_def AList.delete_eq)

lemma set_alist_update: "x \<in> set (AList.update k v xs) \<Longrightarrow> x = (k, v) \<or> x \<in> set xs"
  by (induction xs) (auto split: if_splits)

lemma insert_pending_ok:
  assumes "grants_ok env rs st" "(requested, c) \<in> set rs" "is_absolute c"
  shows "grants_ok env rs (insert_pending_request_permissions st call_id requested c)"
  using assms by (auto simp: grants_ok_def insert_pending_request_permissions_def dest!: set_alist_update)

lemma notify_ok:
  assumes "wf_env env" "grants_ok env rs st" "wf_entries (profile_entries (rp_permissions response))"
    and "\<forall>(requested, c)\<in>set rs. no_read_inside_write env c (profile_entries requested)"
  shows "grants_ok env rs (notify_request_permissions_response env globs call_id response st)"
proof (cases "Option.bind (gs_turn st) (\<lambda>ts. map_of (tg_pending ts) call_id)")
  case (Some rc)
  obtain requested c where rc: "rc = (requested, c)" by (cases rc)
  with Some assms(2) have req: "(requested, c) \<in> set rs" "is_absolute c"
    by (auto simp: grants_ok_def bind_eq_Some_conv dest!: map_of_SomeD)
  with assms(4) have "no_read_inside_write env c (profile_entries requested)" by auto
  from normalized_within [OF assms(1) req(2) assms(3) this req(1)] record_ok [OF assms(1) remove_pending_ok [OF assms(2)]] Some rc show ?thesis
    by (simp add: notify_request_permissions_response_def)
qed (use assms(2) in \<open>simp add: notify_request_permissions_response_def\<close>)

lemma normalized_entry_wf:
  assumes "wf_env env" "wf_entries [e]"
  shows "wf_entries [normalized_entry env e]"
  using assms abs_from_normal [OF assms(1)] normal_path_str
  by (auto simp: wf_entries_def normalized_entry_def entry_def bind_eq_Some_conv split: FileSystemPath.splits option.splits)

lemma wf_entries_Cons: "wf_entries (e # es) \<longleftrightarrow> wf_entries [e] \<and> wf_entries es"
  by (auto simp: wf_entries_def)

lemma normalize_entries_wf:
  assumes "wf_env env" "normalize_entries env es raw = Ok es'" "wf_entries es" "wf_entries raw"
  shows "wf_entries es'"
  using assms(2-)
proof (induction raw arbitrary: es)
  case (Cons e raw)
  have "wf_entries (push_missing es (normalized_entry env e))"
    using Cons.prems(2,3) normalized_entry_wf [OF assms(1), of e] by (auto simp: push_missing_def wf_entries_def)
  with Cons.IH [of "push_missing es (normalized_entry env e)"] Cons.prems show ?case by (auto simp: wf_entries_def split: if_splits)
qed simp

lemma handled_wf:
  assumes "wf_env env" "handle_request_permissions env raw = Ok requested" "wf_entries (profile_entries raw)"
  shows "wf_entries (profile_entries requested)"
proof (cases "ap_file_system raw")
  case None
  with assms(2) have "profile_entries requested = []"
    by (auto simp: handle_request_permissions_def normalize_additional_permissions_def profile_entries_def Let_def split: if_splits)
  then show ?thesis by (simp add: wf_entries_def)
next
  case (Some fp)
  with assms(2) obtain es where es: "normalize_entries env [] (fp_entries fp) = Ok es"
    by (cases "normalize_entries env [] (fp_entries fp)")
      (simp_all add: handle_request_permissions_def normalize_additional_permissions_def Let_def)
  with assms(2) Some have "profile_entries requested = es \<or> profile_entries requested = []"
    by (auto simp: handle_request_permissions_def normalize_additional_permissions_def profile_entries_def Let_def split: if_splits)
  moreover have "profile_entries raw = fp_entries fp" using Some by (simp add: profile_entries_def)
  moreover have "wf_entries []" by (simp add: wf_entries_def)
  ultimately show ?thesis using normalize_entries_wf [OF assms(1) es] assms(3) by metis
qed

lemma grants_ok_mono: "grants_ok env rs st \<Longrightarrow> grants_ok env (r # rs) st"
  by (fastforce simp: grants_ok_def within_mono)

lemma grant_run_ok:
  assumes "grant_run env globs rs st" "wf_env env" "\<forall>(requested, c)\<in>set rs. no_read_inside_write env c (profile_entries requested)"
  shows "grants_ok env rs st"
  using assms(1,3)
proof (induction rule: grant_run.induct)
  case (asked rs st approval cwd raw requested call_id)
  from asked.IH asked.prems have "grants_ok env ((requested, cwd) # rs) st" by (auto intro: grants_ok_mono)
  then show ?case using asked.hyps(3) by (simp add: insert_pending_ok)
next
  case (reviewed rs st approval cwd raw requested review same_turn)
  from reviewed.IH reviewed.prems have ok: "grants_ok env ((requested, cwd) # rs) st" by (auto intro: grants_ok_mono)
  have "wf_entries (profile_entries (rp_permissions (reviewed_response review requested)))"
    using handled_wf [OF assms(2) reviewed.hyps(5,4)]
    by (cases review) (auto simp: reviewed_response_def no_permissions_def profile_entries_def wf_entries_def Let_def split: NetworkPolicyRuleAction.splits)
  from normalized_within [OF assms(2) reviewed.hyps(3) this, of requested "(requested, cwd) # rs" globs] reviewed.prems
  have "grants_ok env ((requested, cwd) # rs) (record_granted_request_permissions_for_turn st
      (normalize_request_permissions_response env globs requested (reviewed_response review requested) cwd))"
    by (intro record_ok [OF assms(2) ok]) simp
  with ok show ?case by (cases same_turn) (simp_all add: record_review_def Let_def grants_ok_def)
next
  case (answered rs st response call_id)
  then show ?case using notify_ok [OF assms(2)] by blast
next
  case (cancelled rs st call_id)
  then show ?case by (blast intro: remove_pending_ok)
qed (auto simp: grants_ok_def within_none turn_grants_default_def)

section \<open>Equal permissions\<close>

lemma access_precedences:
  assumes "fs_kind p = Restricted" "fs_kind p' = Restricted" "resolve_candidate_path env path cwd = Some t"
    "resolved_entry_precedence ` matching_entries env p t cwd = resolved_entry_precedence ` matching_entries env p' t cwd"
  shows "resolve_access_with_cwd env p path cwd = resolve_access_with_cwd env p' path cwd"
proof (cases "matching_entries env p t cwd = {}")
  case True
  then have "matching_entries env p' t cwd = {}" using assms(4) by auto
  with True show ?thesis using access_no_match [OF assms(1,3)] access_no_match [OF assms(2,3)] by simp
next
  case False
  from resolve_access_max [OF assms(1,3) False] obtain r where r: "r \<in> matching_entries env p t cwd"
    "resolve_access_with_cwd env p path cwd = resolved_access r"
    "\<forall>r'\<in>matching_entries env p t cwd. resolved_entry_precedence r' \<le> resolved_entry_precedence r" by blast
  from r(1) assms(4) obtain r' where r': "r' \<in> matching_entries env p' t cwd" "resolved_entry_precedence r' = resolved_entry_precedence r"
    by (metis image_iff)
  have "resolve_access_with_cwd env p' path cwd = resolved_access r'"
  proof (rule access_of_max [OF assms(2,3) r'(1)], rule)
    fix x assume "x \<in> matching_entries env p' t cwd"
    then have "resolved_entry_precedence x \<in> resolved_entry_precedence ` matching_entries env p t cwd" using assms(4) by blast
    with r(3) r'(2) show "resolved_entry_precedence x \<le> resolved_entry_precedence r'" by auto
  qed
  with r(2) r'(2) show ?thesis by (simp add: resolved_entry_precedence_def)
qed

lemma special_share_sym: "special_paths_share_target a b \<Longrightarrow> special_paths_share_target b a"
  by (cases a; cases b) (auto simp: special_paths_share_target_def path_eq_def split: option.splits)

lemma entry_eq_sym: "entry_eq a b \<Longrightarrow> entry_eq b a"
  using special_share_sym by (auto simp: entry_eq_def file_system_path_eq_def path_eq_def split: FileSystemPath.splits)

lemma precedences_sub:
  assumes "wf_env env" "\<forall>e\<in>set es. \<exists>e'\<in>set es'. entry_eq e' e"
  shows "resolved_entry_precedence ` matching_entries env (restricted es) t cwd \<subseteq> resolved_entry_precedence ` matching_entries env (restricted es') t cwd"
proof
  fix x assume "x \<in> resolved_entry_precedence ` matching_entries env (restricted es) t cwd"
  then obtain e q where e: "e \<in> set es" "resolve_entry_path env (entry_path e) (abs_from env cwd) = Some q" "path_starts_with t q"
    "x = resolved_entry_precedence \<lparr>resolved_path = q, resolved_access = entry_access e\<rparr>" by (auto simp: matching_iff)
  with assms(2) obtain e' where "e' \<in> set es'" "entry_eq e' e" by blast
  from matching_entry_eq [OF assms(1) this(2) _ e(2,3), of "restricted es'"] this(1)
  show "x \<in> resolved_entry_precedence ` matching_entries env (restricted es') t cwd" unfolding e(4) by (metis image_eqI restricted_simps(2))
qed

lemma equal_entries_access:
  assumes "wf_env env" "list_all2 entry_eq es es'" "resolve_candidate_path env path cwd = Some t"
  shows "resolve_access_with_cwd env (restricted es) path cwd = resolve_access_with_cwd env (restricted es') path cwd"
proof (rule access_precedences [OF _ _ assms(3)])
  have "\<forall>e\<in>set es. \<exists>e'\<in>set es'. entry_eq e' e" "\<forall>e\<in>set es'. \<exists>e'\<in>set es. entry_eq e' e"
    using assms(2) entry_eq_sym by (induction rule: list_all2_induct) auto
  with precedences_sub [OF assms(1)] show "resolved_entry_precedence ` matching_entries env (restricted es) t cwd =
      resolved_entry_precedence ` matching_entries env (restricted es') t cwd" by (intro antisym) blast+
qed simp_all

text \<open>Permissions without denials intersected with themselves keep every access.\<close>

lemma self_intersection_access:
  assumes "wf_env env" "is_absolute c" "is_absolute path" "wf_entries (fp_entries fp)" "\<forall>e\<in>set (fp_entries fp). entry_access e \<noteq> AccessNone"
  shows "resolve_access_with_cwd env (restricted (fp_entries (intersect_file_system env globs fp fp c))) path c =
    resolve_access_with_cwd env (restricted (fp_entries fp)) path c"
proof (rule access_precedences [OF _ _ absolute_candidate [OF assms(3)]])
  let ?es = "fp_entries (intersect_file_system env globs fp fp c)" and ?t = "normalize_path path"
  note same = materialized_resolved [OF assms(1,2,2)]
  have from_self: "\<exists>g\<in>set (fp_entries fp). e = materialize_cwd_dependent_entry env g c" if "e \<in> set ?es" for e
  proof -
    have "retained_deny_entries env (fp_entries fp) acc c = []" for acc using assms(5) by (auto simp: retained_deny_entries_def filter_empty_conv)
    with that have "e \<in> set (accepted_entries env globs fp fp c)" by (simp add: intersection_entries add_missing_def)
    then show ?thesis using accepted_from by blast
  qed
  have accepted: "\<exists>e'\<in>set ?es. entry_eq e' (materialize_cwd_dependent_entry env g c)"
    if g: "g \<in> set (fp_entries fp)" "resolve_entry_path env (entry_path g) (abs_from env c) = Some q" for g q
  proof -
    have read: "can_read (entry_access g)" using assms(5) g(1) by (cases "entry_access g") auto
    have "resolve_candidate_path env q c = Some q" using resolved_entry_normal [OF assms(1,2,4) g] by (simp add: absolute_candidate)
    from self_access [OF g this _ read] assms(5) have "access_covers (resolve_access_with_cwd env (restricted (fp_entries fp)) q c) (entry_access g)" by blast
    moreover have "read_deny_matcher_new env globs (restricted (fp_entries fp)) c = None"
      using assms(5) by (auto simp: read_deny_matcher_new_def has_denied_read_restrictions_def list_ex_iff)
    ultimately have "granted_file_system_entry_within_request env fp (restricted (fp_entries fp))
        (read_deny_matcher_new env globs (restricted (fp_entries fp)) c) g c"
      using g(2) read resolve_permission_entry [OF assms(1,2)] by (simp add: granted_file_system_entry_within_request_def)
    then have "\<exists>e'\<in>set (accepted_entries env globs fp fp c). entry_eq e' (materialize_cwd_dependent_entry env g c)"
      unfolding accepted_entries_def Let_def by (intro add_missing_has) (use g(1) in auto)
    moreover have "set (accepted_entries env globs fp fp c) \<subseteq> set ?es"
      unfolding intersection_entries using add_missing_sup by (meson subset_trans)
    ultimately show ?thesis by blast
  qed
  show "resolved_entry_precedence ` matching_entries env (restricted ?es) ?t c = resolved_entry_precedence ` matching_entries env (restricted (fp_entries fp)) ?t c"
  proof (intro antisym subsetI)
    fix x assume "x \<in> resolved_entry_precedence ` matching_entries env (restricted ?es) ?t c"
    then show "x \<in> resolved_entry_precedence ` matching_entries env (restricted (fp_entries fp)) ?t c"
      using from_self same by (fastforce simp: matching_iff image_iff)
  next
    fix x assume "x \<in> resolved_entry_precedence ` matching_entries env (restricted (fp_entries fp)) ?t c"
    then obtain g q where g: "g \<in> set (fp_entries fp)" "resolve_entry_path env (entry_path g) (abs_from env c) = Some q" "path_starts_with ?t q"
      "x = resolved_entry_precedence \<lparr>resolved_path = q, resolved_access = entry_access g\<rparr>" by (auto simp: matching_iff)
    from accepted [OF g(1,2)] obtain e' where e': "e' \<in> set ?es" "entry_eq e' (materialize_cwd_dependent_entry env g c)" by blast
    from matching_entry_eq [OF assms(1) e'(2), of "restricted ?es" c q ?t] e'(1) same g obtain r where
      "r \<in> matching_entries env (restricted ?es) ?t c" "x = resolved_entry_precedence r" by auto
    then show "x \<in> resolved_entry_precedence ` matching_entries env (restricted ?es) ?t c" by blast
  qed
qed simp_all

lemma profile_entries_intersect:
  "ap_file_system requested = Some fp \<Longrightarrow> profile_entries (intersect_permission_profiles env globs requested granted c) =
    fp_entries (intersect_file_system env globs fp
      (case ap_file_system granted of Some g \<Rightarrow> g | None \<Rightarrow> \<lparr>fp_entries = [], fp_glob_scan_max_depth = None\<rparr>) c)"
  by (auto simp: intersect_permission_profiles_def profile_entries_def option_filter_def file_system_is_empty_def split: option.splits)

lemma profile_eq_entries: "profile_eq a b \<Longrightarrow> list_all2 entry_eq (profile_entries a) (profile_entries b)"
  by (auto simp: profile_eq_def profile_entries_def file_system_permissions_eq_def option_rel_Some1 rel_option_None1 split: option.splits)

section \<open>Composition of grants\<close>

lemma special_share_trans: "special_paths_share_target a b \<Longrightarrow> special_paths_share_target b c \<Longrightarrow> special_paths_share_target a c"
  by (cases a; cases b; cases c) (auto simp: special_paths_share_target_def path_eq_def split: option.splits)

lemma entry_eq_trans: "entry_eq a b \<Longrightarrow> entry_eq b c \<Longrightarrow> entry_eq a c"
  using special_share_trans by (fastforce simp: entry_eq_def file_system_path_eq_def path_eq_def split: FileSystemPath.splits)

lemma add_missing_append: "add_missing xs (ys @ zs) = add_missing (add_missing xs ys) zs"
  by (simp add: add_missing_def)

lemma add_missing_snoc: "add_missing xs (ys @ [z]) = push_missing (add_missing xs ys) z"
  by (simp add: add_missing_def)

lemma add_missing_dedup: "add_missing xs (add_missing [] ys) = add_missing xs ys"
proof (induction ys rule: rev_induct)
  case (snoc y ys)
  show ?case
  proof (cases "list_ex (\<lambda>x. entry_eq x y) (add_missing [] ys)")
    case True
    then obtain x where x: "x \<in> set (add_missing [] ys)" "entry_eq x y" by (auto simp: list_ex_iff)
    from add_missing_has [OF x(1), of xs] obtain x' where "x' \<in> set (add_missing xs ys)" "entry_eq x' x" unfolding snoc by blast
    with x(2) have "list_ex (\<lambda>x. entry_eq x y) (add_missing xs ys)" by (auto simp: list_ex_iff intro: entry_eq_trans)
    with True snoc show ?thesis by (simp add: add_missing_snoc push_missing_def)
  next
    case False
    then show ?thesis using snoc by (simp add: add_missing_snoc push_missing_def)
  qed
qed (simp add: add_missing_def)

definition deny_glob :: "FileSystemSandboxEntry \<Rightarrow> bool" where
  "deny_glob e \<longleftrightarrow> entry_access e = AccessNone \<and> (case entry_path e of GlobPattern _ \<Rightarrow> True | _ \<Rightarrow> False)"

lemma deny_glob_eq: "entry_eq a b \<Longrightarrow> deny_glob a = deny_glob b"
  by (auto simp: deny_glob_def entry_eq_def file_system_path_eq_def split: FileSystemPath.splits)

lemma add_missing_globs: "list_ex deny_glob (add_missing xs ys) \<longleftrightarrow> list_ex deny_glob xs \<or> list_ex deny_glob ys"
  using add_missing_sub [of xs ys] add_missing_sup [of xs ys] add_missing_has [of _ ys xs] deny_glob_eq unfolding list_ex_iff by (metis Un_iff subsetD)

lemma depth_eff: "effective_glob_scan_depth es d = (if list_ex deny_glob es then Some (case d of Some d \<Rightarrow> Bounded d | None \<Rightarrow> Unbounded) else None)"
  by (simp add: effective_glob_scan_depth_def deny_glob_def [abs_def])

lemma merge_depth_assoc:
  assumes "da \<noteq> Some 0" "db \<noteq> Some 0"
  shows "merge_glob_scan_max_depth (add_missing base a) (merge_glob_scan_max_depth base d a da) b db =
    merge_glob_scan_max_depth base d (add_missing [] (a @ b)) (non_zero (merge_glob_scan_max_depth a da b db))"
  using assms
  by (auto simp: merge_glob_scan_max_depth_def depth_eff add_missing_globs non_zero_def option_filter_def split: option.splits)

lemma merge_depth_dedup:
  "merge_glob_scan_max_depth base d (add_missing [] a) da = merge_glob_scan_max_depth base d a da"
  by (simp add: merge_glob_scan_max_depth_def depth_eff add_missing_globs)

text \<open>The depths of a profile are positive.\<close>

definition depths_ok :: "AdditionalPermissionProfile option \<Rightarrow> bool" where
  "depths_ok ap \<longleftrightarrow> (case ap of Some ap \<Rightarrow> (case ap_file_system ap of Some fp \<Rightarrow> fp_glob_scan_max_depth fp \<noteq> Some 0 | None \<Rightarrow> True) | None \<Rightarrow> True)"

lemma merge_depth_left:
  "da \<noteq> Some 0 \<Longrightarrow> merge_glob_scan_max_depth base d (add_missing [] a) (non_zero (merge_glob_scan_max_depth a da [] db)) =
    merge_glob_scan_max_depth base d a da"
  by (auto simp: merge_glob_scan_max_depth_def depth_eff add_missing_globs non_zero_def option_filter_def split: option.splits)

lemma merge_depth_right:
  "db \<noteq> Some 0 \<Longrightarrow> merge_glob_scan_max_depth base d (add_missing [] b) (non_zero (merge_glob_scan_max_depth [] da b db)) =
    merge_glob_scan_max_depth base d b db"
  by (auto simp: merge_glob_scan_max_depth_def depth_eff add_missing_globs non_zero_def option_filter_def split: option.splits)

lemma add_missing_Nil: "add_missing [] ys = [] \<longleftrightarrow> ys = []"
proof (cases ys)
  case (Cons y l)
  with add_missing_has [of y ys "[]"] show ?thesis by auto
qed (simp add: add_missing_def)

lemma merge_policy_compose:
  assumes "fp_glob_scan_max_depth a \<noteq> Some 0" "fp_glob_scan_max_depth b \<noteq> Some 0"
  shows "effective_file_system_sandbox_policy (effective_file_system_sandbox_policy p (Some \<lparr>ap_network = n, ap_file_system = Some a\<rparr>))
      (Some \<lparr>ap_network = n', ap_file_system = Some b\<rparr>) =
    effective_file_system_sandbox_policy p (Some \<lparr>ap_network = n'', ap_file_system = merge_file_system (Some a) (Some b)\<rparr>)"
proof (cases "fs_kind p = Restricted")
  case True
  note defs = effective_file_system_sandbox_policy_def merge_file_system_policy_with_additional_permissions_def merge_file_system_def
    merge_permission_entries_def option_filter_def file_system_is_empty_def True add_missing_Nil add_missing_dedup
  consider "fp_entries a = []" "fp_entries b = []" | "fp_entries a = []" "fp_entries b \<noteq> []" | "fp_entries a \<noteq> []" "fp_entries b = []"
    | "fp_entries a \<noteq> []" "fp_entries b \<noteq> []" by blast
  then show ?thesis
  proof cases
    case 1
    then show ?thesis by (simp add: defs)
  next
    case 2
    then show ?thesis using assms(2) by (simp add: defs merge_depth_right)
  next
    case 3
    then show ?thesis using assms(1) by (simp add: defs merge_depth_left)
  next
    case 4
    then show ?thesis using merge_depth_assoc [OF assms] by (simp add: defs add_missing_append [symmetric])
  qed
qed (simp add: effective_file_system_sandbox_policy_def merge_file_system_policy_with_additional_permissions_def merge_file_system_def
    option_filter_def)

lemma effective_depends: "effective_file_system_sandbox_policy p (Some ap) =
    effective_file_system_sandbox_policy p (Some \<lparr>ap_network = n, ap_file_system = ap_file_system ap\<rparr>)"
  by (simp add: effective_file_system_sandbox_policy_def)

lemma effective_policy_compose:
  assumes "depths_ok a" "depths_ok b"
  shows "effective_file_system_sandbox_policy (effective_file_system_sandbox_policy p a) b =
    effective_file_system_sandbox_policy p (merge_permission_profiles a b)"
proof (cases "a = None \<or> b = None")
  case True
  then show ?thesis
    by (auto simp: merge_permission_profiles_def option_filter_def profile_is_empty_def effective_file_system_sandbox_policy_def split: option.splits)
next
  case False
  then obtain x y where xy: "a = Some x" "b = Some y" by auto
  show ?thesis
  proof (cases "ap_file_system x = None \<or> ap_file_system y = None")
    case True
    with xy show ?thesis
      by (auto simp: merge_permission_profiles_def merge_file_system_def option_filter_def profile_is_empty_def
          effective_file_system_sandbox_policy_def split: option.splits)
  next
    case False
    then obtain f g where fg: "ap_file_system x = Some f" "ap_file_system y = Some g" by auto
    have "fp_glob_scan_max_depth f \<noteq> Some 0" "fp_glob_scan_max_depth g \<noteq> Some 0" using assms xy fg by (auto simp: depths_ok_def)
    from merge_policy_compose [OF this, of p "ap_network x" "ap_network y" "merge_network (ap_network x) (ap_network y)"] xy fg show ?thesis
      by (auto simp: merge_permission_profiles_def option_filter_def profile_is_empty_def effective_depends [of _ x "ap_network x"]
          effective_depends [of _ y "ap_network y"] effective_file_system_sandbox_policy_def)
  qed
qed

lemma effective_network_compose:
  "effective_network_sandbox_policy (effective_network_sandbox_policy n a) b = effective_network_sandbox_policy n (merge_permission_profiles a b)"
proof -
  have eq: "(x = Some \<lparr>net_enabled = Some True\<rparr>) = (case Option.bind x net_enabled of Some b \<Rightarrow> b | None \<Rightarrow> False)" for x :: "NetworkPermissions option"
    by (cases x) (auto split: option.splits)
  show ?thesis
    by (cases n; cases a; cases b) (auto simp: effective_network_sandbox_policy_def merge_permission_profiles_def merge_network_access_def
        merge_network_def eq option_filter_def profile_is_empty_def)
qed

lemma effective_policy_facts:
  assumes "depths_ok a"
  shows "fs_kind (effective_file_system_sandbox_policy p a) = fs_kind p"
    and "glob_scan_max_depth p \<noteq> Some 0 \<Longrightarrow> glob_scan_max_depth (effective_file_system_sandbox_policy p a) \<noteq> Some 0"
    and "fs_kind p \<noteq> Restricted \<Longrightarrow> effective_file_system_sandbox_policy p a = p"
  using assms
  by (auto simp: effective_file_system_sandbox_policy_def merge_file_system_policy_with_additional_permissions_def depths_ok_def
      merge_glob_scan_max_depth_def depth_eff max_def split: option.splits if_splits)

definition profile_depth_ok :: "PermissionProfile \<Rightarrow> bool" where
  "profile_depth_ok profile \<longleftrightarrow> glob_scan_max_depth (file_system_sandbox_policy profile) \<noteq> Some 0"

text \<open>An effective profile has the effective policies, and enforces as before.\<close>

lemma effective_profile_facts:
  assumes "profile_depth_ok profile" "depths_ok a"
  shows "\<exists>profile'. effective_permission_profile profile a = Some profile' \<and> enforcement profile' = enforcement profile \<and>
    file_system_sandbox_policy profile' = effective_file_system_sandbox_policy (file_system_sandbox_policy profile) a \<and>
    network_sandbox_policy profile' = effective_network_sandbox_policy (network_sandbox_policy profile) a"
proof (cases profile)
  case (Managed m n)
  let ?p = "effective_file_system_sandbox_policy (managed_to_sandbox_policy m) a"
  have kind: "fs_kind ?p = fs_kind (managed_to_sandbox_policy m)" "fs_kind (managed_to_sandbox_policy m) \<noteq> ExternalSandbox"
    using effective_policy_facts(1) [OF assms(2)] by (auto simp: managed_to_sandbox_policy_def unrestricted_def split: ManagedFileSystemPermissions.splits)
  have depth: "glob_scan_max_depth ?p \<noteq> Some 0"
    using effective_policy_facts(2) [OF assms(2)] assms(1) Managed by (simp add: profile_depth_ok_def file_system_sandbox_policy_def)
  have "\<exists>m'. managed_from_sandbox_policy ?p = Some m' \<and> managed_to_sandbox_policy m' = ?p"
  proof (cases "fs_kind ?p")
    case Restricted
    then show ?thesis using depth
      by (cases ?p) (auto simp: managed_from_sandbox_policy_def managed_to_sandbox_policy_def split: option.splits)
  next
    case Unrestricted
    then have "?p = managed_to_sandbox_policy m" using effective_policy_facts(3) [OF assms(2)] kind by simp
    moreover have "managed_to_sandbox_policy m = unrestricted" using Unrestricted kind(1)
      by (auto simp: managed_to_sandbox_policy_def split: ManagedFileSystemPermissions.splits)
    ultimately show ?thesis by (simp add: managed_from_sandbox_policy_def managed_to_sandbox_policy_def unrestricted_def)
  qed (use kind in simp)
  then show ?thesis using Managed kind
    by (auto simp: effective_permission_profile_def from_runtime_permissions_with_enforcement_def file_system_sandbox_policy_def
        network_sandbox_policy_def split: FileSystemSandboxKind.splits)
next
  case Disabled
  have "effective_file_system_sandbox_policy unrestricted a = unrestricted" using effective_policy_facts(3) [OF assms(2)] by (simp add: unrestricted_def)
  moreover have "effective_network_sandbox_policy NetEnabled a = NetEnabled"
    by (simp add: effective_network_sandbox_policy_def merge_network_access_def split: option.splits)
  ultimately show ?thesis using Disabled
    by (simp add: effective_permission_profile_def from_runtime_permissions_with_enforcement_def file_system_sandbox_policy_def
        network_sandbox_policy_def unrestricted_def)
next
  case (External n)
  have "effective_file_system_sandbox_policy external_sandbox a = external_sandbox"
    using effective_policy_facts(3) [OF assms(2)] by (simp add: external_sandbox_def)
  with External show ?thesis
    by (simp add: effective_permission_profile_def from_runtime_permissions_with_enforcement_def file_system_sandbox_policy_def
        network_sandbox_policy_def external_sandbox_def)
qed

lemma preapproved_files:
  assumes "permissions_are_preapproved env globs effective granted c" "wf_env env" "is_absolute c" "is_absolute path"
    and "wf_entries (profile_entries effective)" "wf_entries (profile_entries granted)" "no_read_inside_write env c (profile_entries granted)"
    and "\<forall>e\<in>set (profile_entries effective). entry_access e \<noteq> AccessNone"
    and "a = resolve_access_with_cwd env (restricted (profile_entries effective)) path c" "can_read a"
  shows "access_covers (resolve_access_with_cwd env (restricted (profile_entries granted)) path c) a"
proof -
  let ?g = "case ap_file_system granted of Some g \<Rightarrow> g | None \<Rightarrow> \<lparr>fp_entries = [], fp_glob_scan_max_depth = None\<rparr>"
  have "profile_entries effective \<noteq> []" using assms(9,10) no_entries_access by metis
  then obtain fp where fp: "ap_file_system effective = Some fp" "profile_entries effective = fp_entries fp"
    by (auto simp: profile_entries_def split: option.splits)
  have g: "fp_entries ?g = profile_entries granted" by (simp add: profile_entries_def split: option.splits)
  note cand = absolute_candidate [OF assms(4), of env c]
  from assms(1) have "list_all2 entry_eq (fp_entries (intersect_file_system env globs fp ?g c)) (fp_entries (intersect_file_system env globs fp fp c))"
    using profile_eq_entries profile_entries_intersect [OF fp(1)] fp(1) unfolding permissions_are_preapproved_def by fastforce
  from equal_entries_access [OF assms(2) this cand] self_intersection_access [OF assms(2-4), of fp globs] assms(5,8,9) fp(2)
  have "resolve_access_with_cwd env (restricted (fp_entries (intersect_file_system env globs fp ?g c))) path c = a" by simp
  from intersection_within [OF assms(2,3,3,4) _ this assms(10), of "fp_entries ?g"] assms(6,7) show ?thesis unfolding g by simp
qed

section \<open>Properties\<close>

text \<open>C3: The agent never obtains more than it asked for: whatever the user, the client or a review answers in
  the course of a session, a path the effective policy makes accessible was accessible in the same way
  before, or one of the requests made so far asks for that access; the network is open only if it was or
  a request asks for it.  No request names a read-only path inside a writable one; see below.\<close>

theorem grants_stay_within_requests:
  assumes "grant_run env globs rs st" "wf_env env" "\<forall>(requested, c)\<in>set rs. no_read_inside_write env c (profile_entries requested)"
    and "is_absolute path" "is_absolute cwd"
    and "a = resolve_access_with_cwd env (effective_file_system_sandbox_policy p (granted_permissions st)) path cwd"
  shows "(can_read a \<longrightarrow> a = resolve_access_with_cwd env p path cwd \<or> asked_for env rs path a) \<and>
    (effective_network_sandbox_policy net (granted_permissions st) = NetEnabled \<longrightarrow>
      net = NetEnabled \<or> (\<exists>(requested, _)\<in>set rs. ap_network requested = Some \<lparr>net_enabled = Some True\<rparr>))"
proof -
  from grant_run_ok [OF assms(1-3)] have ok: "grants_ok env rs st" .
  then have "within_requests env rs (granted_turn_permissions st)"
    by (cases "gs_turn st") (auto simp: grants_ok_def granted_turn_permissions_def within_none)
  with ok have within: "within_requests env rs (granted_permissions st)"
    unfolding granted_permissions_def by (intro merge_within [OF assms(2)]) (simp_all add: grants_ok_def)
  show ?thesis
  proof (cases "granted_permissions st")
    case None
    with assms(6) show ?thesis by (simp add: effective_file_system_sandbox_policy_def effective_network_sandbox_policy_def)
  next
    case (Some ap)
    have "a = resolve_access_with_cwd env p path cwd \<or> a = resolve_access_with_cwd env (restricted (profile_entries ap)) path cwd"
    proof (cases "fs_kind p = Restricted")
      case True
      with effective_access [OF assms(2) True Some] assms(6) show ?thesis by simp
    next
      case False
      then show ?thesis using assms(6) Some
        by (simp add: effective_file_system_sandbox_policy_def merge_file_system_policy_with_additional_permissions_def split: option.splits)
    qed
    moreover have "effective_network_sandbox_policy net (granted_permissions st) = NetEnabled \<Longrightarrow>
        net = NetEnabled \<or> ap_network ap = Some \<lparr>net_enabled = Some True\<rparr>"
      using Some by (cases net; cases "ap_network ap") (auto simp: effective_network_sandbox_policy_def merge_network_access_def split: if_splits option.splits)
    ultimately show ?thesis using within Some assms(4,5) unfolding within_requests_def by blast
  qed
qed

text \<open>C31: Granting permissions one after the other is granting their union: the profile a command runs under
  is the same, and it always exists.\<close>

theorem grants_compose:
  assumes "profile_depth_ok profile" "depths_ok a" "depths_ok b"
  shows "Option.bind (effective_permission_profile profile a) (\<lambda>profile'. effective_permission_profile profile' b) =
      effective_permission_profile profile (merge_permission_profiles a b) \<and> effective_permission_profile profile a \<noteq> None"
proof -
  from effective_profile_facts [OF assms(1,2)] obtain profile' where
    "effective_permission_profile profile a = Some profile'" "enforcement profile' = enforcement profile"
    "file_system_sandbox_policy profile' = effective_file_system_sandbox_policy (file_system_sandbox_policy profile) a"
    "network_sandbox_policy profile' = effective_network_sandbox_policy (network_sandbox_policy profile) a" by blast
  then show ?thesis using effective_policy_compose [OF assms(2,3)] effective_network_compose
    by (simp add: effective_permission_profile_def)
qed

text \<open>C30: A command runs without asking only on granted permissions: when its permissions, merged with the grants,
  count as approved before, contain no denial, and the grants name no read-only path inside a writable
  one, then every file access they give was granted, and so was the network if they open it.  With
  denials this fails; see below.\<close>

theorem preapproved_within_grants:
  assumes "ea = apply_granted_turn_permissions env globs st c sandbox_permissions additional" "ea_permissions_preapproved ea"
    and "ea_additional_permissions ea = Some effective" "granted_permissions st = Some granted"
    and "wf_env env" "is_absolute c" "is_absolute path" "wf_entries (profile_entries effective)" "wf_entries (profile_entries granted)"
    and "no_read_inside_write env c (profile_entries granted)" "\<forall>e\<in>set (profile_entries effective). entry_access e \<noteq> AccessNone"
    and "a = resolve_access_with_cwd env (restricted (profile_entries effective)) path c"
  shows "(can_read a \<longrightarrow> access_covers (resolve_access_with_cwd env (restricted (profile_entries granted)) path c) a) \<and>
    (ap_network effective = Some \<lparr>net_enabled = Some True\<rparr> \<longrightarrow> ap_network granted = Some \<lparr>net_enabled = Some True\<rparr>)"
proof -
  have pre: "permissions_are_preapproved env globs effective granted c"
    using assms(1-4) by (auto simp: apply_granted_turn_permissions_def Let_def split: if_splits)
  then have "ap_network effective = Some \<lparr>net_enabled = Some True\<rparr> \<Longrightarrow> ap_network granted = Some \<lparr>net_enabled = Some True\<rparr>"
    by (auto simp: permissions_are_preapproved_def profile_eq_def intersect_permission_profiles_def split: if_splits)
  with preapproved_files [OF pre assms(5-12)] show ?thesis by blast
qed

section \<open>Examples\<close>

definition path_permissions :: "(string \<times> FileSystemAccessMode) list \<Rightarrow> AdditionalPermissionProfile" where
  "path_permissions ps = \<lparr>ap_network = None,
    ap_file_system = Some \<lparr>fp_entries = map (\<lambda>(p, a). entry (PathEntry p) a) ps, fp_glob_scan_max_depth = None\<rparr>\<rparr>"

definition no_globs :: glob_compiler where
  "no_globs pattern = None"

definition data_request :: AdditionalPermissionProfile where
  "data_request = path_permissions [(''/data'', AccessWrite)]"

definition data_response :: RequestPermissionsResponse where
  "data_response = \<lparr>rp_permissions = path_permissions [(''/data'', AccessWrite), (''/etc'', AccessWrite)], rp_scope = SessionScope,
    rp_strict_auto_review = False\<rparr>"

definition data_granted :: grant_state where
  "data_granted = notify_request_permissions_response plain_env no_globs ''1'' data_response
    (insert_pending_request_permissions (\<lparr>gs_session = None, gs_turn = None\<rparr>\<lparr>gs_turn := Some turn_grants_default\<rparr>) ''1'' data_request ''/repo'')"

lemma data_run: "grant_run plain_env no_globs [(data_request, ''/repo'')] data_granted"
  unfolding data_granted_def
proof (rule grant_run.answered, rule grant_run.asked [where approval = OnRequest and raw = data_request])
  show "grant_run plain_env no_globs [] (\<lparr>gs_session = None, gs_turn = None\<rparr>\<lparr>gs_turn := Some turn_grants_default\<rparr>)"
    by (rule grant_run.turn_begins) (rule grant_run.started)
qed code_simp+

theorem grants_stay_within_requests_witness: "asked_for plain_env [(data_request, ''/repo'')] ''/data/x'' AccessWrite"
proof -
  let ?p = "restricted [entry (PathEntry ''/repo'') AccessWrite]"
  have clean: "\<forall>(requested, c)\<in>set [(data_request, ''/repo'')]. no_read_inside_write plain_env c (profile_entries requested)"
    and abs: "is_absolute ''/data/x''" "is_absolute ''/repo''"
    and acc: "AccessWrite = resolve_access_with_cwd plain_env (effective_file_system_sandbox_policy ?p (granted_permissions data_granted)) ''/data/x'' ''/repo''"
    and base: "resolve_access_with_cwd plain_env ?p ''/data/x'' ''/repo'' = AccessNone" by code_simp+
  from grants_stay_within_requests [OF data_run wf_plain_env clean abs acc] base show ?thesis by simp
qed

text \<open>A read-only path inside a writable one is lost when the outer path is granted: the answer then
  exceeds the request.\<close>

lemma read_only_part_lost:
  "resolve_access_with_cwd plain_env (restricted (profile_entries (intersect_permission_profiles plain_env no_globs
      (path_permissions [(''/a'', AccessWrite), (''/a/b'', AccessRead)]) (path_permissions [(''/a'', AccessWrite)]) ''/repo''))) ''/a/b/f'' ''/repo'' = AccessWrite"
  "resolve_access_with_cwd plain_env (restricted (profile_entries (path_permissions [(''/a'', AccessWrite), (''/a/b'', AccessRead)]))) ''/a/b/f'' ''/repo'' = AccessRead"
  by code_simp+

text \<open>An additional read permission inside a writable root takes the permission to write away.\<close>

lemma read_grant_revokes_write:
  "resolve_access_with_cwd plain_env (restricted [entry (PathEntry ''/repo'') AccessWrite]) ''/repo/src/f'' ''/repo'' = AccessWrite"
  "resolve_access_with_cwd plain_env (effective_file_system_sandbox_policy (restricted [entry (PathEntry ''/repo'') AccessWrite])
      (Some (path_permissions [(''/repo/src'', AccessRead)]))) ''/repo/src/f'' ''/repo'' = AccessRead"
  by code_simp+

theorem grants_compose_witness:
  "Option.bind (effective_permission_profile (Managed (ManagedRestricted [entry (PathEntry ''/repo'') AccessWrite] None) NetRestricted) (Some data_request))
      (\<lambda>profile'. effective_permission_profile profile' (Some \<lparr>ap_network = Some \<lparr>net_enabled = Some True\<rparr>, ap_file_system = None\<rparr>)) =
    Some (Managed (ManagedRestricted [entry (PathEntry ''/repo'') AccessWrite, entry (PathEntry ''/data'') AccessWrite] None) NetEnabled)"
proof -
  let ?base = "Managed (ManagedRestricted [entry (PathEntry ''/repo'') AccessWrite] None) NetRestricted"
  let ?net = "Some \<lparr>ap_network = Some \<lparr>net_enabled = Some True\<rparr>, ap_file_system = None\<rparr>"
  have ok: "profile_depth_ok ?base" "depths_ok (Some data_request)" "depths_ok ?net"
    and merged: "effective_permission_profile ?base (merge_permission_profiles (Some data_request) ?net) =
      Some (Managed (ManagedRestricted [entry (PathEntry ''/repo'') AccessWrite, entry (PathEntry ''/data'') AccessWrite] None) NetEnabled)"
    by code_simp+
  from grants_compose [OF ok] merged show ?thesis by simp
qed

text \<open>The permissions that were granted in the example run are used again without asking.\<close>

theorem preapproved_within_grants_witness:
  "access_covers (resolve_access_with_cwd plain_env (restricted (profile_entries data_request)) ''/data/x'' ''/repo'') AccessWrite"
proof -
  let ?ea = "apply_granted_turn_permissions plain_env no_globs data_granted ''/repo'' WithAdditionalPermissions (Some data_request)"
  have side: "ea_permissions_preapproved ?ea" "is_absolute ''/repo''" "is_absolute ''/data/x''"
    "wf_entries (profile_entries data_request)" "no_read_inside_write plain_env ''/repo'' (profile_entries data_request)"
    "\<forall>e\<in>set (profile_entries data_request). entry_access e \<noteq> AccessNone"
    "AccessWrite = resolve_access_with_cwd plain_env (restricted (profile_entries data_request)) ''/data/x'' ''/repo''" "can_read AccessWrite"
    "map_option profile_entries (ea_additional_permissions ?ea) = Some (profile_entries data_request)"
    "map_option profile_entries (granted_permissions data_granted) = Some (profile_entries data_request)"
    by code_simp+
  then obtain effective granted where g: "ea_additional_permissions ?ea = Some effective" "profile_entries effective = profile_entries data_request"
    "granted_permissions data_granted = Some granted" "profile_entries granted = profile_entries data_request" by auto
  from preapproved_within_grants [OF refl side(1) g(1,3) wf_plain_env side(2,3)] side g(2,4) show ?thesis by metis
qed

text \<open>A denial around a new permission hides it from the comparison: the command counts as approved before,
  although it may write a path that was never granted.\<close>

lemma denial_hides_new_permission:
  defines "effective \<equiv> apply_granted_turn_permissions plain_env no_globs data_granted ''/repo'' WithAdditionalPermissions
    (Some (path_permissions [(''/a'', AccessNone), (''/a/b'', AccessWrite)]))"
  shows "ea_permissions_preapproved effective"
    and "resolve_access_with_cwd plain_env (effective_file_system_sandbox_policy (restricted [entry (PathEntry ''/repo'') AccessWrite])
      (ea_additional_permissions effective)) ''/a/b/f'' ''/repo'' = AccessWrite"
    and "resolve_access_with_cwd plain_env (effective_file_system_sandbox_policy (restricted [entry (PathEntry ''/repo'') AccessWrite])
      (granted_permissions data_granted)) ''/a/b/f'' ''/repo'' = AccessNone"
  unfolding effective_def by code_simp+

end
