(* ===== verification/Spec2Isabelle.thy ===== *)
theory Spec2Isabelle
  imports Head_Tail_Buffer Patch_Errors Patch_Streaming Patch_Apply Exec_Policy Assistant_Text Context_History Exec_Amendments Patch_Safety Permission_Grants
begin

text \<open>
  A verification library for the agent runtime under \<open>codex-rs\<close>: the code that decides what a model may do to
  a machine, does it, and keeps the record of it.  Source paths below are relative to \<open>src/codex-rs\<close>.

  \<^bold>\<open>The program.\<close>  A model answers with text and with tool calls.  Its text goes through streaming parsers
  that take out citations and plans.  A tool call runs a command or applies a patch.  A command is taken
  apart if it is a shell wrapper, checked against execution-policy rules, lists of safe and dangerous
  commands, the approval settings and the sandbox policy; the result is to run it, to ask, or to refuse,
  and an accepted proposal becomes a rule.  A patch is parsed, verified against the file system, checked
  against the sandbox policy and applied.  The model can ask for additional permissions, which a client
  or a review grants in part.  Output of tools is buffered, truncated and recorded in the conversation
  history, which is put in order before it is sent to the model again.

  \<^bold>\<open>Foundations.\<close>
  \<^item> \<open>Prelude\<close>: \<open>Result\<close> as a sum type, saturating arithmetic, vector operations, shared list lemmas.
  \<^item> \<open>Rust_Str\<close>, \<open>Utf8\<close>: a \<open>str\<close> is the list of its UTF-8 bytes; trimming, splitting, \<open>str::from_utf8\<close>.
  \<^item> \<open>Abs_Path\<close> (utils/absolute-path): components, normalisation, resolution against a base.  Resolved
    paths are absolute and normal, and resolving is idempotent.

  \<^bold>\<open>Patches\<close> (apply-patch, file-system, exec-server, and of core \<open>safety.rs\<close>, \<open>apply_patch.rs\<close>,
  tools/handlers/apply_patch.rs).
  \<^item> \<open>Patch_Parser\<close>, \<open>Patch_Errors\<close>, \<open>Patch_Roundtrip\<close> (\<open>parser.rs\<close>): the batch parser function by function,
    its errors on every rejected text, and the round trip with a printer of the grammar.
  \<^item> \<open>Patch_Streaming\<close> (\<open>streaming_parser.rs\<close>): the incremental parser as a state machine; how the text is cut
    does not matter, and on printed patches it agrees with the batch parser.
  \<^item> \<open>Seek_Sequence\<close>, \<open>Patch_Replace\<close> (\<open>seek_sequence.rs\<close>, the line edits of \<open>lib.rs\<close>): where a chunk
    applies; the edits never leave the file and amount to a splice.
  \<^item> \<open>File_System\<close> (file-system/src/lib.rs, exec-server/src/local_file_system.rs): the trait as a record of
    functions, its contract as the locale \<open>executor_file_system\<close>, and the direct implementation on a tree
    of files and directories, which interprets it.
  \<^item> \<open>Patch_Apply\<close> (\<open>lib.rs\<close>): hunk application with partial effects on failure, proved over the locale to
    refine an abstract function on files and to leave other files alone.
  \<^item> \<open>Patch_Invocation\<close>, \<open>Patch_Safety\<close> (\<open>invocation.rs\<close> and core): recognition and verification of a patch in a
    command, the verdict on it, its delegation and execution, and the throttled progress events.

  \<^bold>\<open>Commands\<close> (shell-command, execpolicy, and of core \<open>exec_policy.rs\<close>, tools/sandboxing.rs).
  \<^item> \<open>Bash_Commands\<close> (\<open>shell_detect.rs\<close>, \<open>bash.rs\<close>): the two readings of a shell script, each characterised
    by a specification on syntax trees that does not mention the algorithm.
  \<^item> \<open>Command_Safety\<close> (command_safety/): the safe, dangerous and PowerShell lists; safe and dangerous commands
    are disjoint, and the accepted git commands are described exactly.
  \<^item> \<open>Exec_Rule\<close>, \<open>Exec_Policy\<close> (\<open>decision.rs\<close>, \<open>executable_name.rs\<close>, \<open>rule.rs\<close>, \<open>policy.rs\<close>): rules behind the
    locale \<open>rule\<close>, evaluation, overlays and network domains.  No matching rule is overlooked.
  \<^item> \<open>Rules_File\<close> (\<open>amend.rs\<close>): appending to a policy file when every system call can fail.
  \<^item> \<open>Exec_Approval\<close>, \<open>Exec_Amendments\<close> (core): the approval requirement of a command, its relation to rules,
    lists and settings; runs of amendments, which make progress and stay backed by the policy file; the
    approval cache of a session.

  \<^bold>\<open>Sandbox policies and permissions\<close> (protocol, sandboxing, and of core session/, state/, tools/handlers/mod.rs).
  \<^item> \<open>Sandbox_Policy\<close>, \<open>Sandbox_Roots\<close> (protocol/src/permissions.rs, \<open>models.rs\<close>, \<open>protocol.rs\<close>): entries and
    the access they resolve to, protected metadata, roots, legacy policies, the matcher of denied reads.
  \<^item> \<open>Permission_Grants\<close> (sandboxing/src/policy_transforms.rs and core): requests, answers, what is granted for
    the turn and the session, and the effective policy, as runs of a step relation; nothing is granted
    that was not asked for.

  \<^bold>\<open>Streamed text\<close> (utils/stream-parser).  \<open>Stream_Text\<close> has the interface as the locale \<open>stream_text_parser\<close>, whose
  law is that a chunk boundary changes nothing but where the output is cut; \<open>Utf8_Stream\<close> is the byte adapter.
  \<open>Inline_Tags\<close> and \<open>Proposed_Plan\<close> (on \<open>Tagged_Lines\<close>) interpret the locale on the citation and plan parsers and
  relate them to reference definitions on whole texts; \<open>Assistant_Text\<close> composes them.

  \<^bold>\<open>Output and history\<close> (utils/string, utils/output-truncation, core).  \<open>Head_Tail_Buffer\<close>
  (unified_exec/head_tail_buffer.rs) keeps the two ends of a stream.  \<open>Truncation\<close> cuts the middle out of texts.
  \<open>Response_Item\<close>, \<open>Context_Fragments\<close>, \<open>Context_Normalize\<close>, \<open>Context_History\<close> (protocol/src/models.rs, context/,
  context_manager/) model items, injected context, the pairing of calls and outputs, rollback, and token
  estimates.

  \<^bold>\<open>Termination and bounds.\<close>  No definition uses fuel.  Loops are recursive functions with termination proofs;
  the one exception, \<open>inline_loop\<close>, ends only because delimiters are not empty, is a partial function into
  \<open>option\<close>, and is proved to return (\<open>inline_loop_total\<close>).  Panics are the value \<open>None\<close>.  Saturating and
  bounded arithmetic is on numbers with the limits of \<open>usize\<close> (64 bits) and \<open>i64\<close> written out.  Products
  with an \<open>f64\<close> are rounded as doubles are.

  \<^bold>\<open>Parameters.\<close>  Code that is not part of the sources is an argument of the definitions that call it: the
  tree-sitter grammar of bash and the here-document query, the PowerShell process, the \<open>globset\<close>, \<open>shlex\<close>,
  \<open>serde_json\<close> and \<open>similar\<close> packages, the XML reader of hook prompts, the JSON reader of inter-agent messages,
  JSON lengths and image sizes, the environment (home and current directory, \<open>TMPDIR\<close>, existing paths), the
  clock and the target system.  Where a property needs something of them, it says so: syntax trees are
  ordered as the source (\<open>ordered_tree\<close>), environment paths are absolute (\<open>wf_env\<close>).

  \<^bold>\<open>Simplifications.\<close>  Builds are Unix builds.  A \<open>PathBuf\<close> is its string; two are equal as paths when their
  components are.  The file tree has no symbolic links, permissions or times, and a write is atomic.  Hash
  maps are association lists, and no property depends on their order.  The cache of image sizes is left
  out, since it only returns what was computed for the same URL.  Log lines are left out.

  \<^bold>\<open>Where the code falls short.\<close>  Conditions of properties that look accidental are there because the property
  fails without them; the failures are proved on concrete inputs: \<open>move_to_self_removes\<close> (a move to itself
  deletes the file), \<open>added_line_removed\<close> (a chunk undoes an addition), \<open>shadowed_move_not_checked\<close> (two hunks on
  one file hide a move target from the verdict), \<open>streaming_trims_context\<close>, \<open>paginate_before_subcommand\<close>,
  \<open>full_disk_write_missing_tmp\<close>, \<open>metadata_entry_order\<close>, \<open>denial_hides_new_permission\<close>, \<open>read_only_part_lost\<close>
  and \<open>read_grant_revokes_write\<close>.

  \<^bold>\<open>Not modelled.\<close>  The user interfaces, the app server, model clients, MCP, login, telemetry and storage are I/O
  and serialisation.  The platform sandboxes and the network proxy enforce modelled policies by system calls.
  Sessions, tasks, the tool orchestrator with its network approvals, and processes are asynchronous
  plumbing around the modelled decisions.  The parser of rule files runs a Starlark interpreter, and the
  configuration is read by TOML libraries.  The Windows lists rest on the \<open>regex\<close> and \<open>url\<close> packages.  Summaries
  of commands and unified diffs are for display.
\<close>

end
